(* ===== verification/Prelude.thy ===== *)
theory Prelude
  imports Main "HOL-Library.Word" "HOL-Library.Monad_Syntax"
begin

text \<open>
  Shared vocabulary of the development: the C integer types as words, memory blocks as
  byte lists with bounds-checked copies, little-endian fields, the status codes the code
  returns, and the generic lemmas the component theories use.

  A definition that touches memory returns an option: None is an access outside the block
  (or through a NULL pointer), which in the driver is memory corruption or a bug check.
  A lemma that a definition returns Some is therefore a memory-safety statement.
\<close>

unbundle bit_operations_syntax

section \<open>C integers and status codes\<close>

type_synonym u8 = "8 word"
type_synonym u16 = "16 word"
type_synonym u32 = "32 word"
type_synonym u64 = "64 word"
type_synonym bytes = "8 word list"
type_synonym ntstatus = "32 word"

abbreviation (input) STATUS_SUCCESS :: ntstatus where "STATUS_SUCCESS \<equiv> 0"
abbreviation (input) STATUS_PENDING :: ntstatus where "STATUS_PENDING \<equiv> 0x103"
abbreviation (input) STATUS_UNSUCCESSFUL :: ntstatus where "STATUS_UNSUCCESSFUL \<equiv> 0xC0000001"
abbreviation (input) STATUS_INVALID_PARAMETER :: ntstatus
  where "STATUS_INVALID_PARAMETER \<equiv> 0xC000000D"
abbreviation (input) STATUS_NO_SUCH_DEVICE :: ntstatus where "STATUS_NO_SUCH_DEVICE \<equiv> 0xC000000E"
abbreviation (input) STATUS_INVALID_DEVICE_REQUEST :: ntstatus
  where "STATUS_INVALID_DEVICE_REQUEST \<equiv> 0xC0000010"
abbreviation (input) STATUS_ACCESS_DENIED :: ntstatus where "STATUS_ACCESS_DENIED \<equiv> 0xC0000022"
abbreviation (input) STATUS_BUFFER_TOO_SMALL :: ntstatus where "STATUS_BUFFER_TOO_SMALL \<equiv> 0xC0000023"
abbreviation (input) STATUS_DELETE_PENDING :: ntstatus where "STATUS_DELETE_PENDING \<equiv> 0xC0000056"
abbreviation (input) STATUS_INSUFFICIENT_RESOURCES :: ntstatus
  where "STATUS_INSUFFICIENT_RESOURCES \<equiv> 0xC000009A"
abbreviation (input) STATUS_NOT_SUPPORTED :: ntstatus where "STATUS_NOT_SUPPORTED \<equiv> 0xC00000BB"
abbreviation (input) STATUS_CANCELLED :: ntstatus where "STATUS_CANCELLED \<equiv> 0xC0000120"
abbreviation (input) STATUS_NOT_FOUND :: ntstatus where "STATUS_NOT_FOUND \<equiv> 0xC0000225"

text \<open>NT_SUCCESS of the WDK: the status, read as a signed 32-bit value, is not negative.\<close>

definition NT_SUCCESS :: "ntstatus \<Rightarrow> bool" where
  "NT_SUCCESS s \<longleftrightarrow> s < 0x80000000"

section \<open>Memory blocks\<close>

text \<open>
  RtlCopyMemory and memcpy read n elements at an offset of one block and write them at an
  offset of another. Both halves check the bounds of their block.
\<close>

definition mem_read :: "'a list \<Rightarrow> nat \<Rightarrow> nat \<Rightarrow> 'a list option" where
  "mem_read m off n =
     (if off + n \<le> length m then Some (take n (drop off m)) else None)"

definition mem_write :: "'a list \<Rightarrow> nat \<Rightarrow> 'a list \<Rightarrow> 'a list option" where
  "mem_write m off xs =
     (if off + length xs \<le> length m
      then Some (take off m @ xs @ drop (off + length xs) m) else None)"

definition mem_copy :: "'a list \<Rightarrow> nat \<Rightarrow> 'a list \<Rightarrow> nat \<Rightarrow> nat \<Rightarrow> 'a list option" where
  "mem_copy dst doff src soff n = do { xs \<leftarrow> mem_read src soff n; mem_write dst doff xs }"

text \<open>The C remainder on 32-bit unsigned values: a zero divisor traps.\<close>

definition u32_rem :: "u32 \<Rightarrow> u32 \<Rightarrow> u32 option" where
  "u32_rem a b = (if b = 0 then None else Some (a mod b))"

section \<open>Little-endian fields\<close>

definition le16 :: "u16 \<Rightarrow> bytes" where
  "le16 w = [ucast w, ucast (drop_bit 8 w)]"

definition le32 :: "u32 \<Rightarrow> bytes" where
  "le32 w = [ucast w, ucast (drop_bit 8 w), ucast (drop_bit 16 w), ucast (drop_bit 24 w)]"

definition le64 :: "u64 \<Rightarrow> bytes" where
  "le64 w = le32 (ucast w) @ le32 (ucast (drop_bit 32 w))"

fun un16 :: "bytes \<Rightarrow> u16 option" where
  "un16 [a, b] = Some (ucast a OR push_bit 8 (ucast b))"
| "un16 _ = None"

fun un32 :: "bytes \<Rightarrow> u32 option" where
  "un32 [a, b, c, d] =
     Some (ucast a OR push_bit 8 (ucast b) OR push_bit 16 (ucast c) OR push_bit 24 (ucast d))"
| "un32 _ = None"

definition un64 :: "bytes \<Rightarrow> u64 option" where
  "un64 bs = do { lo \<leftarrow> un32 (take 4 bs); hi \<leftarrow> un32 (drop 4 bs);
                  Some (ucast lo OR push_bit 32 (ucast hi)) }"

definition read16 :: "bytes \<Rightarrow> nat \<Rightarrow> u16 option" where
  "read16 m off = mem_read m off 2 \<bind> un16"

definition read32 :: "bytes \<Rightarrow> nat \<Rightarrow> u32 option" where
  "read32 m off = mem_read m off 4 \<bind> un32"

definition read64 :: "bytes \<Rightarrow> nat \<Rightarrow> u64 option" where
  "read64 m off = mem_read m off 8 \<bind> un64"

definition read8 :: "bytes \<Rightarrow> nat \<Rightarrow> u8 option" where
  "read8 m off = (if off < length m then Some (m ! off) else None)"

section \<open>Lemmas\<close>

named_theorems mem_simps
  "evaluation of bounds-checked memory accesses"
named_theorems word_nat
  "transfer of 32-bit comparisons and arithmetic to natural numbers"

lemma NT_SUCCESS_signed: "NT_SUCCESS s \<longleftrightarrow> 0 \<le> sint s"
proof -
  have "uint s < 4294967296" "0 \<le> uint s"
    using unsigned_less [of s, where 'a = int] by simp_all
  then have "bit (uint s) 31 \<longleftrightarrow> 2147483648 \<le> uint s"
    by (cases "2147483648 \<le> uint s") (simp_all add: bit_iff_odd div_pos_geq)
  then show ?thesis
    by (simp add: NT_SUCCESS_def sint_uint word_less_def signed_take_bit_nonnegative_iff not_le)
qed

lemma NT_SUCCESS_simps [simp]:
  "NT_SUCCESS STATUS_SUCCESS" "NT_SUCCESS STATUS_PENDING"
  "\<not> NT_SUCCESS STATUS_INVALID_PARAMETER" "\<not> NT_SUCCESS STATUS_INSUFFICIENT_RESOURCES"
  "\<not> NT_SUCCESS STATUS_ACCESS_DENIED" "\<not> NT_SUCCESS STATUS_UNSUCCESSFUL"
  "\<not> NT_SUCCESS STATUS_BUFFER_TOO_SMALL" "\<not> NT_SUCCESS STATUS_INVALID_DEVICE_REQUEST"
  by (simp_all add: NT_SUCCESS_def)

lemma mem_read_Some [mem_simps]:
  "off + n \<le> length m \<Longrightarrow> mem_read m off n = Some (take n (drop off m))"
  by (simp add: mem_read_def)

lemma mem_write_Some [mem_simps]:
  "off + length xs \<le> length m \<Longrightarrow>
   mem_write m off xs = Some (take off m @ xs @ drop (off + length xs) m)"
  by (simp add: mem_write_def)

lemma mem_copy_Some [mem_simps]:
  "soff + n \<le> length src \<Longrightarrow> doff + n \<le> length dst \<Longrightarrow>
   mem_copy dst doff src soff n =
     Some (take doff dst @ take n (drop soff src) @ drop (doff + n) dst)"
  by (simp add: mem_copy_def mem_simps)

lemma mem_copy_length: "mem_copy dst doff src soff n = Some m \<Longrightarrow> length m = length dst"
  by (auto simp: mem_copy_def mem_read_def mem_write_def split: if_splits)

lemma u32_rem_Some [mem_simps]: "b \<noteq> 0 \<Longrightarrow> u32_rem a b = Some (a mod b)"
  by (simp add: u32_rem_def)

lemma length_le [simp]: "length (le16 w) = 2" "length (le32 x) = 4" "length (le64 y) = 8"
  by (simp_all add: le16_def le32_def le64_def)

lemma un16_le16 [simp]: "un16 (le16 w) = Some w"
  by (simp add: le16_def) (intro bit_eqI, auto simp: bit_simps)

lemma un32_le32 [simp]: "un32 (le32 w) = Some w"
proof -
  have "bit (ucast (ucast w :: u8) OR push_bit 8 (ucast (ucast (drop_bit 8 w) :: u8))
      OR push_bit 16 (ucast (ucast (drop_bit 16 w) :: u8))
      OR push_bit 24 (ucast (ucast (drop_bit 24 w) :: u8)) :: u32) n = bit w n"
    if "n < 32" for n
    using that
    by (cases "n < 8"; cases "n < 16"; cases "n < 24") (auto simp: bit_simps)
  then show ?thesis
    unfolding le32_def by (simp del: bit_or_iff) (intro bit_eqI, simp)
qed

lemma un64_le64 [simp]: "un64 (le64 w) = Some w"
  by (simp add: un64_def le64_def) (intro bit_eqI, auto simp: bit_simps)

lemma unat_sub_le [word_nat]: "b \<le> a \<Longrightarrow> unat (a - b :: u32) = unat a - unat b"
  by (rule unat_sub)

lemma unat_add_lt [word_nat]:
  "unat a + unat b < 4294967296 \<Longrightarrow> unat (a + b :: u32) = unat a + unat b"
  by (simp add: unat_word_ariths)

lemmas [word_nat] = word_le_nat_alt word_less_nat_alt unat_mod word_unat_eq_iff

lemma unat_u32_lt: "unat (a :: u32) < 4294967296"
  using unsigned_less [of a, where 'a = nat] by simp

lemma unat_min [simp]: "unat (min a b :: 'a::len word) = min (unat a) (unat b)"
  by (simp add: min_def word_le_nat_alt)

lemma unat_ucast_u16_u32 [simp]: "unat (ucast (w :: u16) :: u32) = unat w"
  using unsigned_less [of w, where 'a = nat] by (simp add: unsigned_ucast_eq take_bit_nat_eq_self)

text \<open>Reading a field of a structure: skip the fields before it, then read it.\<close>

named_theorems field_simps_le
  "reading little-endian fields at constant offsets"

lemma mem_read_skip: "length xs \<le> off \<Longrightarrow> mem_read (xs @ m) off n = mem_read m (off - length xs) n"
  by (auto simp: mem_read_def)

lemma read_skip [field_simps_le]:
  "length xs \<le> off \<Longrightarrow> read16 (xs @ m) off = read16 m (off - length xs)"
  "length xs \<le> off \<Longrightarrow> read32 (xs @ m) off = read32 m (off - length xs)"
  "length xs \<le> off \<Longrightarrow> read64 (xs @ m) off = read64 m (off - length xs)"
  "length xs \<le> off \<Longrightarrow> read8 (xs @ m) off = read8 m (off - length xs)"
  "1 \<le> off \<Longrightarrow> read16 (b # m) off = read16 m (off - 1)"
  "1 \<le> off \<Longrightarrow> read32 (b # m) off = read32 m (off - 1)"
  "1 \<le> off \<Longrightarrow> read64 (b # m) off = read64 m (off - 1)"
  "1 \<le> off \<Longrightarrow> read8 (b # m) off = read8 m (off - 1)"
  using mem_read_skip [of "[b]" off m]
  by (auto simp: read16_def read32_def read64_def read8_def mem_read_skip nth_append nth_Cons')

lemma read_here [field_simps_le]:
  "read16 (le16 w @ m) 0 = Some w" "read16 (le16 w) 0 = Some w"
  "read32 (le32 x @ m) 0 = Some x" "read32 (le32 x) 0 = Some x"
  "read64 (le64 y @ m) 0 = Some y" "read64 (le64 y) 0 = Some y"
  "read8 (b # m) 0 = Some b"
  by (auto simp: read16_def read32_def read64_def read8_def mem_simps)

lemma un32_total: "length xs = 4 \<Longrightarrow> \<exists>n. un32 xs = Some n"
  by (cases xs rule: un32.cases) auto

lemma read32_total: "k + 4 \<le> length m \<Longrightarrow> \<exists>n. read32 m k = Some n"
  using un32_total [of "take 4 (drop k m)"] by (simp add: read32_def mem_read_def)

lemma un16_total: "length xs = 2 \<Longrightarrow> \<exists>n. un16 xs = Some n"
  by (cases xs rule: un16.cases) auto

lemma read16_total: "k + 2 \<le> length m \<Longrightarrow> \<exists>n. read16 m k = Some n"
  using un16_total [of "take 2 (drop k m)"] by (simp add: read16_def mem_read_def)

lemma read8_total: "k < length m \<Longrightarrow> \<exists>n. read8 m k = Some n"
  by (simp add: read8_def)

text \<open>Reads only depend on the bytes they read.\<close>

lemma read_take:
  "off + 2 \<le> n \<Longrightarrow> read16 (take n m) off = (if off + 2 \<le> length m then read16 m off else None)"
  "off + 4 \<le> n \<Longrightarrow> read32 (take n m) off = (if off + 4 \<le> length m then read32 m off else None)"
  "off + 8 \<le> n \<Longrightarrow> read64 (take n m) off = (if off + 8 \<le> length m then read64 m off else None)"
  "off < n \<Longrightarrow> read8 (take n m) off = (if off < length m then read8 m off else None)"
  by (auto simp: read16_def read32_def read64_def read8_def mem_read_def drop_take min_def)

text \<open>The other direction: a field that was read has the bytes it was read from.\<close>

lemma bit_u8_high: "8 \<le> n \<Longrightarrow> \<not> bit (a :: u8) n"
  using bit_imp_le_length [of a n] by auto

lemma le16_un16: "un16 xs = Some w \<Longrightarrow> le16 w = xs"
  by (cases xs rule: un16.cases)
    (auto simp: le16_def bit_simps bit_u8_high intro!: bit_eqI)

lemma le32_un32: "un32 xs = Some w \<Longrightarrow> le32 w = xs"
  by (cases xs rule: un32.cases)
    (auto simp: le32_def bit_simps bit_u8_high intro!: bit_eqI)

lemma read16_bytes: "read16 m k = Some w \<Longrightarrow> le16 w = take 2 (drop k m)"
  by (auto simp: read16_def mem_read_def bind_eq_Some_conv dest: le16_un16 split: if_splits)

lemma read32_bytes: "read32 m k = Some w \<Longrightarrow> le32 w = take 4 (drop k m)"
  by (auto simp: read32_def mem_read_def bind_eq_Some_conv dest: le32_un32 split: if_splits)

lemma take_chunk: "take n (drop k m) @ take j (drop (k + n) m) = take (n + j) (drop k m)"
  by (simp add: take_add add.commute [of k] flip: drop_drop)

end
