(* ===== verification/CLib.thy ===== *)
theory CLib
  imports Prelude "HOL-Library.Char_ord"
begin

text \<open>
  The parts of the C standard library on strings that the command line tool uses. A C string
  is the list of its characters before the terminating NUL, so the end of the list is the
  NUL the code tests for.
\<close>

definition isdigit :: "char \<Rightarrow> bool" where
  "isdigit c \<longleftrightarrow> 48 \<le> (of_char c :: nat) \<and> (of_char c :: nat) \<le> 57"

definition digit_val :: "char \<Rightarrow> int" where
  "digit_val c = int (of_char c) - 48"

definition dec_val :: "string \<Rightarrow> int" where
  "dec_val s = foldl (\<lambda>n c. 10 * n + digit_val c) 0 s"

definition is_space :: "char \<Rightarrow> bool" where
  "is_space c \<longleftrightarrow> (of_char c :: nat) \<in> {9, 10, 11, 12, 13, 32}"

abbreviation INT_MAX :: int where "INT_MAX \<equiv> 2147483647"
abbreviation INT_MIN :: int where "INT_MIN \<equiv> - 2147483648"

text \<open>
  atoi: white space, a sign, the longest run of digits. Out of range the C standard leaves
  the result open; the Microsoft library returns the nearest int, which is what is used here.
\<close>

definition atoi_digits :: "string \<Rightarrow> int" where
  "atoi_digits s = dec_val (takeWhile isdigit s)"

definition c_atoi :: "string \<Rightarrow> int" where
  "c_atoi s = (let t = dropWhile is_space s in
     case t of
       [] \<Rightarrow> 0
     | c # cs \<Rightarrow>
         if c = CHR ''-'' then max INT_MIN (- atoi_digits cs)
         else if c = CHR ''+'' then min INT_MAX (atoi_digits cs)
         else min INT_MAX (atoi_digits t))"

lemma digit_val_range: "isdigit c \<Longrightarrow> 0 \<le> digit_val c \<and> digit_val c \<le> 9"
  by (auto simp: isdigit_def digit_val_def)

lemma isdigit_not_space: "isdigit c \<Longrightarrow> \<not> is_space c"
  by (auto simp: isdigit_def is_space_def)

lemma isdigit_not_sign:
  "isdigit c \<Longrightarrow> c \<noteq> CHR ''-''" "isdigit c \<Longrightarrow> c \<noteq> CHR ''+''" "isdigit c \<Longrightarrow> c \<noteq> CHR '',''"
  by (auto simp: isdigit_def)

lemma foldl_digits_nonneg:
  "0 \<le> n \<Longrightarrow> \<forall>c\<in>set s. isdigit c \<Longrightarrow> 0 \<le> foldl (\<lambda>n c. 10 * n + digit_val c) n s"
  by (induction s arbitrary: n) (auto dest: digit_val_range)

lemma dec_val_nonneg: "\<forall>c\<in>set s. isdigit c \<Longrightarrow> 0 \<le> dec_val s"
  by (simp add: dec_val_def foldl_digits_nonneg)

lemma atoi_on_digit:
  "isdigit c \<Longrightarrow> c_atoi (c # cs) = min INT_MAX (dec_val (c # takeWhile isdigit cs))"
  by (simp add: c_atoi_def atoi_digits_def isdigit_not_space isdigit_not_sign)

section \<open>Printing numbers\<close>

text \<open>The conversion %u of a number that is not negative.\<close>

definition digit :: "nat \<Rightarrow> char" where
  "digit k = char_of (48 + k)"

fun dec :: "nat \<Rightarrow> string" where
  "dec n = (if n < 10 then [digit n] else dec (n div 10) @ [digit (n mod 10)])"

declare dec.simps [simp del]

lemma digit_ok: "k < 10 \<Longrightarrow> isdigit (digit k) \<and> digit_val (digit k) = int k"
  by (simp add: digit_def isdigit_def digit_val_def)

lemma dec_nonempty [simp]: "dec n \<noteq> []"
  by (subst dec.simps) simp

lemma dec_digits: "\<forall>c\<in>set (dec n). isdigit c"
proof (induction n rule: dec.induct)
  case (1 n)
  then show ?case
    by (cases "n < 10") (auto simp: dec.simps [of n] digit_ok)
qed

lemma dec_val_snoc: "dec_val (s @ [c]) = 10 * dec_val s + digit_val c"
  by (simp add: dec_val_def)

lemma dec_val_dec [simp]: "dec_val (dec n) = int n"
proof (induction n rule: dec.induct)
  case (1 n)
  show ?case
  proof (cases "n < 10")
    case True
    then show ?thesis by (simp add: dec.simps [of n] dec_val_def digit_ok)
  next
    case False
    then have "dec_val (dec n) = 10 * int (n div 10) + int (n mod 10)"
      using 1 by (simp add: dec.simps [of n] dec_val_snoc digit_ok)
    also have "\<dots> = int n" by (simp add: zdiv_int zmod_int)
    finally show ?thesis by simp
  qed
qed

lemma length_dec: "n < 10 ^ Suc k \<Longrightarrow> length (dec n) \<le> Suc k"
proof (induction k arbitrary: n)
  case 0
  then show ?case by (simp add: dec.simps [of n])
next
  case (Suc k)
  show ?case
  proof (cases "n < 10")
    case False
    have "n div 10 < 10 ^ Suc k" using Suc.prems by (simp add: less_mult_imp_div_less mult.commute)
    then show ?thesis using False Suc.IH [of "n div 10"] by (simp add: dec.simps [of n])
  qed (simp add: dec.simps [of n])
qed

end
