(* ===== verification/AddressFilter.thy ===== *)
theory AddressFilter
  imports CLib
begin

text \<open>
  The device address filter (include/USBPcap.h): one bit per USB address 0 to 127 in four
  32-bit words, and a flag that captures everything. The driver
  (USBPcapHelperFunctions.c) and the command line tool (iocontrol.c) each have their own
  copy of the operations, and both are modelled; the tool also parses an address list.
\<close>

section \<open>Data and the driver's operations\<close>

record address_filter =
  addresses :: "u32 list"
  filterAll :: u8

definition filter_zero :: address_filter where
  "filter_zero = \<lparr>addresses = [0, 0, 0, 0], filterAll = 0\<rparr>"

definition USBPcapGetAddressRangeAndIndex :: "int \<Rightarrow> (u8 \<times> u8) option" where
  "USBPcapGetAddressRangeAndIndex address =
     (if address < 0 \<or> address > 127 then None
      else Some (word_of_int (address div 32), word_of_int (address mod 32)))"

definition USBPcapIsDeviceFiltered :: "address_filter \<Rightarrow> int \<Rightarrow> bool" where
  "USBPcapIsDeviceFiltered flt address =
     (if filterAll flt = 1 then True
      else case USBPcapGetAddressRangeAndIndex address of
             None \<Rightarrow> True
           | Some (rng, idx) \<Rightarrow>
               addresses flt ! unat rng AND push_bit (unat idx) 1 \<noteq> 0)"

definition USBPcapSetDeviceFiltered :: "address_filter \<Rightarrow> int \<Rightarrow> address_filter \<times> bool" where
  "USBPcapSetDeviceFiltered flt address =
     (case USBPcapGetAddressRangeAndIndex address of
        None \<Rightarrow> (flt, False)
      | Some (rng, idx) \<Rightarrow>
          (flt\<lparr>addresses := (addresses flt)
             [unat rng := addresses flt ! unat rng OR push_bit (unat idx) 1]\<rparr>, True))"

section \<open>The command line tool's operations\<close>

definition cmd_USBPcapGetAddressRangeAndIndex :: "int \<Rightarrow> (u8 \<times> u8) option" where
  "cmd_USBPcapGetAddressRangeAndIndex address =
     (if address < 0 \<or> address > 127 then None
      else Some (word_of_int (address div 32), word_of_int (address mod 32)))"

definition cmd_USBPcapIsDeviceFiltered :: "address_filter \<Rightarrow> int \<Rightarrow> bool" where
  "cmd_USBPcapIsDeviceFiltered flt address =
     (if filterAll flt = 1 then True
      else case cmd_USBPcapGetAddressRangeAndIndex address of
             None \<Rightarrow> True
           | Some (rng, idx) \<Rightarrow>
               addresses flt ! unat rng AND push_bit (unat idx) 1 \<noteq> 0)"

definition cmd_USBPcapSetDeviceFiltered :: "address_filter \<Rightarrow> int \<Rightarrow> address_filter \<times> bool" where
  "cmd_USBPcapSetDeviceFiltered flt address =
     (case cmd_USBPcapGetAddressRangeAndIndex address of
        None \<Rightarrow> (flt, False)
      | Some (rng, idx) \<Rightarrow>
          (flt\<lparr>addresses := (addresses flt)
             [unat rng := addresses flt ! unat rng OR push_bit (unat idx) 1]\<rparr>, True))"

text \<open>
  The parsing loop of USBPcapInitAddressFilter; None is the early return FALSE. The inner
  do-while skips the first digit and then every further digit.
\<close>

function init_address_loop :: "address_filter \<Rightarrow> string \<Rightarrow> address_filter option" where
  "init_address_loop tmp [] = Some tmp"
| "init_address_loop tmp (c # cs) =
     (if isdigit c then
        (case cmd_USBPcapSetDeviceFiltered tmp (c_atoi (c # cs)) of
           (_, False) \<Rightarrow> None
         | (tmp', True) \<Rightarrow> init_address_loop tmp' (dropWhile isdigit cs))
      else if c = CHR '','' then init_address_loop tmp cs
      else None)"
  by pat_completeness auto
termination
  by (relation "measure (\<lambda>(tmp, s). length s)")
     (auto simp: le_imp_less_Suc length_dropWhile_le)

definition USBPcapInitAddressFilter ::
  "address_filter option \<Rightarrow> string option \<Rightarrow> u8 \<Rightarrow> address_filter option \<times> bool" where
  "USBPcapInitAddressFilter flt list fa =
     (case flt of
        None \<Rightarrow> (None, False)
      | Some f \<Rightarrow>
          let tmp = filter_zero\<lparr>filterAll := fa\<rparr> in
          case (case list of None \<Rightarrow> Some tmp | Some s \<Rightarrow> init_address_loop tmp s) of
            None \<Rightarrow> (flt, False)
          | Some tmp' \<Rightarrow> (Some tmp', True))"

section \<open>The contract of the filter operations\<close>

text \<open>
  What a client relies on, whichever of the two copies it calls: an address that was set is
  captured, setting one address changes no other, and an address outside 0 to 127 is never
  set and always captured.
\<close>

definition filter_wf :: "address_filter \<Rightarrow> bool" where
  "filter_wf f \<longleftrightarrow> length (addresses f) = 4"

locale filter_ops =
  fixes is_filtered :: "address_filter \<Rightarrow> int \<Rightarrow> bool"
    and set_filtered :: "address_filter \<Rightarrow> int \<Rightarrow> address_filter \<times> bool"
  assumes set_ok: "snd (set_filtered f a) \<longleftrightarrow> 0 \<le> a \<and> a \<le> 127"
    and set_wf: "filter_wf f \<Longrightarrow> filter_wf (fst (set_filtered f a))"
    and set_all: "filterAll (fst (set_filtered f a)) = filterAll f"
    and invalid_filtered: "\<not> (0 \<le> b \<and> b \<le> 127) \<Longrightarrow> is_filtered f b"
    and set_same: "filter_wf f \<Longrightarrow> is_filtered (fst (set_filtered f a)) a"
    and set_other: "filter_wf f \<Longrightarrow> b \<noteq> a \<Longrightarrow>
      is_filtered (fst (set_filtered f a)) b = is_filtered f b"
begin

lemma is_filtered_set:
  "filter_wf f \<Longrightarrow> is_filtered (fst (set_filtered f a)) b = (b = a \<or> is_filtered f b)"
  using set_same set_other by (cases "b = a") auto

lemma fold_wf: "filter_wf f \<Longrightarrow> filter_wf (fold (\<lambda>a g. fst (set_filtered g a)) as f)"
  by (induction as arbitrary: f) (auto simp: set_wf)

lemma fold_all: "filterAll (fold (\<lambda>a g. fst (set_filtered g a)) as f) = filterAll f"
  by (induction as arbitrary: f) (auto simp: set_all)

lemma fold_is_filtered:
  "filter_wf f \<Longrightarrow>
   is_filtered (fold (\<lambda>a g. fst (set_filtered g a)) as f) b \<longleftrightarrow> b \<in> set as \<or> is_filtered f b"
  by (induction as arbitrary: f) (auto simp: is_filtered_set set_wf)

end

lemma unat_small_byte:
  "0 \<le> k \<Longrightarrow> k < 256 \<Longrightarrow> unat (word_of_int k :: u8) = nat k"
  by (simp add: unsigned_of_int take_bit_int_eq_self)

lemma range_index_cases:
  "USBPcapGetAddressRangeAndIndex a =
     (if 0 \<le> a \<and> a \<le> 127 then Some (word_of_int (a div 32), word_of_int (a mod 32)) else None)"
  by (auto simp: USBPcapGetAddressRangeAndIndex_def)

lemma unat_range: "0 \<le> a \<Longrightarrow> a \<le> 127 \<Longrightarrow> unat (word_of_int (a div 32) :: u8) = nat a div 32"
  by (subst unat_small_byte) (auto simp: nat_div_distrib)

lemma unat_index: "0 \<le> a \<Longrightarrow> unat (word_of_int (a mod 32) :: u8) = nat a mod 32"
  by (subst unat_small_byte) (auto simp: nat_mod_distrib intro: order.strict_trans [OF pos_mod_bound])

lemma IsDeviceFiltered_bit:
  "USBPcapIsDeviceFiltered f a \<longleftrightarrow>
     filterAll f = 1 \<or> \<not> (0 \<le> a \<and> a \<le> 127) \<or>
     bit (addresses f ! (nat a div 32)) (nat a mod 32)"
  by (auto simp: USBPcapIsDeviceFiltered_def range_index_cases unat_range unat_index
      bit_iff_and_push_bit_not_eq_0)

lemma SetDeviceFiltered_eq:
  "USBPcapSetDeviceFiltered f a =
     (if 0 \<le> a \<and> a \<le> 127
      then (f\<lparr>addresses := (addresses f)
              [nat a div 32 := addresses f ! (nat a div 32) OR push_bit (nat a mod 32) 1]\<rparr>, True)
      else (f, False))"
  by (auto simp: USBPcapSetDeviceFiltered_def range_index_cases unat_range unat_index)

lemma div_mod_split: "0 \<le> a \<Longrightarrow> 0 \<le> b \<Longrightarrow> b \<noteq> a \<Longrightarrow> nat a div 32 = nat b div 32 \<Longrightarrow>
   nat a mod 32 \<noteq> nat b mod 32"
  by (metis div_mult_mod_eq eq_nat_nat_iff)

interpretation drv: filter_ops USBPcapIsDeviceFiltered USBPcapSetDeviceFiltered
proof unfold_locales
  fix f a b
  show "snd (USBPcapSetDeviceFiltered f a) \<longleftrightarrow> 0 \<le> a \<and> a \<le> 127"
    by (simp add: SetDeviceFiltered_eq)
  show "filter_wf f \<Longrightarrow> filter_wf (fst (USBPcapSetDeviceFiltered f a))"
    by (simp add: SetDeviceFiltered_eq filter_wf_def)
  show "filterAll (fst (USBPcapSetDeviceFiltered f a)) = filterAll f"
    by (simp add: SetDeviceFiltered_eq)
  show "\<not> (0 \<le> b \<and> b \<le> 127) \<Longrightarrow> USBPcapIsDeviceFiltered f b"
    by (simp add: IsDeviceFiltered_bit)
  show "filter_wf f \<Longrightarrow> USBPcapIsDeviceFiltered (fst (USBPcapSetDeviceFiltered f a)) a"
    by (auto simp: SetDeviceFiltered_eq IsDeviceFiltered_bit filter_wf_def bit_simps)
  show "filter_wf f \<Longrightarrow> b \<noteq> a \<Longrightarrow>
      USBPcapIsDeviceFiltered (fst (USBPcapSetDeviceFiltered f a)) b = USBPcapIsDeviceFiltered f b"
    using div_mod_split [of a b]
    by (cases "nat a div 32 = nat b div 32")
       (auto simp: SetDeviceFiltered_eq IsDeviceFiltered_bit filter_wf_def bit_simps)
qed

lemma cmd_filter_ops_eq:
  "cmd_USBPcapIsDeviceFiltered = USBPcapIsDeviceFiltered"
  "cmd_USBPcapSetDeviceFiltered = USBPcapSetDeviceFiltered"
  by (intro ext, simp add: cmd_USBPcapIsDeviceFiltered_def USBPcapIsDeviceFiltered_def
      cmd_USBPcapSetDeviceFiltered_def USBPcapSetDeviceFiltered_def
      cmd_USBPcapGetAddressRangeAndIndex_def USBPcapGetAddressRangeAndIndex_def)+

interpretation cmd: filter_ops cmd_USBPcapIsDeviceFiltered cmd_USBPcapSetDeviceFiltered
  unfolding cmd_filter_ops_eq by (rule drv.filter_ops_axioms)

section \<open>The address list of the command line\<close>

text \<open>
  The specification of the list syntax: fields separated by commas, each empty or a decimal
  number of at most 127.
\<close>

fun comma_tokens :: "string \<Rightarrow> string list" where
  "comma_tokens [] = [[]]"
| "comma_tokens (c # cs) =
     (if c = CHR '','' then [] # comma_tokens cs
      else case comma_tokens cs of [] \<Rightarrow> [[c]] | t # ts \<Rightarrow> (c # t) # ts)"

definition valid_token :: "string \<Rightarrow> bool" where
  "valid_token t \<longleftrightarrow> (\<forall>c\<in>set t. isdigit c) \<and> dec_val t \<le> 127"

definition valid_address_list :: "string \<Rightarrow> bool" where
  "valid_address_list s \<longleftrightarrow> (\<forall>t\<in>set (comma_tokens s). valid_token t)"

definition listed_addresses :: "string \<Rightarrow> int list" where
  "listed_addresses s = map dec_val (filter (\<lambda>t. t \<noteq> []) (comma_tokens s))"

lemma comma_tokens_nonempty: "comma_tokens s \<noteq> []"
  by (induction s) (auto split: list.splits)

lemma comma_tokens_append:
  "CHR '','' \<notin> set ds \<Longrightarrow> comma_tokens rest = t # ts \<Longrightarrow>
   comma_tokens (ds @ rest) = (ds @ t) # ts"
  by (induction ds) auto

lemma comma_tokens_hd_other:
  "c \<noteq> CHR '','' \<Longrightarrow> \<exists>t ts. comma_tokens (c # cs) = (c # t) # ts"
  by (auto split: list.splits)

lemma valid_token_Nil [simp]: "valid_token []"
  by (simp add: valid_token_def dec_val_def)

lemma tokens_after_digits:
  assumes "\<forall>c\<in>set ds. isdigit c" "rest = [] \<or> \<not> isdigit (hd rest)"
  obtains ts where "comma_tokens rest = [] # ts" "comma_tokens (ds @ rest) = ds # ts"
  | x t ts where "comma_tokens rest = (x # t) # ts" "\<not> isdigit x"
      "comma_tokens (ds @ rest) = (ds @ x # t) # ts"
proof -
  have nocomma: "CHR '','' \<notin> set ds"
    using assms(1) isdigit_not_sign(3) by blast
  show thesis
  proof (cases rest)
    case Nil
    then show thesis using that(1) comma_tokens_append [OF nocomma, of rest] by simp
  next
    case (Cons x r)
    show thesis
    proof (cases "x = CHR '',''")
      case True
      then show thesis
        using that(1) comma_tokens_append [OF nocomma, of rest] Cons by simp
    next
      case False
      then obtain t ts where "comma_tokens rest = (x # t) # ts"
        using comma_tokens_hd_other Cons by blast
      then show thesis
        using that(2) comma_tokens_append [OF nocomma, of rest] assms(2) Cons by simp
    qed
  qed
qed

lemma init_address_loop_spec:
  "init_address_loop tmp s =
     (if \<forall>t\<in>set (comma_tokens s). valid_token t
      then Some (fold (\<lambda>a g. fst (cmd_USBPcapSetDeviceFiltered g a)) (listed_addresses s) tmp)
      else None)"
proof (induction tmp s rule: init_address_loop.induct)
  case (1 tmp)
  then show ?case by (simp add: listed_addresses_def)
next
  case (2 tmp c cs)
  show ?case
  proof (cases "isdigit c")
    case False
    show ?thesis
    proof (cases "c = CHR '',''")
      case True
      with 2(2) False show ?thesis by (simp add: listed_addresses_def)
    next
      case other: False
      then show ?thesis
        using False comma_tokens_hd_other [of c cs] by (auto simp: valid_token_def)
    qed
  next
    case True
    define ds where "ds = c # takeWhile isdigit cs"
    define rest where "rest = dropWhile isdigit cs"
    have digits: "\<forall>x\<in>set ds. isdigit x"
      using True by (auto simp: ds_def dest: set_takeWhileD)
    have rest: "rest = [] \<or> \<not> isdigit (hd rest)"
      using hd_dropWhile [of isdigit cs] by (auto simp: rest_def simp del: dropWhile_eq_Nil_conv)
    have split: "c # cs = ds @ rest" by (simp add: ds_def rest_def)
    have nonneg: "0 \<le> dec_val ds" using digits by (rule dec_val_nonneg)
    have num: "c_atoi (c # cs) = min INT_MAX (dec_val ds)"
      using True by (simp add: atoi_on_digit ds_def)
    have ok: "snd (cmd_USBPcapSetDeviceFiltered tmp (min INT_MAX (dec_val ds)))
        \<longleftrightarrow> dec_val ds \<le> 127"
      using nonneg by (auto simp: cmd.set_ok min_def)
    have step: "init_address_loop tmp (c # cs) =
        (if dec_val ds \<le> 127
         then init_address_loop (fst (cmd_USBPcapSetDeviceFiltered tmp (dec_val ds))) rest
         else None)"
      using True ok by (auto simp: num rest_def min_def split: prod.splits bool.splits)
    have IH: "init_address_loop (fst (cmd_USBPcapSetDeviceFiltered tmp (dec_val ds))) rest =
        (if \<forall>t\<in>set (comma_tokens rest). valid_token t
         then Some (fold (\<lambda>a g. fst (cmd_USBPcapSetDeviceFiltered g a)) (listed_addresses rest)
                (fst (cmd_USBPcapSetDeviceFiltered tmp (dec_val ds))))
         else None)" if "dec_val ds \<le> 127"
    proof -
      have "snd (cmd_USBPcapSetDeviceFiltered tmp (dec_val ds))"
        using that nonneg by (simp add: cmd.set_ok)
      then have *: "(fst (cmd_USBPcapSetDeviceFiltered tmp (dec_val ds)), True)
          = cmd_USBPcapSetDeviceFiltered tmp (c_atoi (c # cs))"
        using that by (simp add: num prod_eq_iff)
      show ?thesis
        using 2(1) [OF True * refl] by (simp add: rest_def)
    qed
    from digits rest show ?thesis
    proof (cases rule: tokens_after_digits)
      case (1 ts)
      have "valid_token ds \<longleftrightarrow> dec_val ds \<le> 127"
        using digits by (simp add: valid_token_def)
      with 1 show ?thesis
        using step IH by (auto simp: split listed_addresses_def ds_def)
    next
      case (2 x t ts)
      then have "\<not> valid_token (x # t)" "\<not> valid_token (ds @ x # t)"
        by (auto simp: valid_token_def)
      with 2 show ?thesis
        using step IH by (auto simp: split)
    qed
  qed
qed

lemma InitAddressFilter_correct:
  "\<exists>f'. USBPcapInitAddressFilter (Some f) (Some s) fa =
          (if valid_address_list s then (Some f', True) else (Some f, False)) \<and>
        filter_wf f' \<and> filterAll f' = fa \<and>
        {a \<in> {0..127}. cmd_USBPcapIsDeviceFiltered f' a} =
          (if fa = 1 then {0..127} else set (listed_addresses s) \<inter> {0..127})"
proof -
  define z where "z = filter_zero\<lparr>filterAll := fa\<rparr>"
  define f' where "f' = fold (\<lambda>a g. fst (cmd_USBPcapSetDeviceFiltered g a)) (listed_addresses s) z"
  have wfz: "filter_wf z" and allz: "filterAll z = fa"
    by (simp_all add: z_def filter_wf_def filter_zero_def)
  have bits: "addresses z ! n = 0" if "n < 4" for n
    using that by (auto simp: z_def filter_zero_def less_Suc_eq numeral_eq_Suc)
  have z: "cmd_USBPcapIsDeviceFiltered z a \<longleftrightarrow> fa = 1" if "0 \<le> a" "a \<le> 127" for a
    using that bits [of "nat a div 32"]
    by (simp add: cmd_filter_ops_eq IsDeviceFiltered_bit allz)
  have "{a \<in> {0..127}. cmd_USBPcapIsDeviceFiltered f' a} =
      (if fa = 1 then {0..127} else set (listed_addresses s) \<inter> {0..127})"
    using z wfz by (auto simp: f'_def cmd.fold_is_filtered)
  moreover have "filter_wf f'" "filterAll f' = fa"
    using wfz by (simp_all add: f'_def cmd.fold_wf cmd.fold_all allz)
  moreover have "USBPcapInitAddressFilter (Some f) (Some s) fa =
      (if valid_address_list s then (Some f', True) else (Some f, False))"
    by (simp add: USBPcapInitAddressFilter_def init_address_loop_spec Let_def f'_def z_def
        valid_address_list_def)
  ultimately show ?thesis by blast
qed

text \<open>
  The tool's address list parser accepts exactly the lists of decimal addresses up to
  127 separated by commas (empty fields allowed), and the filter it returns captures exactly
  the listed addresses, plus everything when the capture-all flag is given. On any other list
  it reports failure and leaves the caller's filter as it was.
\<close>

theorem init_address_filter_correct:
  "\<exists>f'. USBPcapInitAddressFilter (Some f) (Some s) fa =
          (if valid_address_list s then (Some f', True) else (Some f, False)) \<and>
        filter_wf f' \<and> filterAll f' = fa \<and>
        {a \<in> {0..127}. cmd_USBPcapIsDeviceFiltered f' a} =
          (if fa = 1 then {0..127} else set (listed_addresses s) \<inter> {0..127})"
  by (rule InitAddressFilter_correct)

end
