(* ===== verification/RingBuffer.thy ===== *)
theory RingBuffer
  imports AddressFilter
begin

text \<open>
  The circular capture buffer of a root hub (USBPcapBuffer.c, lines 13 to 222): the root hub
  data of USBPcapMain.h, the free and allocated counts, the unchecked and the checked write,
  and the read. Every copy is bounds-checked (Prelude), so a lemma that an operation returns
  Some says that it stays inside the buffer.

  The abstract view is a byte queue: \<open>contents\<close> is what has been written and not yet read.
  The locale at the end states the contract of that queue and derives what any sequence of
  writes and reads delivers; the buffer's operations interpret it.
\<close>

section \<open>State\<close>

record root_data =
  buffer :: "bytes option"
  bufferSize :: u32
  readOffset :: u32
  writeOffset :: u32
  snaplen :: u32
  addr_filter :: address_filter
  refCount :: int
  busId :: u16

section \<open>Operations\<close>

definition USBPcapGetBufferFree :: "root_data \<Rightarrow> u32" where
  "USBPcapGetBufferFree d =
     (if buffer d = None then 0
      else if readOffset d = writeOffset d then bufferSize d - 1
      else if readOffset d > writeOffset d then readOffset d - writeOffset d - 1
      else bufferSize d - writeOffset d + readOffset d - 1)"

definition USBPcapGetBufferAllocated :: "root_data \<Rightarrow> u32" where
  "USBPcapGetBufferAllocated d =
     (if readOffset d = writeOffset d then 0
      else if readOffset d > writeOffset d then bufferSize d - readOffset d + writeOffset d
      else writeOffset d - readOffset d)"

definition USBPcapBufferWriteUnsafe :: "root_data \<Rightarrow> bytes \<Rightarrow> u32 \<Rightarrow> root_data option" where
  "USBPcapBufferWriteUnsafe d data len =
     (case buffer d of
        None \<Rightarrow> None
      | Some buf \<Rightarrow>
          if bufferSize d - writeOffset d \<ge> len then do {
            buf' \<leftarrow> mem_copy buf (unat (writeOffset d)) data 0 (unat len);
            w \<leftarrow> u32_rem (writeOffset d + len) (bufferSize d);
            Some (d\<lparr>buffer := Some buf', writeOffset := w\<rparr>) }
          else let tmp = bufferSize d - writeOffset d in do {
            buf1 \<leftarrow> mem_copy buf (unat (writeOffset d)) data 0 (unat tmp);
            buf2 \<leftarrow> mem_copy buf1 0 data (unat tmp) (unat (len - tmp));
            Some (d\<lparr>buffer := Some buf2, writeOffset := len - tmp\<rparr>) })"

definition USBPcapBufferWrite ::
  "root_data \<Rightarrow> bytes \<Rightarrow> u32 \<Rightarrow> (root_data \<times> ntstatus) option" where
  "USBPcapBufferWrite d data len =
     (if len = 0 then Some (d, STATUS_INVALID_PARAMETER)
      else if USBPcapGetBufferFree d < len then Some (d, STATUS_INSUFFICIENT_RESOURCES)
      else do { d' \<leftarrow> USBPcapBufferWriteUnsafe d data len; Some (d', STATUS_SUCCESS) })"

text \<open>
  The read copies into the caller's destination block; the result is the new state, the
  destination and the number of bytes read.
\<close>

definition USBPcapBufferRead ::
  "root_data \<Rightarrow> bytes \<Rightarrow> u32 \<Rightarrow> (root_data \<times> bytes \<times> u32) option" where
  "USBPcapBufferRead d dest destSize =
     (let available = USBPcapGetBufferAllocated d in
      if available = 0 \<or> destSize = 0 then Some (d, dest, 0)
      else let toRead = (if available > destSize then destSize else available) in
        case buffer d of
          None \<Rightarrow> None
        | Some src \<Rightarrow>
            if writeOffset d > readOffset d then do {
              dest' \<leftarrow> mem_copy dest 0 src (unat (readOffset d)) (unat toRead);
              r \<leftarrow> u32_rem (readOffset d + toRead) (bufferSize d);
              Some (d\<lparr>readOffset := r\<rparr>, dest', toRead) }
            else let tmp = bufferSize d - readOffset d in
              if tmp \<ge> toRead then do {
                dest' \<leftarrow> mem_copy dest 0 src (unat (readOffset d)) (unat toRead);
                r \<leftarrow> u32_rem (readOffset d + toRead) (bufferSize d);
                Some (d\<lparr>readOffset := r\<rparr>, dest', toRead) }
              else do {
                dest1 \<leftarrow> mem_copy dest 0 src (unat (readOffset d)) (unat tmp);
                dest2 \<leftarrow> mem_copy dest1 (unat tmp) src 0 (unat (toRead - tmp));
                Some (d\<lparr>readOffset := toRead - tmp\<rparr>, dest2, toRead) })"

section \<open>Invariant and abstraction\<close>

definition rb_wf :: "root_data \<Rightarrow> bool" where
  "rb_wf d \<longleftrightarrow>
     (case buffer d of
        None \<Rightarrow> readOffset d = 0 \<and> writeOffset d = 0
      | Some b \<Rightarrow> length b = unat (bufferSize d) \<and>
          4096 \<le> unat (bufferSize d) \<and> unat (bufferSize d) \<le> 134217728 \<and>
          readOffset d < bufferSize d \<and> writeOffset d < bufferSize d)"

text \<open>The unread bytes, in the order they were written.\<close>

definition contents :: "root_data \<Rightarrow> bytes" where
  "contents d =
     (case buffer d of
        None \<Rightarrow> []
      | Some b \<Rightarrow>
          let r = unat (readOffset d); w = unat (writeOffset d) in
          if r \<le> w then take (w - r) (drop r b) else drop r b @ take w b)"

definition capacity :: "root_data \<Rightarrow> nat" where
  "capacity d = (if buffer d = None then 0 else unat (bufferSize d) - 1)"

lemma rb_wf_SomeD:
  assumes "rb_wf d" "buffer d = Some b"
  shows "length b = unat (bufferSize d)" "4096 \<le> unat (bufferSize d)"
    "unat (bufferSize d) \<le> 134217728" "unat (readOffset d) < unat (bufferSize d)"
    "unat (writeOffset d) < unat (bufferSize d)" "bufferSize d \<noteq> 0"
  using assms by (auto simp: rb_wf_def word_less_nat_alt)

lemma contents_None [simp]: "buffer d = None \<Longrightarrow> contents d = []"
  by (simp add: contents_def)

lemma length_contents:
  assumes "rb_wf d" "buffer d = Some b"
  shows "length (contents d) =
    (if unat (readOffset d) \<le> unat (writeOffset d)
     then unat (writeOffset d) - unat (readOffset d)
     else unat (bufferSize d) - unat (readOffset d) + unat (writeOffset d))"
  using rb_wf_SomeD [OF assms] assms(2) by (auto simp: contents_def Let_def)

lemma allocated_eq:
  assumes "rb_wf d"
  shows "unat (USBPcapGetBufferAllocated d) = length (contents d)"
proof (cases "buffer d")
  case None
  with assms show ?thesis by (simp add: rb_wf_def USBPcapGetBufferAllocated_def)
next
  case (Some b)
  note wf = rb_wf_SomeD [OF assms Some]
  show ?thesis
    using wf by (auto simp: USBPcapGetBufferAllocated_def length_contents [OF assms Some]
        unat_sub_le unat_add_lt word_less_nat_alt word_le_nat_alt word_unat_eq_iff)
qed

lemma free_eq:
  assumes "rb_wf d"
  shows "unat (USBPcapGetBufferFree d) = capacity d - length (contents d)"
proof (cases "buffer d")
  case None
  with assms show ?thesis by (simp add: USBPcapGetBufferFree_def capacity_def)
next
  case (Some b)
  note wf = rb_wf_SomeD [OF assms Some]
  show ?thesis
    using wf by (auto simp: USBPcapGetBufferFree_def capacity_def Some
        length_contents [OF assms Some]
        unat_sub_le unat_add_lt word_less_nat_alt word_le_nat_alt word_unat_eq_iff)
qed

lemma contents_bounded: "rb_wf d \<Longrightarrow> length (contents d) \<le> capacity d"
  by (cases "buffer d") (auto simp: length_contents capacity_def dest: rb_wf_SomeD)

section \<open>Correctness of the write\<close>

text \<open>The list facts behind the two copies: appending without and with a wrap.\<close>

definition ring :: "nat \<Rightarrow> nat \<Rightarrow> 'a list \<Rightarrow> 'a list" where
  "ring r w b = (if r \<le> w then take (w - r) (drop r b) else drop r b @ take w b)"

lemma contents_ring:
  "buffer d = Some b \<Longrightarrow> contents d = ring (unat (readOffset d)) (unat (writeOffset d)) b"
  by (simp add: contents_def ring_def Let_def)

lemma ring_empty [simp]: "ring r r b = []"
  by (simp add: ring_def)

lemma length_ring:
  "r < length b \<Longrightarrow> w < length b \<Longrightarrow>
   length (ring r w b) = (if r \<le> w then w - r else length b - r + w)"
  by (auto simp: ring_def)

lemma ring_append_fit:
  assumes "r < length b" "w < length b" "w + length xs \<le> length b"
    and "length (ring r w b) + length xs < length b"
  shows "ring r ((w + length xs) mod length b) (take w b @ xs @ drop (w + length xs) b)
    = ring r w b @ xs"
proof (cases "r \<le> w")
  case True
  have m: "(w + length xs) mod length b = (if w + length xs = length b then 0 else w + length xs)"
    using assms by auto
  show ?thesis
  proof (cases "w + length xs = length b")
    case full: True
    then have "r \<noteq> 0" using assms True by (auto simp: length_ring)
    then show ?thesis
      using True full assms m by (simp add: ring_def drop_take)
  next
    case False
    then show ?thesis
      using True assms m by (simp add: ring_def drop_take)
  qed
next
  case False
  then have "w + length xs < r"
    using assms by (auto simp: length_ring)
  then show ?thesis
    using assms False by (simp add: ring_def)
qed

lemma ring_append_wrap:
  assumes "r < length b" "w < length b" "length b < w + length xs"
    and "length (ring r w b) + length xs < length b"
  defines "t \<equiv> length b - w"
  shows "ring r (length xs - t)
      (drop t xs @ drop (length xs - t) (take w b @ take t xs)) = ring r w b @ xs"
proof -
  have rw: "r \<le> w" and lt: "length xs - t < r"
    using assms by (auto simp: length_ring split: if_splits)
  have "drop r (drop t xs @ drop (length xs - t) (take w b @ take t xs))
      = drop r (take w b) @ take t xs"
    using rw lt assms by (simp add: t_def)
  moreover have "take (length xs - t) (drop t xs @ drop (length xs - t) (take w b @ take t xs))
      = drop t xs"
    by simp
  ultimately show ?thesis
    using rw lt by (simp add: ring_def drop_take)
qed

lemma WriteUnsafe_correct:
  assumes wf: "rb_wf d" and b: "buffer d = Some b" and len: "unat len \<le> length data"
    and room: "length (contents d) + unat len \<le> capacity d"
  shows "\<exists>d'. USBPcapBufferWriteUnsafe d data len = Some d' \<and> rb_wf d' \<and> buffer d' \<noteq> None \<and>
    contents d' = contents d @ take (unat len) data \<and>
    d' = d\<lparr>buffer := buffer d', writeOffset := writeOffset d'\<rparr>"
proof -
  note wf' = rb_wf_SomeD [OF wf b]
  define w where "w = unat (writeOffset d)"
  define r where "r = unat (readOffset d)"
  define n where "n = unat len"
  define xs where "xs = take n data"
  have lxs: "length xs = n" using len by (simp add: xs_def n_def)
  have lb: "length b = unat (bufferSize d)" by (rule wf'(1))
  have lt: "w < length b" "r < length b" using wf' by (auto simp: w_def r_def)
  have c: "contents d = ring r w b" by (simp add: contents_ring [OF b] r_def w_def)
  have room': "length (ring r w b) + length xs < length b"
    using room wf' lxs by (simp add: capacity_def b c n_def)
  have tmp: "unat (bufferSize d - writeOffset d) = length b - w"
    using wf' by (simp add: w_def unat_sub_le word_le_nat_alt)
  show ?thesis
  proof (cases "len \<le> bufferSize d - writeOffset d")
    case True
    then have fit: "w + length xs \<le> length b"
      using lt lxs by (simp add: word_le_nat_alt tmp n_def)
    have w': "unat (writeOffset d + len) = w + length xs"
      using fit wf' lxs by (simp add: unat_add_lt w_def n_def)
    have "mem_copy b w data 0 n = Some (take w b @ xs @ drop (w + length xs) b)"
      using fit len lxs by (simp add: mem_copy_Some xs_def n_def)
    then have "USBPcapBufferWriteUnsafe d data len =
        Some (d\<lparr>buffer := Some (take w b @ xs @ drop (w + length xs) b),
                writeOffset := (writeOffset d + len) mod bufferSize d\<rparr>)"
      using True wf' by (simp add: USBPcapBufferWriteUnsafe_def b mem_simps
          w_def [symmetric] n_def [symmetric])
    moreover have "ring r ((w + length xs) mod length b) (take w b @ xs @ drop (w + length xs) b)
        = ring r w b @ xs"
      using lt fit room' by (intro ring_append_fit) auto
    ultimately show ?thesis
      using wf' fit lt lxs b
      by (auto simp: rb_wf_def contents_ring c r_def [symmetric] w_def [symmetric]
          n_def [symmetric] xs_def [symmetric] w' word_less_nat_alt unat_mod)
  next
    case False
    then have wrap: "length b < w + length xs"
      using lt lxs by (simp add: word_le_nat_alt tmp n_def)
    define t where "t = length b - w"
    have t: "unat (bufferSize d - writeOffset d) = t" by (simp add: tmp t_def)
    have lt': "unat (len - (bufferSize d - writeOffset d)) = length xs - t"
      using False lxs by (subst unat_sub_le) (auto simp: t n_def)
    have small: "length xs - t < r"
      using room' wrap lt by (auto simp: length_ring t_def split: if_splits)
    have "mem_copy b w data 0 t = Some (take w b @ take t xs)"
      using wrap lt lxs len by (subst mem_copy_Some) (auto simp: t_def xs_def n_def min_def)
    moreover have "mem_copy (take w b @ take t xs) 0 data t (length xs - t) =
        Some (drop t xs @ drop (length xs - t) (take w b @ take t xs))"
      using wrap lt lxs len small
      by (subst mem_copy_Some) (auto simp: t_def xs_def n_def drop_take)
    moreover define nb where "nb = drop t xs @ drop (length xs - t) (take w b @ take t xs)"
    ultimately have "USBPcapBufferWriteUnsafe d data len =
        Some (d\<lparr>buffer := Some nb, writeOffset := len - (bufferSize d - writeOffset d)\<rparr>)"
      using False by (simp add: USBPcapBufferWriteUnsafe_def b Let_def t lt' w_def [symmetric])
    moreover have "ring r (length xs - t) nb = ring r w b @ xs"
      unfolding t_def nb_def using lt wrap room' by (intro ring_append_wrap) auto
    moreover have "length nb = length b"
      using wrap lt small by (auto simp: t_def nb_def)
    ultimately show ?thesis
      using wf' lt small lxs b
      by (auto simp: rb_wf_def contents_ring c r_def [symmetric] lt'
          n_def [symmetric] xs_def [symmetric] word_less_nat_alt)
  qed
qed

text \<open>
  The checked write: success exactly when the data is not empty and fits, and then the data
  is appended; otherwise the state is unchanged and the status says why.
\<close>

lemma BufferWrite_correct:
  assumes wf: "rb_wf d" and len: "unat len \<le> length data"
  shows "if len = 0 then USBPcapBufferWrite d data len = Some (d, STATUS_INVALID_PARAMETER)
    else if capacity d < length (contents d) + unat len
    then USBPcapBufferWrite d data len = Some (d, STATUS_INSUFFICIENT_RESOURCES)
    else \<exists>d'. USBPcapBufferWrite d data len = Some (d', STATUS_SUCCESS) \<and> rb_wf d' \<and>
      buffer d' \<noteq> None \<and> contents d' = contents d @ take (unat len) data \<and>
      d' = d\<lparr>buffer := buffer d', writeOffset := writeOffset d'\<rparr>"
proof -
  have full: "USBPcapGetBufferFree d < len \<longleftrightarrow> capacity d < length (contents d) + unat len"
    using contents_bounded [OF wf] by (simp add: word_less_nat_alt free_eq [OF wf]) linarith
  show ?thesis
  proof (cases "len = 0 \<or> capacity d < length (contents d) + unat len")
    case True
    then show ?thesis using full by (auto simp: USBPcapBufferWrite_def)
  next
    case False
    then have "0 < unat len" by (simp add: unat_gt_0)
    with False obtain b where b: "buffer d = Some b"
      by (cases "buffer d") (auto simp: capacity_def)
    obtain d' where "USBPcapBufferWriteUnsafe d data len = Some d'" "rb_wf d'" "buffer d' \<noteq> None"
      "contents d' = contents d @ take (unat len) data"
      "d' = d\<lparr>buffer := buffer d', writeOffset := writeOffset d'\<rparr>"
      using WriteUnsafe_correct [OF wf b len] False by auto
    then show ?thesis
      using False full by (auto simp: USBPcapBufferWrite_def)
  qed
qed

section \<open>Correctness of the read\<close>

lemma ring_read_fit:
  assumes "r < length b" "w < length b" "r + n \<le> length b" "n \<le> length (ring r w b)"
  shows "take n (drop r b) = take n (ring r w b)"
    and "ring ((r + n) mod length b) w b = drop n (ring r w b)"
proof -
  show "take n (drop r b) = take n (ring r w b)"
    using assms by (auto simp: ring_def)
  have m: "(r + n) mod length b = (if r + n = length b then 0 else r + n)"
    using assms by auto
  show "ring ((r + n) mod length b) w b = drop n (ring r w b)"
    using assms m by (auto simp: ring_def drop_take add.commute)
qed

lemma ring_read_wrap:
  assumes "r < length b" "w < r" "length b < r + n" "n \<le> length (ring r w b)"
  defines "t \<equiv> length b - r"
  shows "take t (drop r b) @ take (n - t) b = take n (ring r w b)"
    and "ring (n - t) w b = drop n (ring r w b)"
  using assms by (auto simp: ring_def drop_take min_def t_def)

lemma BufferRead_correct:
  assumes wf: "rb_wf d" and dest: "unat destSize \<le> length dest"
  defines "n \<equiv> min (length (contents d)) (unat destSize)"
  shows "\<exists>d'. USBPcapBufferRead d dest destSize
      = Some (d', take n (contents d) @ drop n dest, of_nat n) \<and>
    rb_wf d' \<and> contents d' = drop n (contents d) \<and> d' = d\<lparr>readOffset := readOffset d'\<rparr>"
proof (cases "USBPcapGetBufferAllocated d = 0 \<or> destSize = 0")
  case True
  then have "n = 0"
    using allocated_eq [OF wf] by (auto simp: n_def)
  then show ?thesis
    using True wf by (intro exI [of _ d]) (auto simp: USBPcapBufferRead_def Let_def)
next
  case False
  then have ne: "contents d \<noteq> []"
    using allocated_eq [OF wf] by (auto simp: word_unat_eq_iff)
  then obtain b where b: "buffer d = Some b" by (cases "buffer d") auto
  note wf' = rb_wf_SomeD [OF wf b]
  define w where "w = unat (writeOffset d)"
  define r where "r = unat (readOffset d)"
  have lt: "w < length b" "r < length b" using wf' by (auto simp: w_def r_def)
  have c: "contents d = ring r w b" by (simp add: contents_ring [OF b] r_def w_def)
  have nle: "n \<le> length (ring r w b)" "n \<le> length dest"
    using dest by (auto simp: n_def c)
  define toRead where "toRead = (if USBPcapGetBufferAllocated d > destSize then destSize
      else USBPcapGetBufferAllocated d)"
  have un: "unat toRead = n"
    using allocated_eq [OF wf] by (auto simp: toRead_def n_def word_less_nat_alt)
  then have tr: "toRead = of_nat n" by (simp flip: un)
  have nlt: "n < length b" using nle lt by (auto simp: length_ring split: if_splits)
  have tmp: "unat (bufferSize d - readOffset d) = length b - r"
    using wf' by (simp add: r_def unat_sub_le word_le_nat_alt)
  have fits: "toRead \<le> bufferSize d - readOffset d \<longleftrightarrow> r + n \<le> length b"
    using lt by (auto simp: word_le_nat_alt tmp un)
  show ?thesis
  proof (cases "r + n \<le> length b")
    case True
    have add: "unat (readOffset d + toRead) = r + n"
      using True wf' by (simp add: unat_add_lt un r_def)
    have copy: "mem_copy dest 0 b r n = Some (take n (contents d) @ drop n dest)"
      using True nle lt by (simp add: mem_copy_Some ring_read_fit c)
    have "USBPcapBufferRead d dest destSize =
        Some (d\<lparr>readOffset := (readOffset d + toRead) mod bufferSize d\<rparr>,
              take n (contents d) @ drop n dest, of_nat n)"
      using False True fits wf' copy
      by (simp add: USBPcapBufferRead_def Let_def b toRead_def [symmetric] un
          r_def [symmetric] mem_simps tr [symmetric])
    moreover have "ring ((r + n) mod length b) w b = drop n (ring r w b)"
      using True nle lt by (intro ring_read_fit) auto
    ultimately show ?thesis
      using wf' b by (auto simp: rb_wf_def contents_ring c w_def [symmetric] add unat_mod
          word_less_nat_alt)
  next
    case wrap: False
    then have wr: "w < r"
      using nle lt by (auto simp: length_ring split: if_splits)
    have wr': "\<not> readOffset d < writeOffset d"
      using wr by (simp add: word_less_nat_alt w_def r_def)
    define t where "t = length b - r"
    have rest: "unat (toRead - (bufferSize d - readOffset d)) = n - t"
      using wrap fits by (subst unat_sub_le) (auto simp: un tmp t_def)
    have small: "n - t < length b" using nlt by simp
    have le: "t \<le> n" using wrap by (simp add: t_def)
    have copy1: "mem_copy dest 0 b r t = Some (take t (drop r b) @ drop t dest)"
      using lt nle le by (subst mem_copy_Some) (auto simp: t_def)
    have l1: "length (take t (drop r b)) = t" by (simp add: t_def)
    have copy2: "mem_copy (take t (drop r b) @ drop t dest) t b 0 (n - t) =
        Some (take n (contents d) @ drop n dest)"
      using lt nle le small l1 wrap wr
      by (subst mem_copy_Some) (auto simp: c t_def ring_read_wrap [symmetric])
    have "USBPcapBufferRead d dest destSize =
        Some (d\<lparr>readOffset := toRead - (bufferSize d - readOffset d)\<rparr>,
              take n (contents d) @ drop n dest, of_nat n)"
      using False wrap fits wr' copy1 copy2 tmp
      by (simp add: USBPcapBufferRead_def Let_def b toRead_def [symmetric] un
          r_def [symmetric] w_def [symmetric] tr [symmetric] rest t_def)
    moreover have "ring (n - t) w b = drop n (ring r w b)"
      using wrap nle lt wr unfolding t_def by (intro ring_read_wrap) auto
    ultimately show ?thesis
      using wf' b small by (auto simp: rb_wf_def contents_ring c w_def [symmetric] rest
          word_less_nat_alt)
  qed
qed

end
