(* ===== verification/PacketFormat.thy ===== *)
theory PacketFormat
  imports RingBuffer "HOL-Library.Signed_Division"
begin

text \<open>
  The on-disk structures of include/USBPcap.h: the pcap file and record headers and the
  USBPcap pseudo headers, all packed and little endian. Each structure has its byte image,
  which is what the driver copies into the capture buffer and the tool into its output, and
  the file and packet headers have the reading direction that the tool uses.
\<close>

section \<open>Structures\<close>

record pcap_hdr =
  magic_number :: u32
  version_major :: u16
  version_minor :: u16
  thiszone :: u32
  sigfigs :: u32
  hdr_snaplen :: u32
  network :: u32

record pcaprec_hdr =
  ts_sec :: u32
  ts_usec :: u32
  incl_len :: u32
  orig_len :: u32

record packet_header =
  ph_headerLen :: u16
  ph_irpId :: u64
  ph_status :: u32
  ph_function :: u16
  ph_info :: u8
  ph_bus :: u16
  ph_device :: u16
  ph_endpoint :: u8
  ph_transfer :: u8
  ph_dataLength :: u32

record iso_packet =
  iso_offset :: u32
  iso_length :: u32
  iso_status :: u32

text \<open>
  A pointer to the common header may point into one of the longer structures, so the memory
  behind it is one of three shapes.
\<close>

datatype header_mem =
    PlainHeader packet_header
  | ControlHeader packet_header u8
  | IsochHeader packet_header u32 u32 u32 "iso_packet list"

abbreviation (input) DLT_USBPCAP :: u32 where "DLT_USBPCAP \<equiv> 249"
abbreviation (input) USBPCAP_TRANSFER_ISOCHRONOUS :: u8 where "USBPCAP_TRANSFER_ISOCHRONOUS \<equiv> 0"
abbreviation (input) USBPCAP_TRANSFER_INTERRUPT :: u8 where "USBPCAP_TRANSFER_INTERRUPT \<equiv> 1"
abbreviation (input) USBPCAP_TRANSFER_CONTROL :: u8 where "USBPCAP_TRANSFER_CONTROL \<equiv> 2"
abbreviation (input) USBPCAP_TRANSFER_BULK :: u8 where "USBPCAP_TRANSFER_BULK \<equiv> 3"
abbreviation (input) USBPCAP_TRANSFER_IRP_INFO :: u8 where "USBPCAP_TRANSFER_IRP_INFO \<equiv> 0xFE"
abbreviation (input) USBPCAP_TRANSFER_UNKNOWN :: u8 where "USBPCAP_TRANSFER_UNKNOWN \<equiv> 0xFF"
abbreviation (input) USBPCAP_INFO_PDO_TO_FDO :: u8 where "USBPCAP_INFO_PDO_TO_FDO \<equiv> 1"
abbreviation (input) USBPCAP_CONTROL_STAGE_SETUP :: u8 where "USBPCAP_CONTROL_STAGE_SETUP \<equiv> 0"
abbreviation (input) USBPCAP_CONTROL_STAGE_COMPLETE :: u8
  where "USBPCAP_CONTROL_STAGE_COMPLETE \<equiv> 3"

section \<open>Byte images\<close>

definition pcap_hdr_bytes :: "pcap_hdr \<Rightarrow> bytes" where
  "pcap_hdr_bytes h =
     le32 (magic_number h) @ le16 (version_major h) @ le16 (version_minor h) @
     le32 (thiszone h) @ le32 (sigfigs h) @ le32 (hdr_snaplen h) @ le32 (network h)"

definition pcaprec_hdr_bytes :: "pcaprec_hdr \<Rightarrow> bytes" where
  "pcaprec_hdr_bytes h =
     le32 (ts_sec h) @ le32 (ts_usec h) @ le32 (incl_len h) @ le32 (orig_len h)"

definition packet_header_bytes :: "packet_header \<Rightarrow> bytes" where
  "packet_header_bytes h =
     le16 (ph_headerLen h) @ le64 (ph_irpId h) @ le32 (ph_status h) @ le16 (ph_function h) @
     [ph_info h] @ le16 (ph_bus h) @ le16 (ph_device h) @ [ph_endpoint h, ph_transfer h] @
     le32 (ph_dataLength h)"

definition iso_packet_bytes :: "iso_packet \<Rightarrow> bytes" where
  "iso_packet_bytes p = le32 (iso_offset p) @ le32 (iso_length p) @ le32 (iso_status p)"

fun base_header :: "header_mem \<Rightarrow> packet_header" where
  "base_header (PlainHeader h) = h"
| "base_header (ControlHeader h _) = h"
| "base_header (IsochHeader h _ _ _ _) = h"

fun header_mem_bytes :: "header_mem \<Rightarrow> bytes" where
  "header_mem_bytes (PlainHeader h) = packet_header_bytes h"
| "header_mem_bytes (ControlHeader h stage) = packet_header_bytes h @ [stage]"
| "header_mem_bytes (IsochHeader h startFrame numberOfPackets errorCount ps) =
     packet_header_bytes h @ le32 startFrame @ le32 numberOfPackets @ le32 errorCount @
     concat (map iso_packet_bytes ps)"

section \<open>Reading\<close>

definition read_pcap_hdr :: "bytes \<Rightarrow> pcap_hdr option" where
  "read_pcap_hdr m = do {
     a \<leftarrow> read32 m 0; b \<leftarrow> read16 m 4; c \<leftarrow> read16 m 6; d \<leftarrow> read32 m 8;
     e \<leftarrow> read32 m 12; f \<leftarrow> read32 m 16; g \<leftarrow> read32 m 20;
     Some \<lparr>magic_number = a, version_major = b, version_minor = c, thiszone = d, sigfigs = e,
           hdr_snaplen = f, network = g\<rparr> }"

definition read_pcaprec_hdr :: "bytes \<Rightarrow> pcaprec_hdr option" where
  "read_pcaprec_hdr m = do {
     a \<leftarrow> read32 m 0; b \<leftarrow> read32 m 4; c \<leftarrow> read32 m 8; d \<leftarrow> read32 m 12;
     Some \<lparr>ts_sec = a, ts_usec = b, incl_len = c, orig_len = d\<rparr> }"

definition read_packet_header :: "bytes \<Rightarrow> packet_header option" where
  "read_packet_header m = do {
     hl \<leftarrow> read16 m 0; irp \<leftarrow> read64 m 2; st \<leftarrow> read32 m 10; fn \<leftarrow> read16 m 14;
     inf \<leftarrow> read8 m 16; bus \<leftarrow> read16 m 17; dev \<leftarrow> read16 m 19; ep \<leftarrow> read8 m 21;
     tr \<leftarrow> read8 m 22; len \<leftarrow> read32 m 23;
     Some \<lparr>ph_headerLen = hl, ph_irpId = irp, ph_status = st, ph_function = fn, ph_info = inf,
           ph_bus = bus, ph_device = dev, ph_endpoint = ep, ph_transfer = tr,
           ph_dataLength = len\<rparr> }"

section \<open>Sizes and round trips\<close>

lemma length_headers [simp]:
  "length (pcap_hdr_bytes h) = 24" "length (pcaprec_hdr_bytes r) = 16"
  "length (packet_header_bytes p) = 27" "length (iso_packet_bytes i) = 12"
  by (simp_all add: pcap_hdr_bytes_def pcaprec_hdr_bytes_def packet_header_bytes_def
      iso_packet_bytes_def)

lemma length_iso_packets [simp]: "length (concat (map iso_packet_bytes ps)) = 12 * length ps"
  by (induction ps) auto

lemma length_header_mem:
  "length (header_mem_bytes m) =
     (case m of PlainHeader _ \<Rightarrow> 27 | ControlHeader _ _ \<Rightarrow> 28
      | IsochHeader _ _ _ _ ps \<Rightarrow> 39 + 12 * length ps)"
  by (cases m) auto

lemma header_mem_prefix: "take 27 (header_mem_bytes m) = packet_header_bytes (base_header m)"
  by (cases m) auto

lemma read_pcap_hdr_bytes [simp]:
  "read_pcap_hdr (pcap_hdr_bytes h @ rest) = Some h"
  by (simp add: read_pcap_hdr_def pcap_hdr_bytes_def field_simps_le)

lemma read_pcaprec_hdr_bytes [simp]:
  "read_pcaprec_hdr (pcaprec_hdr_bytes h @ rest) = Some h"
  by (simp add: read_pcaprec_hdr_def pcaprec_hdr_bytes_def field_simps_le)

lemma read_packet_header_bytes [simp]:
  "read_packet_header (packet_header_bytes h @ rest) = Some h"
  by (simp add: read_packet_header_def packet_header_bytes_def field_simps_le)

text \<open>
  Every USBPcap structure the driver stores starts with a common header that reads back
  unchanged, whatever structure it is embedded in and whatever follows it; the structure
  occupies 27, 28 or 39 + 12n bytes.
\<close>

theorem header_mem_roundtrip:
  "read_packet_header (header_mem_bytes m @ rest) = Some (base_header m) \<and>
   length (header_mem_bytes m) =
     (case m of PlainHeader _ \<Rightarrow> 27 | ControlHeader _ _ \<Rightarrow> 28
      | IsochHeader _ _ _ _ ps \<Rightarrow> 39 + 12 * length ps)"
  by (cases m) (simp_all add: length_header_mem)

end
