(* ===== verification/CaptureThread.thy ===== *)
theory CaptureThread
  imports AddressFilter PacketFormat "HOL-Library.While_Combinator"
begin

text \<open>
  The capture thread of the command line tool (thread.c): it reads the byte stream of the
  driver (or of a worker process) in chunks of any size, optionally parses it into pcap
  records, filters them by vendor, product, endpoint and transfer type, inserts the
  descriptor packets after the file header, and writes the result.

  The operating system is the record os_env: which allocations succeed, whether the output
  can be opened, what the k-th WriteFile call does, the clock. The bytes that reach the
  output are the ghost field cs_output.
\<close>

section \<open>Data\<close>

datatype handle = INVALID_HANDLE_VALUE | STD_OUTPUT | OUTPUT_FILE

abbreviation (input) USBPCAP_STORE_MODE_IMMEDIATE :: u32 where "USBPCAP_STORE_MODE_IMMEDIATE \<equiv> 0"
abbreviation (input) USBPCAP_STORE_MODE_ON_MATCH :: u32 where "USBPCAP_STORE_MODE_ON_MATCH \<equiv> 1"

record app_capture_filter =
  enabled :: bool
  has_vendor_id :: bool
  has_product_id :: bool
  has_endpoint :: bool
  has_transfer_type :: bool
  flt_vendor_id :: u16
  flt_product_id :: u16
  flt_endpoint :: u8
  flt_transfer_type :: u8

record device_metadata =
  present :: bool
  md_vendor_id :: u16
  md_product_id :: u16

text \<open>buf_written is compared and added as an unsigned value, so it is a 32-bit word.\<close>

record inject_descriptors =
  inj_descriptors :: bytes
  descriptors_len :: int
  inj_buf :: bytes
  buf_written :: u32

record thread_data =
  filename :: string
  td_filter :: address_filter
  capture_new :: bool
  td_snaplen :: u32
  bufferlen :: u32
  process :: bool
  write_handle :: handle
  descriptors :: inject_descriptors
  store_mode :: u32
  triggered :: bool
  output_created :: bool
  dropped_packets :: u32
  last_flush_tick :: u64
  app_filter :: app_capture_filter
  metadata :: "device_metadata list"

text \<open>The NULL pending buffer of a new parser is the empty block.\<close>

record packet_parser_context =
  pending :: bytes
  pending_len :: u32
  pending_capacity :: u32
  have_pcap_header :: bool
  wrote_pcap_header :: bool
  pcap_header :: pcap_hdr

definition new_parser :: packet_parser_context where
  "new_parser =
     \<lparr>pending = [], pending_len = 0, pending_capacity = 0, have_pcap_header = False,
      wrote_pcap_header = False,
      pcap_header = \<lparr>magic_number = 0, version_major = 0, version_minor = 0, thiszone = 0,
        sigfigs = 0, hdr_snaplen = 0, network = 0\<rparr>\<rparr>"

text \<open>
  What WriteFile does: it completes, it is pending and GetOverlappedResult then returns the
  flag and the number of bytes written, or it fails.
\<close>

datatype write_result = WriteDone | WritePending bool u32 | WriteFailed

record os_env =
  os_realloc :: "u32 \<Rightarrow> bool"
  os_junk :: u8
  os_stdout :: bool
  os_create :: bool
  os_write :: "nat \<Rightarrow> nat \<Rightarrow> write_result"
  os_disk :: bool
  os_tick :: "nat \<Rightarrow> u64"

record capture_state =
  cs_data :: thread_data
  cs_parser :: packet_parser_context
  cs_output :: bytes
  cs_writes :: nat
  cs_flushes :: nat

abbreviation upd_data :: "(thread_data \<Rightarrow> thread_data) \<Rightarrow> capture_state \<Rightarrow> capture_state" where
  "upd_data f s \<equiv> s\<lparr>cs_data := f (cs_data s)\<rparr>"

abbreviation stop_capture :: "capture_state \<Rightarrow> capture_state" where
  "stop_capture s \<equiv> upd_data (process_update (\<lambda>_. False)) s"

section \<open>The pending buffer\<close>

definition grow_capacity :: "u32 \<Rightarrow> u32 \<Rightarrow> u32 option" where
  "grow_capacity required cap = while_option (\<lambda>c. c < required) (\<lambda>c. c * 2) cap"

definition realloc_block :: "u8 \<Rightarrow> bytes \<Rightarrow> nat \<Rightarrow> bytes" where
  "realloc_block junk b n = take n b @ replicate (n - length b) junk"

definition ensure_pending_capacity ::
  "os_env \<Rightarrow> packet_parser_context \<Rightarrow> u32 \<Rightarrow> (packet_parser_context \<times> bool) option" where
  "ensure_pending_capacity os p additional =
     (let required = pending_len p + additional in
      if required \<le> pending_capacity p then Some (p, True)
      else do {
        cap \<leftarrow> (if pending_capacity p = 0 then Some required
               else grow_capacity required (pending_capacity p));
        let p' = p\<lparr>pending_capacity := cap\<rparr>;
        if os_realloc os cap
        then Some (p'\<lparr>pending := realloc_block (os_junk os) (pending p) (unat cap)\<rparr>, True)
        else Some (p', False) })"

section \<open>Output\<close>

definition open_output_handle_if_needed :: "os_env \<Rightarrow> thread_data \<Rightarrow> thread_data \<times> bool" where
  "open_output_handle_if_needed os d =
     (if write_handle d \<noteq> INVALID_HANDLE_VALUE then (d, True)
      else if filename d = ''-'' then
        (let h = (if os_stdout os then STD_OUTPUT else INVALID_HANDLE_VALUE)
         in (d\<lparr>write_handle := h, output_created := True\<rparr>, h \<noteq> INVALID_HANDLE_VALUE))
      else if os_create os then
        (d\<lparr>write_handle := OUTPUT_FILE, output_created := True\<rparr>, True)
      else (d, False))"

definition write_bytes :: "write_result \<Rightarrow> bytes \<Rightarrow> bytes" where
  "write_bytes r buf =
     (case r of WriteDone \<Rightarrow> buf | WritePending _ n \<Rightarrow> take (unat n) buf | WriteFailed \<Rightarrow> [])"

definition write_stops :: "write_result \<Rightarrow> u32 \<Rightarrow> bool" where
  "write_stops r n =
     (case r of WriteDone \<Rightarrow> False | WritePending ok w \<Rightarrow> ok \<and> w \<noteq> n | WriteFailed \<Rightarrow> True)"

definition flush_due :: "os_env \<Rightarrow> thread_data \<Rightarrow> u64 \<Rightarrow> bool" where
  "flush_due os d now \<longleftrightarrow> write_handle d \<noteq> INVALID_HANDLE_VALUE \<and> os_disk os \<and>
     (last_flush_tick d = 0 \<or> now - last_flush_tick d \<ge> 250)"

definition write_data :: "os_env \<Rightarrow> capture_state \<Rightarrow> bytes \<Rightarrow> capture_state" where
  "write_data os s buf =
     (let d = cs_data s;
          r = (if write_handle d = INVALID_HANDLE_VALUE then WriteFailed
               else os_write os (cs_writes s) (length buf));
          d1 = (if write_stops r (of_nat (length buf)) then d\<lparr>process := False\<rparr> else d);
          now = os_tick os (cs_writes s);
          flush = flush_due os d now;
          d2 = (if flush then d1\<lparr>last_flush_tick := now\<rparr> else d1)
      in s\<lparr>cs_data := d2, cs_output := cs_output s @ write_bytes r buf,
           cs_writes := cs_writes s + 1,
           cs_flushes := (if flush then cs_flushes s + 1 else cs_flushes s)\<rparr>)"

definition injects :: "pcap_hdr \<Rightarrow> int \<Rightarrow> bool" where
  "injects h len \<longleftrightarrow> magic_number h = 0xA1B2C3D4 \<and> network h = DLT_USBPCAP \<and> len > 0"

definition begin_output_stream ::
  "os_env \<Rightarrow> capture_state \<Rightarrow> (capture_state \<times> bool) option" where
  "begin_output_stream os s =
     (if \<not> have_pcap_header (cs_parser s) then Some (s, False)
      else if wrote_pcap_header (cs_parser s) then Some (s, True)
      else case open_output_handle_if_needed os (cs_data s) of
        (d, False) \<Rightarrow> Some (s\<lparr>cs_data := d\<lparr>process := False\<rparr>\<rparr>, False)
      | (d, True) \<Rightarrow> do {
          let hdr = pcap_header (cs_parser s);
          let s1 = write_data os (s\<lparr>cs_data := d\<rparr>) (pcap_hdr_bytes hdr);
          let inj = descriptors (cs_data s1);
          s2 \<leftarrow> (if injects hdr (descriptors_len inj)
                then do { b \<leftarrow> mem_read (inj_descriptors inj) 0 (nat (descriptors_len inj));
                          Some (write_data os s1 b) }
                else Some s1);
          Some (upd_data (triggered_update (\<lambda>_. True))
                 (s2\<lparr>cs_parser := (cs_parser s2)\<lparr>wrote_pcap_header := True\<rparr>\<rparr>), True) })"

section \<open>Filtering\<close>

text \<open>
  The header argument is the memory from the packet header on, bytes the claimed length of
  the record.
\<close>

definition app_packet_matches :: "thread_data \<Rightarrow> bytes \<Rightarrow> u32 \<Rightarrow> bool option" where
  "app_packet_matches data header bytes =
     (let flt = app_filter data in
      if \<not> enabled flt then Some True
      else if bytes < 27 then Some False
      else do {
        dev \<leftarrow> read16 header 19;
        if dev \<ge> 128 then Some False
        else let md = metadata data ! unat dev in
          if has_vendor_id flt \<and> (\<not> present md \<or> md_vendor_id md \<noteq> flt_vendor_id flt)
          then Some False
          else if has_product_id flt \<and> (\<not> present md \<or> md_product_id md \<noteq> flt_product_id flt)
          then Some False
          else do {
            ep_ok \<leftarrow> (if has_endpoint flt
                     then map_option (\<lambda>e. e = flt_endpoint flt) (read8 header 21) else Some True);
            if \<not> ep_ok then Some False
            else if has_transfer_type flt
            then map_option (\<lambda>t. t = flt_transfer_type flt) (read8 header 22) else Some True } })"

section \<open>Processing a chunk\<close>

text \<open>What happens to one complete record; the flag is False on the early returns.\<close>

definition deliver_record ::
  "os_env \<Rightarrow> capture_state \<Rightarrow> bool \<Rightarrow> bytes \<Rightarrow> (capture_state \<times> bool) option" where
  "deliver_record os s matched rec =
     (if matched then do {
        (s1, ok1) \<leftarrow> (if store_mode (cs_data s) = USBPCAP_STORE_MODE_ON_MATCH \<and>
                       \<not> triggered (cs_data s)
                    then begin_output_stream os s else Some (s, True));
        if \<not> ok1 then Some (s1, False)
        else if store_mode (cs_data s1) = USBPCAP_STORE_MODE_IMMEDIATE \<or> triggered (cs_data s1)
        then do {
          (s2, ok2) \<leftarrow> (if store_mode (cs_data s1) = USBPCAP_STORE_MODE_IMMEDIATE \<and>
                         \<not> wrote_pcap_header (cs_parser s1)
                      then begin_output_stream os s1 else Some (s1, True));
          if \<not> ok2 then Some (s2, False) else Some (write_data os s2 rec, True) }
        else Some (s1, True) }
      else Some (upd_data (\<lambda>d. d\<lparr>dropped_packets := dropped_packets d + 1\<rparr>) s, True))"

text \<open>memmove of the rest of the pending bytes to the front of the buffer.\<close>

definition consume_pending ::
  "packet_parser_context \<Rightarrow> u32 \<Rightarrow> packet_parser_context option" where
  "consume_pending p n = do {
     m \<leftarrow> mem_copy (pending p) 0 (pending p) (unat n) (unat (pending_len p - n));
     Some (p\<lparr>pending := m, pending_len := pending_len p - n\<rparr>) }"

definition take_pcap_header ::
  "os_env \<Rightarrow> capture_state \<Rightarrow> (capture_state \<times> bool) option" where
  "take_pcap_header os s = do {
     let p = cs_parser s;
     if \<not> have_pcap_header p \<and> pending_len p \<ge> 24 then do {
       hdr \<leftarrow> read_pcap_hdr (pending p);
       p1 \<leftarrow> consume_pending (p\<lparr>pcap_header := hdr\<rparr>) 24;
       let s1 = s\<lparr>cs_parser := p1\<lparr>have_pcap_header := True\<rparr>\<rparr>;
       if store_mode (cs_data s1) = USBPCAP_STORE_MODE_IMMEDIATE
       then begin_output_stream os s1 else Some (s1, True) }
     else Some (s, True) }"

text \<open>One round of the while loop; the flag is False when it returns.\<close>

definition parse_step :: "os_env \<Rightarrow> capture_state \<Rightarrow> (capture_state \<times> bool) option" where
  "parse_step os s0 = do {
     (s, ok) \<leftarrow> take_pcap_header os s0;
     let p = cs_parser s;
     if \<not> ok \<or> \<not> have_pcap_header p \<or> pending_len p < 16 then Some (s, False)
     else do {
       recHeader \<leftarrow> read_pcaprec_hdr (pending p);
       let totalLength = 16 + incl_len recHeader;
       if pending_len p < totalLength then Some (s, False)
       else do {
         matched \<leftarrow> app_packet_matches (cs_data s) (drop 16 (pending p)) (incl_len recHeader);
         rec \<leftarrow> mem_read (pending p) 0 (unat totalLength);
         (s1, ok1) \<leftarrow> deliver_record os s matched rec;
         if \<not> ok1 then Some (s1, False)
         else do {
           p1 \<leftarrow> consume_pending (cs_parser s1) totalLength;
           Some (s1\<lparr>cs_parser := p1\<rparr>, True) } } } }"

partial_function (option) parse_loop :: "os_env \<Rightarrow> capture_state \<Rightarrow> capture_state option" where
  "parse_loop os s =
     (if process (cs_data s)
      then do { (s', continue) \<leftarrow> parse_step os s;
                if continue then parse_loop os s' else Some s' }
      else Some s)"

text \<open>
  The branch without application filter in immediate mode. The first 24 bytes are collected
  in the buffer of the descriptors; when it is full it is written and the descriptor packets
  after it.
\<close>

definition write_collected_header :: "os_env \<Rightarrow> capture_state \<Rightarrow> capture_state option" where
  "write_collected_header os s = do {
     let inj = descriptors (cs_data s);
     hdr \<leftarrow> read_pcap_hdr (inj_buf inj);
     let s' = write_data os s (inj_buf inj);
     if injects hdr (descriptors_len inj)
     then do { b \<leftarrow> mem_read (inj_descriptors inj) 0 (nat (descriptors_len inj));
               Some (write_data os s' b) }
     else Some s' }"

definition pass_through :: "os_env \<Rightarrow> capture_state \<Rightarrow> bytes \<Rightarrow> capture_state option" where
  "pass_through os s chunk =
     (let inj = descriptors (cs_data s) in
      if buf_written inj < 24 then do {
        let to_write = min (24 - buf_written inj) (of_nat (length chunk));
        buf \<leftarrow> mem_copy (inj_buf inj) (unat (buf_written inj)) chunk 0 (unat to_write);
        let inj1 = inj\<lparr>inj_buf := buf, buf_written := buf_written inj + to_write\<rparr>;
        let s1 = upd_data (descriptors_update (\<lambda>_. inj1)) s;
        s2 \<leftarrow> (if buf_written inj1 = 24 then write_collected_header os s1 else Some s1);
        let rest = drop (unat to_write) chunk;
        if rest = [] then Some s2 else Some (write_data os s2 rest) }
      else Some (write_data os s chunk))"

definition process_data :: "os_env \<Rightarrow> capture_state \<Rightarrow> bytes \<Rightarrow> capture_state option" where
  "process_data os s chunk =
     (if \<not> enabled (app_filter (cs_data s)) \<and>
         store_mode (cs_data s) = USBPCAP_STORE_MODE_IMMEDIATE
      then pass_through os s chunk
      else do {
        (p, ok) \<leftarrow> ensure_pending_capacity os (cs_parser s) (of_nat (length chunk));
        if \<not> ok then Some (stop_capture (s\<lparr>cs_parser := p\<rparr>))
        else do {
          m \<leftarrow> mem_write (pending p) (unat (pending_len p)) chunk;
          parse_loop os (s\<lparr>cs_parser :=
            p\<lparr>pending := m, pending_len := pending_len p + of_nat (length chunk)\<rparr>\<rparr>) } })"

section \<open>The thread\<close>

text \<open>
  What WaitForMultipleObjects reports: a completed read with its bytes, the write event, the
  dummy read on an output pipe (with whether the pipe is broken), the exit event, the
  connection of a worker process, or a failed wait.
\<close>

datatype thread_event =
    ReadCompleted bytes
  | WriteSignalled
  | PipeReadCompleted bool
  | ExitSignalled
  | PipeConnected
  | WaitFailed

text \<open>The second component counts the ReadFile calls on the read handle.\<close>

fun thread_step ::
  "os_env \<Rightarrow> capture_state \<times> nat \<Rightarrow> thread_event \<Rightarrow> (capture_state \<times> nat) option" where
  "thread_step os (s, reads) (ReadCompleted chunk) =
     do { s' \<leftarrow> process_data os s chunk; Some (s', reads + 1) }"
| "thread_step os (s, reads) WriteSignalled = Some (s, reads)"
| "thread_step os (s, reads) (PipeReadCompleted broken) =
     Some (if broken then stop_capture s else s, reads)"
| "thread_step os (s, reads) ExitSignalled = Some (stop_capture s, reads)"
| "thread_step os (s, reads) PipeConnected = Some (s, reads + 1)"
| "thread_step os (s, reads) WaitFailed = Some (s, reads)"

text \<open>The event loop; at the end of the list the thread waits for the next event.\<close>

fun event_loop ::
  "os_env \<Rightarrow> capture_state \<times> nat \<Rightarrow> thread_event list \<Rightarrow> (capture_state \<times> nat) option" where
  "event_loop os st [] = Some st"
| "event_loop os st (e # es) =
     (if \<not> process (cs_data (fst st)) \<or> e = WaitFailed then Some st
      else do { st' \<leftarrow> thread_step os st e; event_loop os st' es })"

datatype read_source = InvalidSource | DeviceSource | PipeSource bool

text \<open>
  The start of the thread: on a device the first read is issued, on a pipe the thread waits
  for the connection (and gives up when ConnectNamedPipe fails).
\<close>

definition thread_init :: "read_source \<Rightarrow> thread_data \<Rightarrow> capture_state \<times> nat" where
  "thread_init src d =
     (let s = \<lparr>cs_data = d, cs_parser = new_parser, cs_output = [], cs_writes = 0,
               cs_flushes = 0\<rparr>
      in case src of
           PipeSource ok \<Rightarrow> (if ok then s else stop_capture s, 0)
         | _ \<Rightarrow> (s, 1))"

text \<open>
  The thread function for a run that ends with the last event: malloc_ok is the allocation
  of the read buffer, the source is the read handle (for a pipe, whether ConnectNamedPipe
  succeeded or is pending). The result has the state, the number of reads and whether the
  exit event was set.
\<close>

definition read_thread ::
  "os_env \<Rightarrow> bool \<Rightarrow> read_source \<Rightarrow> thread_data \<Rightarrow> thread_event list \<Rightarrow>
   (capture_state \<times> nat \<times> bool) option" where
  "read_thread os malloc_ok src d events =
     (let s = \<lparr>cs_data = d, cs_parser = new_parser, cs_output = [], cs_writes = 0,
               cs_flushes = 0\<rparr> in
      if \<not> malloc_ok \<or> src = InvalidSource then Some (s, 0, True)
      else if write_handle d = INVALID_HANDLE_VALUE \<and>
              store_mode d \<noteq> USBPCAP_STORE_MODE_IMMEDIATE \<and>
              store_mode d \<noteq> USBPCAP_STORE_MODE_ON_MATCH \<and> filename d \<noteq> ''-''
      then Some (s, 0, True)
      else do {
        (s', reads) \<leftarrow> event_loop os (thread_init src d) events;
        let flush = (write_handle (cs_data s') \<noteq> INVALID_HANDLE_VALUE \<and> os_disk os);
        Some (if flush then s'\<lparr>cs_flushes := cs_flushes s' + 1\<rparr> else s', reads, True) })"

end
