(* ===== verification/CaptureSpec.thy ===== *)
theory CaptureSpec
  imports CaptureThread
begin

text \<open>
  What the capture thread has to write, as a function of the byte stream it read, and the
  proof that it does so however the stream is cut into chunks.
\<close>

section \<open>The reference\<close>

text \<open>The complete records of a byte stream and what follows them.\<close>

function split_records :: "bytes \<Rightarrow> bytes list \<times> bytes" where
  "split_records b =
     (case read_pcaprec_hdr b of
        None \<Rightarrow> ([], b)
      | Some r \<Rightarrow>
          let n = 16 + unat (incl_len r) in
          if length b < n then ([], b)
          else let (rs, rest) = split_records (drop n b) in (take n b # rs, rest))"
  by pat_completeness auto
termination
  by (relation "measure length") (auto simp: Let_def not_less)

declare split_records.simps [simp del]

text \<open>No record of the stream, the incomplete last one included, is longer than M.\<close>

definition records_below :: "nat \<Rightarrow> bytes \<Rightarrow> bool" where
  "records_below M b \<longleftrightarrow>
     (\<forall>r\<in>set (fst (split_records b)). length r \<le> M) \<and>
     (case read_pcaprec_hdr (snd (split_records b)) of
        None \<Rightarrow> True | Some r \<Rightarrow> 16 + unat (incl_len r) \<le> M)"

definition filter_accepts :: "app_capture_filter \<Rightarrow> device_metadata list \<Rightarrow> packet_header \<Rightarrow> bool"
  where
  "filter_accepts flt mds h \<longleftrightarrow>
     ph_device h < 128 \<and>
     (let md = mds ! unat (ph_device h) in
      (has_vendor_id flt \<longrightarrow> present md \<and> md_vendor_id md = flt_vendor_id flt) \<and>
      (has_product_id flt \<longrightarrow> present md \<and> md_product_id md = flt_product_id flt) \<and>
      (has_endpoint flt \<longrightarrow> ph_endpoint h = flt_endpoint flt) \<and>
      (has_transfer_type flt \<longrightarrow> ph_transfer h = flt_transfer_type flt))"

definition record_matches :: "thread_data \<Rightarrow> bytes \<Rightarrow> bool" where
  "record_matches d rec \<longleftrightarrow>
     (\<not> enabled (app_filter d) \<or>
      (case read_packet_header (drop 16 rec) of
         None \<Rightarrow> False | Some h \<Rightarrow> filter_accepts (app_filter d) (metadata d) h))"

text \<open>The bytes written when the output begins: file header, then the descriptor packets.\<close>

definition preamble :: "thread_data \<Rightarrow> bytes \<Rightarrow> bytes" where
  "preamble d hdr =
     hdr @ (case read_pcap_hdr hdr of
              None \<Rightarrow> []
            | Some h \<Rightarrow> if injects h (descriptors_len (descriptors d))
                        then take (nat (descriptors_len (descriptors d)))
                               (inj_descriptors (descriptors d))
                        else [])"

definition kept :: "thread_data \<Rightarrow> bytes list \<Rightarrow> bytes list" where
  "kept d rs = filter (record_matches d) rs"

definition begun :: "thread_data \<Rightarrow> bytes list \<Rightarrow> bool" where
  "begun d rs \<longleftrightarrow> store_mode d = USBPCAP_STORE_MODE_IMMEDIATE \<or> kept d rs \<noteq> []"

definition expected_output :: "thread_data \<Rightarrow> bytes \<Rightarrow> bytes" where
  "expected_output d stream =
     (if length stream < 24 then []
      else let rs = fst (split_records (drop 24 stream)) in
        if begun d rs then preamble d (take 24 stream) @ concat (kept d rs) else [])"

section \<open>Splitting a stream\<close>

lemma read_pcaprec_hdr_None: "read_pcaprec_hdr b = None \<longleftrightarrow> length b < 16"
proof (cases "length b < 16")
  case True
  then show ?thesis
    by (auto simp: read_pcaprec_hdr_def read32_def mem_read_def bind_eq_None_conv)
next
  case False
  then show ?thesis
    using read32_total [of 0 b] read32_total [of 4 b] read32_total [of 8 b] read32_total [of 12 b]
    by (auto simp: read_pcaprec_hdr_def)
qed

lemma read_pcap_hdr_Some: "24 \<le> length b \<Longrightarrow> \<exists>h. read_pcap_hdr b = Some h"
  using read32_total [of 0 b] read16_total [of 4 b] read16_total [of 6 b] read32_total [of 8 b]
    read32_total [of 12 b] read32_total [of 16 b] read32_total [of 20 b]
  by (auto simp: read_pcap_hdr_def)

lemma read_headers_take:
  "16 \<le> n \<Longrightarrow> 16 \<le> length m \<Longrightarrow> read_pcaprec_hdr (take n m) = read_pcaprec_hdr m"
  "24 \<le> n \<Longrightarrow> 24 \<le> length m \<Longrightarrow> read_pcap_hdr (take n m) = read_pcap_hdr m"
  "27 \<le> n \<Longrightarrow> 27 \<le> length m \<Longrightarrow> read_packet_header (take n m) = read_packet_header m"
  by (simp_all add: read_pcaprec_hdr_def read_pcap_hdr_def read_packet_header_def read_take)

lemma read_pcaprec_hdr_append: "16 \<le> length a \<Longrightarrow> read_pcaprec_hdr (a @ b) = read_pcaprec_hdr a"
  using read_headers_take(1) [of "length a" "a @ b"] by simp

text \<open>The three shapes of a stream: no record header, an incomplete record, a record.\<close>

lemma split_records_cases:
  obtains (short) "length b < 16" "split_records b = ([], b)"
  | (partial) r where "read_pcaprec_hdr b = Some r" "16 \<le> length b"
      "length b < 16 + unat (incl_len r)" "split_records b = ([], b)"
  | (complete) r where "read_pcaprec_hdr b = Some r" "16 + unat (incl_len r) \<le> length b"
      "split_records b =
        (take (16 + unat (incl_len r)) b # fst (split_records (drop (16 + unat (incl_len r)) b)),
         snd (split_records (drop (16 + unat (incl_len r)) b)))"
proof (cases "read_pcaprec_hdr b")
  case None
  with short show ?thesis by (simp add: split_records.simps read_pcaprec_hdr_None)
next
  case (Some r)
  then have "16 \<le> length b" using read_pcaprec_hdr_None [of b] by fastforce
  with Some partial complete show ?thesis
    by (cases "length b < 16 + unat (incl_len r)")
      (auto simp: split_records.simps [of b] Let_def split_beta)
qed

lemma split_records_concat: "concat (fst (split_records b)) @ snd (split_records b) = b"
proof (induction b rule: split_records.induct)
  case (1 b)
  show ?case
  proof (cases b rule: split_records_cases)
    case (complete r)
    with 1 [of r] show ?thesis by (simp flip: append.assoc) 
  qed simp_all
qed

lemma split_records_append:
  "split_records (a @ c) =
     (fst (split_records a) @ fst (split_records (snd (split_records a) @ c)),
      snd (split_records (snd (split_records a) @ c)))"
proof (induction a rule: split_records.induct)
  case (1 a)
  show ?case
  proof (cases a rule: split_records_cases)
    case (complete r)
    let ?n = "16 + unat (incl_len r)"
    have "read_pcaprec_hdr (a @ c) = Some r"
      using complete by (simp add: read_pcaprec_hdr_append)
    then have "split_records (a @ c) =
        (take ?n a # fst (split_records (drop ?n a @ c)), snd (split_records (drop ?n a @ c)))"
      using complete(2) by (simp add: split_records.simps [of "a @ c"] Let_def split_beta)
    with 1 [of r] complete show ?thesis by simp
  qed simp_all
qed

lemma pcap_hdr_bytes_read:
  assumes "read_pcap_hdr m = Some h"
  shows "pcap_hdr_bytes h = take 24 m"
proof -
  have "take (4 + (2 + (2 + (4 + (4 + (4 + 4)))))) m =
      take 4 m @ take 2 (drop 4 m) @ take 2 (drop 6 m) @ take 4 (drop 8 m) @
      take 4 (drop 12 m) @ take 4 (drop 16 m) @ take 4 (drop 20 m)"
    by (simp only: take_add drop_drop) simp
  with assms show ?thesis
    by (auto simp: read_pcap_hdr_def pcap_hdr_bytes_def bind_eq_Some_conv
        read16_bytes read32_bytes)
qed

text \<open>A record as the driver stores it is split off.\<close>

lemma split_records_record:
  assumes "length p = unat (incl_len h)"
  shows "split_records (pcaprec_hdr_bytes h @ p @ rest) =
    ((pcaprec_hdr_bytes h @ p) # fst (split_records rest), snd (split_records rest))"
  using assms by (simp add: split_records.simps [of "pcaprec_hdr_bytes h @ p @ rest"] split_beta Let_def)

lemma split_records_Nil [simp]: "split_records [] = ([], [])"
  by (cases "[] :: bytes" rule: split_records_cases) simp_all

section \<open>The environment\<close>

definition full_write :: "write_result \<Rightarrow> nat \<Rightarrow> bool" where
  "full_write r n \<longleftrightarrow> r = WriteDone \<or> r = WritePending True (of_nat n)"

definition writes_ok :: "os_env \<Rightarrow> bool" where
  "writes_ok os \<longleftrightarrow> (\<forall>k n. full_write (os_write os k n) n) \<and> (\<forall>c. os_realloc os c)"

definition can_open :: "os_env \<Rightarrow> thread_data \<Rightarrow> bool" where
  "can_open os d \<longleftrightarrow> write_handle d \<noteq> INVALID_HANDLE_VALUE \<or>
     (if filename d = ''-'' then os_stdout os else os_create os)"

text \<open>The descriptor packets are in memory and a write of them fits in 32 bits.\<close>

definition descriptors_ok :: "thread_data \<Rightarrow> bool" where
  "descriptors_ok d \<longleftrightarrow> nat (descriptors_len (descriptors d)) \<le>
     length (inj_descriptors (descriptors d)) \<and>
     length (inj_descriptors (descriptors d)) < 2 ^ 32"

text \<open>The settings of a run, which the thread never changes.\<close>

definition settings ::
  "thread_data \<Rightarrow> app_capture_filter \<times> device_metadata list \<times> u32 \<times> bytes \<times> int \<times> string" where
  "settings d = (app_filter d, metadata d, store_mode d, inj_descriptors (descriptors d),
     descriptors_len (descriptors d), filename d)"

lemma settings_cong:
  assumes "settings d = settings d'"
  shows "record_matches d r = record_matches d' r" "preamble d h = preamble d' h"
    "kept d rs = kept d' rs" "begun d rs = begun d' rs" "expected_output d b = expected_output d' b"
    "descriptors_ok d = descriptors_ok d'" "store_mode d = store_mode d'"
    "app_filter d = app_filter d'" "metadata d = metadata d'"
proof -
  show r: "record_matches d r = record_matches d' r" for r
    using assms by (simp add: settings_def record_matches_def cong: option.case_cong)
  have "record_matches d = record_matches d'" using r by (rule ext)
  then show k: "kept d rs = kept d' rs" for rs by (simp add: kept_def)
  show p: "preamble d h = preamble d' h" for h
    using assms by (simp add: settings_def preamble_def split: option.split)
  show b: "begun d rs = begun d' rs" for rs
    using assms by (simp add: settings_def begun_def k)
  show "expected_output d b = expected_output d' b" by (simp add: expected_output_def k p b Let_def)
qed (use assms in \<open>simp_all add: settings_def descriptors_ok_def\<close>)

lemma full_write_simps:
  assumes "full_write r (length b)" "length b < 2 ^ 32"
  shows "write_bytes r b = b" "\<not> write_stops r (of_nat (length b))"
  using assms by (auto simp: full_write_def write_bytes_def write_stops_def unsigned_of_nat
      take_bit_nat_eq_self)

text \<open>A write that succeeds appends its bytes and changes nothing the model observes.\<close>

lemma write_data_ok:
  assumes "writes_ok os" "write_handle (cs_data s) \<noteq> INVALID_HANDLE_VALUE" "length b < 2 ^ 32"
  obtains t f where "write_data os s b =
    s\<lparr>cs_data := (cs_data s)\<lparr>last_flush_tick := t\<rparr>, cs_output := cs_output s @ b,
      cs_writes := Suc (cs_writes s), cs_flushes := f\<rparr>"
proof -
  have "full_write (os_write os (cs_writes s) (length b)) (length b)"
    using assms by (simp add: writes_ok_def)
  note w = full_write_simps [OF this assms(3)]
  show thesis
  proof (cases "flush_due os (cs_data s) (os_tick os (cs_writes s))")
    case True
    with w assms(2) have "write_data os s b =
        s\<lparr>cs_data := (cs_data s)\<lparr>last_flush_tick := os_tick os (cs_writes s)\<rparr>,
          cs_output := cs_output s @ b, cs_writes := Suc (cs_writes s),
          cs_flushes := cs_flushes s + 1\<rparr>"
      by (simp add: write_data_def Let_def)
    with that show thesis by blast
  next
    case False
    with w assms(2) have "write_data os s b =
        s\<lparr>cs_data := (cs_data s)\<lparr>last_flush_tick := last_flush_tick (cs_data s)\<rparr>,
          cs_output := cs_output s @ b, cs_writes := Suc (cs_writes s),
          cs_flushes := cs_flushes s\<rparr>"
      by (simp add: write_data_def Let_def)
    with that show thesis by blast
  qed
qed

section \<open>The pending buffer\<close>

definition pnd :: "packet_parser_context \<Rightarrow> bytes" where
  "pnd p = take (unat (pending_len p)) (pending p)"

definition parser_wf :: "packet_parser_context \<Rightarrow> bool" where
  "parser_wf p \<longleftrightarrow> length (pending p) = unat (pending_capacity p) \<and>
     pending_len p \<le> pending_capacity p"

lemma parser_wf_length: "parser_wf p \<Longrightarrow> unat (pending_len p) \<le> length (pending p)"
  by (simp add: parser_wf_def word_le_nat_alt)

lemma length_pnd: "parser_wf p \<Longrightarrow> length (pnd p) = unat (pending_len p)"
  by (simp add: pnd_def parser_wf_length)

lemma new_parser_wf: "parser_wf new_parser" "pnd new_parser = []"
  by (simp_all add: parser_wf_def new_parser_def pnd_def)

lemma consume_pending_ok:
  assumes wf: "parser_wf p" and n: "n \<le> pending_len p"
  obtains m where "consume_pending p n = Some (p\<lparr>pending := m, pending_len := pending_len p - n\<rparr>)"
    "parser_wf (p\<lparr>pending := m, pending_len := pending_len p - n\<rparr>)"
    "pnd (p\<lparr>pending := m, pending_len := pending_len p - n\<rparr>) = drop (unat n) (pnd p)"
proof
  let ?k = "unat (pending_len p - n)" and ?n = "unat n"
  let ?m = "take ?k (drop ?n (pending p)) @ drop ?k (pending p)"
  have k: "?k = unat (pending_len p) - ?n" "?n \<le> unat (pending_len p)"
    using n by (simp_all add: word_nat)
  note len = parser_wf_length [OF wf]
  have "mem_copy (pending p) 0 (pending p) ?n ?k = Some ?m"
    using k len by (simp add: mem_copy_Some)
  then show "consume_pending p n = Some (p\<lparr>pending := ?m, pending_len := pending_len p - n\<rparr>)"
    by (simp add: consume_pending_def)
  show "parser_wf (p\<lparr>pending := ?m, pending_len := pending_len p - n\<rparr>)"
    using wf k len by (auto simp: parser_wf_def word_le_nat_alt min_def)
  show "pnd (p\<lparr>pending := ?m, pending_len := pending_len p - n\<rparr>) = drop ?n (pnd p)"
    using k len by (simp add: pnd_def drop_take)
qed

lemma grow_capacity_ok:
  assumes "0 < cap" "required \<le> 0x80000000"
  obtains c where "grow_capacity required cap = Some c" "required \<le> c"
proof -
  have "\<exists>c. grow_capacity required cap = Some c \<and> required \<le> c"
    using assms(1)
  proof (induction "2 ^ 32 - unat cap" arbitrary: cap rule: less_induct)
    case less
    show ?case
    proof (cases "cap < required")
      case True
      then have "unat cap < 2 ^ 31"
        using assms(2) by (simp add: word_nat)
      then have double: "unat (cap * 2) = 2 * unat cap"
        by (simp add: unat_word_ariths)
      have "0 < unat cap" using less.prems by (simp add: word_less_nat_alt)
      then have "2 ^ 32 - unat (cap * 2) < 2 ^ 32 - unat cap" "0 < cap * 2"
        using double \<open>unat cap < 2 ^ 31\<close> by (simp_all add: word_less_nat_alt)
      with less.hyps [of "cap * 2"] True show ?thesis
        by (simp add: grow_capacity_def while_option_unfold [of _ _ cap])
    qed (simp add: grow_capacity_def while_option_unfold [of _ _ cap])
  qed
  with that show thesis by blast
qed

lemma ensure_pending_capacity_ok:
  assumes wf: "parser_wf p" and os: "\<forall>c. os_realloc os c"
    and size: "unat (pending_len p) + unat additional \<le> 2 ^ 31"
  obtains cap m where
    "ensure_pending_capacity os p additional = Some (p\<lparr>pending_capacity := cap, pending := m\<rparr>, True)"
    "length m = unat cap" "unat (pending_len p) + unat additional \<le> unat cap"
    "take (unat (pending_len p)) m = pnd p"
proof (cases "pending_len p + additional \<le> pending_capacity p")
  case True
  have "p\<lparr>pending_capacity := pending_capacity p, pending := pending p\<rparr> = p" by simp
  moreover have "unat (pending_len p + additional) = unat (pending_len p) + unat additional"
    using size by (simp add: word_nat)
  ultimately show thesis
    using that [where cap = "pending_capacity p" and m = "pending p"] True wf
    by (simp add: ensure_pending_capacity_def parser_wf_def pnd_def word_le_nat_alt)
next
  case False
  let ?r = "pending_len p + additional"
  have r: "unat ?r = unat (pending_len p) + unat additional"
    using size by (simp add: word_nat)
  obtain c where c: "(if pending_capacity p = 0 then Some ?r
      else grow_capacity ?r (pending_capacity p)) = Some c" "?r \<le> c"
  proof (cases "pending_capacity p = 0")
    case False
    then have "0 < pending_capacity p" by (simp add: word_gt_0)
    moreover have "?r \<le> 0x80000000" using r size by (simp add: word_le_nat_alt)
    ultimately obtain c where "grow_capacity ?r (pending_capacity p) = Some c" "?r \<le> c"
      using grow_capacity_ok by blast
    with that [of c] False show thesis by simp
  qed (use that in simp)
  let ?m = "realloc_block (os_junk os) (pending p) (unat c)"
  have "length (pending p) \<le> unat c"
    using c(2) False wf by (simp add: parser_wf_def word_le_nat_alt)
  then have "length ?m = unat c" "take (unat (pending_len p)) ?m = pnd p"
    using parser_wf_length [OF wf] by (simp_all add: realloc_block_def pnd_def)
  moreover have "ensure_pending_capacity os p additional =
      Some (p\<lparr>pending_capacity := c, pending := ?m\<rparr>, True)"
    using False c(1) os by (simp add: ensure_pending_capacity_def Let_def)
  ultimately show thesis
    using that [where cap = c and m = ?m] c(2) r by (simp add: word_le_nat_alt)
qed

text \<open>Appending a chunk to the pending bytes.\<close>

lemma feed_pending:
  assumes wf: "parser_wf p" and os: "\<forall>c. os_realloc os c"
    and size: "unat (pending_len p) + length chunk \<le> 2 ^ 31"
  obtains p' m q where
    "ensure_pending_capacity os p (of_nat (length chunk)) = Some (p', True)"
    "mem_write (pending p') (unat (pending_len p')) chunk = Some m"
    "q = p'\<lparr>pending := m, pending_len := pending_len p' + of_nat (length chunk)\<rparr>"
    "parser_wf q" "pnd q = pnd p @ chunk" "have_pcap_header q = have_pcap_header p"
    "wrote_pcap_header q = wrote_pcap_header p" "pcap_header q = pcap_header p"
proof -
  have n: "unat (of_nat (length chunk) :: u32) = length chunk"
    using size by (simp add: unsigned_of_nat take_bit_nat_eq_self)
  obtain cap m0 where e:
    "ensure_pending_capacity os p (of_nat (length chunk)) =
       Some (p\<lparr>pending_capacity := cap, pending := m0\<rparr>, True)"
    "length m0 = unat cap" "unat (pending_len p) + length chunk \<le> unat cap"
    "take (unat (pending_len p)) m0 = pnd p"
    using ensure_pending_capacity_ok [OF wf os, of "of_nat (length chunk)"] size n by metis
  let ?m = "pnd p @ chunk @ drop (unat (pending_len p) + length chunk) m0"
  have len: "length (pnd p) = unat (pending_len p)" by (rule length_pnd [OF wf])
  have sum: "unat (pending_len p + of_nat (length chunk)) = unat (pending_len p) + length chunk"
    using size n by (simp add: unat_add_lt)
  have w: "mem_write m0 (unat (pending_len p)) chunk = Some ?m"
    using e len by (simp add: mem_write_Some)
  have m: "length ?m = unat cap" using e len by simp
  show thesis
    by (rule that [where p' = "p\<lparr>pending_capacity := cap, pending := m0\<rparr>" and m = ?m and q = "p\<lparr>pending_capacity := cap, pending := ?m,
          pending_len := pending_len p + of_nat (length chunk)\<rparr>"])
      (use e w len sum m in \<open>simp_all add: parser_wf_def pnd_def word_le_nat_alt\<close>)
qed

section \<open>Beginning the output\<close>

lemma open_output_ok:
  assumes "can_open os d"
  obtains h oc where "open_output_handle_if_needed os d =
      (d\<lparr>write_handle := h, output_created := oc\<rparr>, True)" "h \<noteq> INVALID_HANDLE_VALUE"
proof (cases "write_handle d = INVALID_HANDLE_VALUE")
  case True
  with assms that [where h = "if filename d = ''-'' then STD_OUTPUT else OUTPUT_FILE" and oc = True]
  show thesis by (auto simp: open_output_handle_if_needed_def can_open_def split: if_splits)
next
  case False
  with that [where h = "write_handle d" and oc = "output_created d"]
  show thesis by (simp add: open_output_handle_if_needed_def)
qed

text \<open>Writing the file header and then the descriptor packets.\<close>

abbreviation descriptor_bytes :: "thread_data \<Rightarrow> bytes" where
  "descriptor_bytes d \<equiv>
     take (nat (descriptors_len (descriptors d))) (inj_descriptors (descriptors d))"

lemma write_preamble:
  assumes "writes_ok os" "write_handle (cs_data u) \<noteq> INVALID_HANDLE_VALUE" "descriptors_ok (cs_data u)"
    and "read_pcap_hdr hb = Some h" "length hb = 24"
  obtains t f w where
    "(if injects h (descriptors_len (descriptors (cs_data u)))
      then write_data os (write_data os u hb) (descriptor_bytes (cs_data u)) else write_data os u hb) =
     u\<lparr>cs_data := (cs_data u)\<lparr>last_flush_tick := t\<rparr>,
       cs_output := cs_output u @ preamble (cs_data u) hb, cs_writes := w, cs_flushes := f\<rparr>"
proof -
  have pre: "preamble (cs_data u) hb = hb @
      (if injects h (descriptors_len (descriptors (cs_data u))) then descriptor_bytes (cs_data u) else [])"
    by (simp add: preamble_def assms(4))
  obtain t1 f1 where w1: "write_data os u hb = u\<lparr>cs_data := (cs_data u)\<lparr>last_flush_tick := t1\<rparr>,
      cs_output := cs_output u @ hb, cs_writes := Suc (cs_writes u), cs_flushes := f1\<rparr>"
    by (rule write_data_ok [of os u hb]) (use assms in simp_all)
  show thesis
  proof (cases "injects h (descriptors_len (descriptors (cs_data u)))")
    case True
    let ?u1 = "write_data os u hb" and ?b = "descriptor_bytes (cs_data u)"
    obtain t2 f2 where "write_data os ?u1 ?b = ?u1\<lparr>cs_data := (cs_data ?u1)\<lparr>last_flush_tick := t2\<rparr>,
        cs_output := cs_output ?u1 @ ?b, cs_writes := Suc (cs_writes ?u1), cs_flushes := f2\<rparr>"
      by (rule write_data_ok [of os ?u1 ?b])
        (use assms in \<open>simp_all add: w1 descriptors_ok_def min_less_iff_disj\<close>)
    with True show thesis
      by (intro that [where t = t2 and f = f2 and w = "Suc (Suc (cs_writes u))"]) (simp add: w1 pre)
  next
    case False
    then show thesis
      by (intro that [where t = t1 and f = f1 and w = "Suc (cs_writes u)"]) (simp add: w1 pre)
  qed
qed

text \<open>Beginning the output writes that, and nothing else changes.\<close>

lemma begin_output_stream_ok:
  assumes os: "writes_ok os" "can_open os (cs_data s)" "descriptors_ok (cs_data s)"
    and hdr: "have_pcap_header (cs_parser s)" "\<not> wrote_pcap_header (cs_parser s)"
      "read_pcap_hdr hb = Some (pcap_header (cs_parser s))" "length hb = 24"
  obtains s' where "begin_output_stream os s = Some (s', True)"
    "settings (cs_data s') = settings (cs_data s)" "process (cs_data s') = process (cs_data s)"
    "write_handle (cs_data s') \<noteq> INVALID_HANDLE_VALUE" "triggered (cs_data s')"
    "dropped_packets (cs_data s') = dropped_packets (cs_data s)"
    "cs_parser s' = (cs_parser s)\<lparr>wrote_pcap_header := True\<rparr>"
    "cs_output s' = cs_output s @ preamble (cs_data s) hb"
proof -
  let ?h = "pcap_header (cs_parser s)"
  obtain hd oc where d: "open_output_handle_if_needed os (cs_data s) =
      ((cs_data s)\<lparr>write_handle := hd, output_created := oc\<rparr>, True)" "hd \<noteq> INVALID_HANDLE_VALUE"
    by (rule open_output_ok [OF os(2)])
  let ?u = "s\<lparr>cs_data := (cs_data s)\<lparr>write_handle := hd, output_created := oc\<rparr>\<rparr>"
  have hb: "pcap_hdr_bytes ?h = hb" using pcap_hdr_bytes_read [OF hdr(3)] hdr(4) by simp
  obtain t f w where w: "(if injects ?h (descriptors_len (descriptors (cs_data ?u)))
      then write_data os (write_data os ?u hb) (descriptor_bytes (cs_data ?u)) else write_data os ?u hb) =
     ?u\<lparr>cs_data := (cs_data ?u)\<lparr>last_flush_tick := t\<rparr>,
       cs_output := cs_output ?u @ preamble (cs_data ?u) hb, cs_writes := w, cs_flushes := f\<rparr>"
    by (rule write_preamble [of os ?u hb ?h]) (use os d hdr in \<open>simp_all add: descriptors_ok_def\<close>)
  obtain t1 f1 where w1: "write_data os ?u hb = ?u\<lparr>cs_data := (cs_data ?u)\<lparr>last_flush_tick := t1\<rparr>,
      cs_output := cs_output ?u @ hb, cs_writes := Suc (cs_writes ?u), cs_flushes := f1\<rparr>"
    by (rule write_data_ok [of os ?u hb]) (use os d hdr in simp_all)
  have rd: "mem_read (inj_descriptors (descriptors (cs_data s))) 0
      (nat (descriptors_len (descriptors (cs_data s)))) = Some (descriptor_bytes (cs_data s))"
    using os(3) by (simp add: descriptors_ok_def mem_read_Some)
  have pre: "preamble (cs_data ?u) hb = preamble (cs_data s) hb"
    by (rule settings_cong(2)) (simp add: settings_def)
  let ?s2 = "?u\<lparr>cs_data := (cs_data ?u)\<lparr>last_flush_tick := t\<rparr>,
       cs_output := cs_output ?u @ preamble (cs_data ?u) hb, cs_writes := w, cs_flushes := f\<rparr>"
  have "descriptors (cs_data (write_data os ?u hb)) = descriptors (cs_data s)" by (simp add: w1)
  then have "begin_output_stream os s = Some (upd_data (triggered_update (\<lambda>_. True))
       (?s2\<lparr>cs_parser := (cs_parser ?s2)\<lparr>wrote_pcap_header := True\<rparr>\<rparr>), True)"
    unfolding w [symmetric] using hdr(1,2) d(1) rd by (simp add: begin_output_stream_def hb Let_def)
  then show thesis
    by (rule that) (use d pre in \<open>simp_all add: settings_def\<close>)
qed

section \<open>One record\<close>

text \<open>
  The state after the file header hb and the complete records R: the invariant of the parse
  loop.
\<close>

definition run_inv :: "thread_data \<Rightarrow> bytes \<Rightarrow> bytes list \<Rightarrow> capture_state \<Rightarrow> bool" where
  "run_inv d0 hb R s \<longleftrightarrow>
     settings (cs_data s) = settings d0 \<and> process (cs_data s) \<and> parser_wf (cs_parser s) \<and>
     have_pcap_header (cs_parser s) \<and> read_pcap_hdr hb = Some (pcap_header (cs_parser s)) \<and>
     triggered (cs_data s) = begun d0 R \<and> wrote_pcap_header (cs_parser s) = begun d0 R \<and>
     (begun d0 R \<longrightarrow> write_handle (cs_data s) \<noteq> INVALID_HANDLE_VALUE) \<and>
     dropped_packets (cs_data s) = of_nat (length R - length (kept d0 R)) \<and>
     cs_output s = (if begun d0 R then preamble d0 hb @ concat (kept d0 R) else [])"

definition run_ok :: "os_env \<Rightarrow> thread_data \<Rightarrow> bytes \<Rightarrow> bool" where
  "run_ok os d0 hb \<longleftrightarrow> writes_ok os \<and> descriptors_ok d0 \<and> length hb = 24 \<and>
     (store_mode d0 = USBPCAP_STORE_MODE_IMMEDIATE \<or> store_mode d0 = USBPCAP_STORE_MODE_ON_MATCH)"

lemma kept_append [simp]:
  "kept d (R @ [r]) = (if record_matches d r then kept d R @ [r] else kept d R)"
  by (simp add: kept_def)

lemma kept_le: "length (kept d R) \<le> length R"
  by (simp add: kept_def)

lemma begun_append: "begun d (R @ [r]) \<longleftrightarrow> begun d R \<or> record_matches d r"
  by (auto simp: begun_def)

text \<open>The record is written when it matches, and counted as dropped when it does not.\<close>

lemma deliver_record_ok:
  assumes ok: "run_ok os d0 hb" "can_open os (cs_data s)" and inv: "run_inv d0 hb R s"
    and len: "length r < 2 ^ 32"
  obtains s' b where "deliver_record os s (record_matches d0 r) r = Some (s', True)"
    "run_inv d0 hb (R @ [r]) s'" "cs_parser s' = (cs_parser s)\<lparr>wrote_pcap_header := b\<rparr>"
    "can_open os (cs_data s')"
proof (cases "record_matches d0 r")
  case False
  have "Suc (length R) - length (kept d0 R) = Suc (length R - length (kept d0 R))"
    using kept_le [of d0 R] by simp
  with False inv ok(2) show thesis
    by (intro that [where b = "wrote_pcap_header (cs_parser s)"
        and s' = "upd_data (\<lambda>d. d\<lparr>dropped_packets := dropped_packets d + 1\<rparr>) s"])
      (simp_all add: deliver_record_def run_inv_def begun_append settings_def can_open_def)
next
  case True
  note mode = settings_cong(7) [of "cs_data s" d0]
  show thesis
  proof (cases "begun d0 R")
    case b: True
    obtain t f where w: "write_data os s r = s\<lparr>cs_data := (cs_data s)\<lparr>last_flush_tick := t\<rparr>,
        cs_output := cs_output s @ r, cs_writes := Suc (cs_writes s), cs_flushes := f\<rparr>"
      by (rule write_data_ok [of os s r]) (use ok inv len b in \<open>simp_all add: run_ok_def run_inv_def\<close>)
    have "deliver_record os s True r = Some (write_data os s r, True)"
      using inv b by (auto simp: deliver_record_def run_inv_def)
    with True b inv ok(2) w show thesis
      by (intro that [where b = "wrote_pcap_header (cs_parser s)" and s' = "write_data os s r"])
        (simp_all add: run_inv_def begun_append settings_def can_open_def)
  next
    case b: False
    have onm: "store_mode (cs_data s) = USBPCAP_STORE_MODE_ON_MATCH"
      using b ok(1) inv mode by (auto simp: begun_def run_ok_def run_inv_def)
    obtain s1 where s1: "begin_output_stream os s = Some (s1, True)"
      "settings (cs_data s1) = settings (cs_data s)" "process (cs_data s1) = process (cs_data s)"
      "write_handle (cs_data s1) \<noteq> INVALID_HANDLE_VALUE" "triggered (cs_data s1)"
      "dropped_packets (cs_data s1) = dropped_packets (cs_data s)"
      "cs_parser s1 = (cs_parser s)\<lparr>wrote_pcap_header := True\<rparr>"
      "cs_output s1 = cs_output s @ preamble (cs_data s) hb"
      by (rule begin_output_stream_ok [of os s hb])
        (use ok inv b settings_cong(6) [of "cs_data s" d0] in \<open>simp_all add: run_ok_def run_inv_def\<close>)
    obtain t f where w: "write_data os s1 r = s1\<lparr>cs_data := (cs_data s1)\<lparr>last_flush_tick := t\<rparr>,
        cs_output := cs_output s1 @ r, cs_writes := Suc (cs_writes s1), cs_flushes := f\<rparr>"
      by (rule write_data_ok [of os s1 r]) (use ok s1 len in \<open>simp_all add: run_ok_def\<close>)
    have "store_mode (cs_data s1) = store_mode (cs_data s)" by (rule settings_cong(7) [OF s1(2)])
    then have run: "deliver_record os s True r = Some (write_data os s1 r, True)"
      using s1 onm b inv by (simp add: deliver_record_def run_inv_def)
    have pre: "preamble (cs_data s) hb = preamble d0 hb" "kept d0 R = []"
      using inv b settings_cong(2) [of "cs_data s" d0] by (simp_all add: run_inv_def begun_def)
    have wf: "parser_wf ((cs_parser s)\<lparr>wrote_pcap_header := True\<rparr>)"
      using inv by (simp add: run_inv_def parser_wf_def)
    show thesis
      by (rule that [where b = True and s' = "write_data os s1 r"])
        (use True run b inv ok(2) w s1 pre wf in
          \<open>simp_all add: run_inv_def begun_append settings_def can_open_def\<close>)
  qed
qed

section \<open>The parse loop\<close>

lemma read_packet_header_Some:
  assumes "27 \<le> length m"
  shows "\<exists>h. read_packet_header m = Some h"
proof -
  obtain irp where "read64 m 2 = Some irp"
    using assms un32_total [of "take 4 (drop 2 m)"] un32_total [of "take 4 (drop 6 m)"]
    by (auto simp: read64_def mem_read_def un64_def drop_take)
  then show ?thesis
    using assms read16_total [of 0 m] read32_total [of 10 m] read16_total [of 14 m]
      read8_total [of 16 m] read16_total [of 17 m] read16_total [of 19 m] read8_total [of 21 m]
      read8_total [of 22 m] read32_total [of 23 m]
    by (auto simp: read_packet_header_def)
qed

lemma read_packet_header_fields:
  "read_packet_header m = Some h \<Longrightarrow> read16 m 19 = Some (ph_device h) \<and>
     read8 m 21 = Some (ph_endpoint h) \<and> read8 m 22 = Some (ph_transfer h)"
  by (auto simp: read_packet_header_def bind_eq_Some_conv)

lemma read_packet_header_short: "length m < 27 \<Longrightarrow> read_packet_header m = None"
  by (simp add: read_packet_header_def bind_eq_None_conv read32_def mem_read_def)

text \<open>The tool's filter decides what the reference says, and reads only inside the record.\<close>

lemma app_packet_matches_ok:
  assumes "16 + unat incl \<le> length m"
  shows "app_packet_matches d (drop 16 m) incl = Some (record_matches d (take (16 + unat incl) m))"
proof -
  let ?m = "drop 16 m"
  have rec: "drop 16 (take (16 + unat incl) m) = take (unat incl) ?m"
    by (simp add: drop_take)
  show ?thesis
  proof (cases "incl < 27")
    case True
    then have "read_packet_header (take (unat incl) ?m) = None"
      by (intro read_packet_header_short) (simp add: word_less_nat_alt)
    with True show ?thesis by (simp add: app_packet_matches_def record_matches_def rec Let_def)
  next
    case False
    then have len: "27 \<le> unat incl" "27 \<le> length ?m"
      using assms by (simp_all add: word_less_nat_alt)
    obtain h where h: "read_packet_header ?m = Some h"
      using read_packet_header_Some [OF len(2)] by blast
    note f = read_packet_header_fields [OF this]
    have "record_matches d (take (16 + unat incl) m) \<longleftrightarrow>
        \<not> enabled (app_filter d) \<or> filter_accepts (app_filter d) (metadata d) h"
      using read_headers_take(3) [OF len] h(1) by (simp add: record_matches_def rec)
    moreover have "app_packet_matches d ?m incl =
        Some (\<not> enabled (app_filter d) \<or> filter_accepts (app_filter d) (metadata d) h)"
      using False by (auto simp: app_packet_matches_def filter_accepts_def f Let_def not_less not_le)
    ultimately show ?thesis by simp
  qed
qed

lemma read_pcaprec_hdr_pnd:
  "parser_wf p \<Longrightarrow> 16 \<le> length (pnd p) \<Longrightarrow> read_pcaprec_hdr (pending p) = read_pcaprec_hdr (pnd p)"
  using read_headers_take(1) [of "unat (pending_len p)" "pending p"] parser_wf_length [of p]
  by (simp add: length_pnd) (simp add: pnd_def)

lemma unat_total_length:
  "16 + unat n < 2 ^ 32 \<Longrightarrow> unat (16 + n :: u32) = 16 + unat n"
  by (simp add: unat_word_ariths)

lemma parse_step_stop:
  assumes wf: "parser_wf (cs_parser s)" "have_pcap_header (cs_parser s)"
    and "length (pnd (cs_parser s)) < 16 \<or>
      (\<exists>r. read_pcaprec_hdr (pnd (cs_parser s)) = Some r \<and>
         length (pnd (cs_parser s)) < 16 + unat (incl_len r) \<and> 16 + unat (incl_len r) < 2 ^ 32)"
  shows "parse_step os s = Some (s, False)"
proof -
  note len = length_pnd [OF wf(1)]
  have skip: "take_pcap_header os s = Some (s, True)"
    using wf(2) by (simp add: take_pcap_header_def)
  show ?thesis
  proof (cases "length (pnd (cs_parser s)) < 16")
    case True
    with skip len show ?thesis by (simp add: parse_step_def word_less_nat_alt)
  next
    case False
    with assms(3) obtain r where r: "read_pcaprec_hdr (pnd (cs_parser s)) = Some r"
      "length (pnd (cs_parser s)) < 16 + unat (incl_len r)" "16 + unat (incl_len r) < 2 ^ 32"
      by blast
    have "read_pcaprec_hdr (pending (cs_parser s)) = Some r"
      using read_pcaprec_hdr_pnd [OF wf(1)] False r(1) by simp
    with skip len r False wf(2) show ?thesis
      by (simp add: parse_step_def word_less_nat_alt unat_total_length)
  qed
qed

text \<open>With a complete record pending the step delivers it and consumes its bytes.\<close>

lemma parse_step_deliver:
  assumes wf: "parser_wf (cs_parser s)" "have_pcap_header (cs_parser s)"
    and r: "read_pcaprec_hdr (pnd (cs_parser s)) = Some r"
      "16 + unat (incl_len r) \<le> length (pnd (cs_parser s))"
    and rec: "rec = take (16 + unat (incl_len r)) (pnd (cs_parser s))"
  shows "parse_step os s = do {
      (s1, ok1) \<leftarrow> deliver_record os s (record_matches (cs_data s) rec) rec;
      if \<not> ok1 then Some (s1, False)
      else do { p1 \<leftarrow> consume_pending (cs_parser s1) (16 + incl_len r);
                Some (s1\<lparr>cs_parser := p1\<rparr>, True) } }"
    and "unat (16 + incl_len r) = 16 + unat (incl_len r)" "16 + unat (incl_len r) < 2 ^ 32"
    and "16 + incl_len r \<le> pending_len (cs_parser s)"
proof -
  let ?p = "cs_parser s" and ?n = "16 + unat (incl_len r)"
  note len = length_pnd [OF wf(1)] parser_wf_length [OF wf(1)]
  show small: "?n < 2 ^ 32" using r(2) len(1) unat_u32_lt [of "pending_len ?p"] by simp
  show n: "unat (16 + incl_len r) = ?n" by (rule unat_total_length [OF small])
  show le: "16 + incl_len r \<le> pending_len (cs_parser s)"
    using r(2) len n by (simp add: word_le_nat_alt)
  have hdr: "read_pcaprec_hdr (pending ?p) = Some r"
    using read_pcaprec_hdr_pnd [OF wf(1)] r by simp
  have rec': "take ?n (pending ?p) = rec" using r(2) len by (simp add: pnd_def rec)
  have "?n \<le> length (pending ?p)" using r(2) len by simp
  then have matched: "app_packet_matches (cs_data s) (drop 16 (pending ?p)) (incl_len r) =
      Some (record_matches (cs_data s) rec)"
    using app_packet_matches_ok [of "incl_len r" "pending ?p" "cs_data s"] by (simp add: rec')
  have read: "mem_read (pending ?p) 0 (unat (16 + incl_len r)) = Some rec"
    using r(2) len n by (simp add: mem_read_Some rec')
  have "take_pcap_header os s = Some (s, True)"
    using wf(2) by (simp add: take_pcap_header_def)
  moreover have "\<not> pending_len ?p < 16" "\<not> pending_len ?p < 16 + incl_len r"
    using r(2) len n by (simp_all add: word_less_nat_alt)
  ultimately show "parse_step os s = do {
      (s1, ok1) \<leftarrow> deliver_record os s (record_matches (cs_data s) rec) rec;
      if \<not> ok1 then Some (s1, False)
      else do { p1 \<leftarrow> consume_pending (cs_parser s1) (16 + incl_len r);
                Some (s1\<lparr>cs_parser := p1\<rparr>, True) } }"
    using wf(2) by (simp add: parse_step_def hdr matched read)
qed

text \<open>The pending bytes after the record was consumed.\<close>

lemma consume_record:
  assumes "parser_wf p" "16 + n \<le> pending_len p" "unat (16 + n) = 16 + unat n"
  obtains q where "consume_pending (p\<lparr>wrote_pcap_header := b\<rparr>) (16 + n) = Some q"
    "parser_wf q" "pnd q = drop (16 + unat n) (pnd p)" "have_pcap_header q = have_pcap_header p"
    "wrote_pcap_header q = b" "pcap_header q = pcap_header p"
proof -
  let ?p = "p\<lparr>wrote_pcap_header := b\<rparr>"
  have "parser_wf ?p" "16 + n \<le> pending_len ?p" "pnd ?p = pnd p"
    using assms(1,2) by (simp_all add: parser_wf_def pnd_def)
  then obtain m where "consume_pending ?p (16 + n) =
      Some (?p\<lparr>pending := m, pending_len := pending_len ?p - (16 + n)\<rparr>)"
    "parser_wf (?p\<lparr>pending := m, pending_len := pending_len ?p - (16 + n)\<rparr>)"
    "pnd (?p\<lparr>pending := m, pending_len := pending_len ?p - (16 + n)\<rparr>) = drop (16 + unat n) (pnd p)"
    using consume_pending_ok [of ?p "16 + n"] assms(3) by metis
  then show thesis by (rule that) simp_all
qed

lemma parse_step_record:
  assumes ok: "run_ok os d0 hb" "can_open os (cs_data s)" and inv: "run_inv d0 hb R s"
    and r: "read_pcaprec_hdr (pnd (cs_parser s)) = Some r"
      "16 + unat (incl_len r) \<le> length (pnd (cs_parser s))"
  obtains s' where "parse_step os s = Some (s', True)"
    "run_inv d0 hb (R @ [take (16 + unat (incl_len r)) (pnd (cs_parser s))]) s'"
    "pnd (cs_parser s') = drop (16 + unat (incl_len r)) (pnd (cs_parser s))"
    "can_open os (cs_data s')"
proof -
  let ?p = "cs_parser s" and ?rec = "take (16 + unat (incl_len r)) (pnd (cs_parser s))"
  have wf: "parser_wf ?p" "have_pcap_header ?p" and set: "settings (cs_data s) = settings d0"
    using inv by (simp_all add: run_inv_def)
  note step = parse_step_deliver [OF wf r refl]
  have "length ?rec < 2 ^ 32" using r(2) step(3) by (simp add: min_absorb2)
  then obtain s1 b where s1: "deliver_record os s (record_matches d0 ?rec) ?rec = Some (s1, True)"
    "run_inv d0 hb (R @ [?rec]) s1" "cs_parser s1 = ?p\<lparr>wrote_pcap_header := b\<rparr>"
    "can_open os (cs_data s1)"
    using deliver_record_ok [OF ok inv, of ?rec] by blast
  obtain q where q: "consume_pending (cs_parser s1) (16 + incl_len r) = Some q"
    "parser_wf q" "pnd q = drop (16 + unat (incl_len r)) (pnd ?p)"
    "have_pcap_header q = have_pcap_header ?p" "wrote_pcap_header q = b"
    "pcap_header q = pcap_header ?p"
    using consume_record [OF wf(1) step(4,2), of b] unfolding s1(3) by blast
  have "parse_step os s = Some (s1\<lparr>cs_parser := q\<rparr>, True)"
    using step(1) s1(1) q(1) settings_cong(1) [OF set] by simp
  then show thesis
    by (rule that) (use s1(2-4) q in \<open>simp_all add: run_inv_def\<close>)
qed

text \<open>
  The loop delivers exactly the complete records of the pending bytes and keeps the rest.
\<close>

lemma parse_loop_ok:
  assumes "run_ok os d0 hb" "can_open os (cs_data s)" "run_inv d0 hb R s"
    and "records_below (2 ^ 32 - 1) (pnd (cs_parser s))"
  shows "\<exists>s'. parse_loop os s = Some s' \<and> can_open os (cs_data s') \<and>
     run_inv d0 hb (R @ fst (split_records (pnd (cs_parser s)))) s' \<and>
     pnd (cs_parser s') = snd (split_records (pnd (cs_parser s)))"
  using assms
proof (induction "pnd (cs_parser s)" arbitrary: s R rule: split_records.induct)
  case 1
  let ?b = "pnd (cs_parser s)"
  have go: "process (cs_data s)" and wf: "parser_wf (cs_parser s)" "have_pcap_header (cs_parser s)"
    using "1.prems" by (simp_all add: run_inv_def)
  have stop: ?case if "parse_step os s = Some (s, False)" "split_records ?b = ([], ?b)"
    using that go "1.prems" by (simp add: parse_loop.simps [of os s])
  show ?case
  proof (cases ?b rule: split_records_cases)
    case short
    with stop parse_step_stop [OF wf] show ?thesis by blast
  next
    case (partial r)
    then have "16 + unat (incl_len r) < 2 ^ 32"
      using "1.prems"(4) by (simp add: records_below_def)
    with stop parse_step_stop [OF wf] partial show ?thesis by blast
  next
    case (complete r)
    let ?n = "16 + unat (incl_len r)"
    obtain s1 where s1: "parse_step os s = Some (s1, True)" "run_inv d0 hb (R @ [take ?n ?b]) s1"
      "pnd (cs_parser s1) = drop ?n ?b" "can_open os (cs_data s1)"
      using parse_step_record [OF "1.prems"(1-3) complete(1,2)] by metis
    have "records_below (2 ^ 32 - 1) (drop ?n ?b)"
      using "1.prems"(4) complete(3) by (simp add: records_below_def)
    then obtain s' where "parse_loop os s1 = Some s'" "can_open os (cs_data s')"
      "run_inv d0 hb ((R @ [take ?n ?b]) @ fst (split_records (drop ?n ?b))) s'"
      "pnd (cs_parser s') = snd (split_records (drop ?n ?b))"
      using "1.hyps" [OF complete(1) refl _ s1(3) [symmetric] "1.prems"(1) s1(4,2)]
        complete(2) s1(3) by (auto simp: not_less)
    moreover from this have "parse_loop os s = Some s'"
      using go s1(1) by (simp add: parse_loop.simps [of os s])
    ultimately show ?thesis using complete(3) by simp
  qed
qed

section \<open>A chunk\<close>

text \<open>The state after the bytes S of the stream.\<close>

definition consumed :: "os_env \<Rightarrow> thread_data \<Rightarrow> bytes \<Rightarrow> capture_state \<Rightarrow> bool" where
  "consumed os d0 S s \<longleftrightarrow> can_open os (cs_data s) \<and>
     (if length S < 24
      then settings (cs_data s) = settings d0 \<and> process (cs_data s) \<and> parser_wf (cs_parser s) \<and>
           \<not> have_pcap_header (cs_parser s) \<and> \<not> wrote_pcap_header (cs_parser s) \<and>
           \<not> triggered (cs_data s) \<and> dropped_packets (cs_data s) = 0 \<and> cs_output s = [] \<and>
           pnd (cs_parser s) = S
      else run_inv d0 (take 24 S) (fst (split_records (drop 24 S))) s \<and>
           pnd (cs_parser s) = snd (split_records (drop 24 S)))"

definition parses :: "thread_data \<Rightarrow> bool" where
  "parses d \<longleftrightarrow> enabled (app_filter d) \<or> store_mode d \<noteq> USBPCAP_STORE_MODE_IMMEDIATE"

lemma pnd_upto_flags [simp]:
  "pnd (p\<lparr>wrote_pcap_header := b\<rparr>) = pnd p" "pnd (p\<lparr>have_pcap_header := b\<rparr>) = pnd p"
  "pnd (p\<lparr>pcap_header := h\<rparr>) = pnd p"
  "parser_wf (p\<lparr>wrote_pcap_header := b\<rparr>) = parser_wf p"
  "parser_wf (p\<lparr>have_pcap_header := b\<rparr>) = parser_wf p"
  "parser_wf (p\<lparr>pcap_header := h\<rparr>) = parser_wf p"
  by (simp_all add: pnd_def parser_wf_def)

text \<open>The file header is taken from the front of the pending bytes.\<close>

lemma take_pcap_header_ok:
  assumes ok: "run_ok os d0 (take 24 S)" "24 \<le> length S"
    and s: "settings (cs_data s) = settings d0" "process (cs_data s)" "parser_wf (cs_parser s)"
      "\<not> have_pcap_header (cs_parser s)" "\<not> wrote_pcap_header (cs_parser s)"
      "\<not> triggered (cs_data s)" "dropped_packets (cs_data s) = 0" "cs_output s = []"
      "pnd (cs_parser s) = S" "can_open os (cs_data s)"
  obtains s' where "take_pcap_header os s = Some (s', True)" "run_inv d0 (take 24 S) [] s'"
    "pnd (cs_parser s') = drop 24 S" "can_open os (cs_data s')"
proof -
  let ?p = "cs_parser s"
  note len = length_pnd [OF s(3)] parser_wf_length [OF s(3)]
  have "24 \<le> unat (pending_len ?p)" using ok(2) s(9) len by simp
  then have n: "24 \<le> pending_len ?p" by (simp add: word_le_nat_alt)
  obtain h where h: "read_pcap_hdr S = Some h" using read_pcap_hdr_Some [OF ok(2)] by blast
  then have h24: "read_pcap_hdr (take 24 S) = Some h" using read_headers_take(2) ok(2) by simp
  have hp: "read_pcap_hdr (pending ?p) = Some h"
    using h read_headers_take(2) [of "unat (pending_len ?p)" "pending ?p"] n s(9) len ok(2)
    by (simp add: pnd_def)
  obtain m where m: "consume_pending (?p\<lparr>pcap_header := h\<rparr>) 24 =
      Some (?p\<lparr>pcap_header := h, pending := m, pending_len := pending_len ?p - 24\<rparr>)"
    "parser_wf (?p\<lparr>pcap_header := h, pending := m, pending_len := pending_len ?p - 24\<rparr>)"
    "pnd (?p\<lparr>pcap_header := h, pending := m, pending_len := pending_len ?p - 24\<rparr>) = drop 24 S"
    using consume_pending_ok [of "?p\<lparr>pcap_header := h\<rparr>" 24] s(3,9) n by auto
  let ?s1 = "s\<lparr>cs_parser := ?p\<lparr>pcap_header := h, pending := m, pending_len := pending_len ?p - 24,
      have_pcap_header := True\<rparr>\<rparr>"
  have run: "take_pcap_header os s = (if store_mode (cs_data s) = USBPCAP_STORE_MODE_IMMEDIATE
      then begin_output_stream os ?s1 else Some (?s1, True))"
    using s(4) n by (simp add: take_pcap_header_def hp m(1) Let_def)
  note set = settings_cong(2,6,7) [OF s(1)]
  show thesis
  proof (cases "store_mode (cs_data s) = USBPCAP_STORE_MODE_IMMEDIATE")
    case True
    obtain s' where s': "begin_output_stream os ?s1 = Some (s', True)"
      "settings (cs_data s') = settings (cs_data ?s1)" "process (cs_data s') = process (cs_data ?s1)"
      "write_handle (cs_data s') \<noteq> INVALID_HANDLE_VALUE" "triggered (cs_data s')"
      "dropped_packets (cs_data s') = dropped_packets (cs_data ?s1)"
      "cs_parser s' = (cs_parser ?s1)\<lparr>wrote_pcap_header := True\<rparr>"
      "cs_output s' = cs_output ?s1 @ preamble (cs_data ?s1) (take 24 S)"
      by (rule begin_output_stream_ok [of os ?s1 "take 24 S"])
        (use ok s set h24 in \<open>simp_all add: run_ok_def\<close>)
    show thesis
      by (rule that [of s'])
        (use True run s' s m h24 set in
          \<open>simp_all add: run_inv_def begun_def kept_def can_open_def\<close>)
  next
    case False
    show thesis
      by (rule that [of ?s1])
        (use False run s m h24 set in
          \<open>simp_all add: run_inv_def begun_def kept_def can_open_def\<close>)
  qed
qed

lemma split_records_left:
  assumes "records_below M b" "16 \<le> M"
  shows "length (snd (split_records b)) \<le> M"
proof -
  have "length b \<le> M \<or> split_records b \<noteq> ([], b)" if "records_below M b" for b
    using that assms(2)
    by (cases b rule: split_records_cases) (auto simp: records_below_def)
  moreover have "split_records (snd (split_records b)) = ([], snd (split_records b))"
  proof (induction b rule: split_records.induct)
    case (1 b)
    then show ?case by (cases b rule: split_records_cases) auto
  qed
  moreover from this have "records_below M (snd (split_records b))"
    using assms(1) by (simp add: records_below_def)
  ultimately show ?thesis by fastforce
qed

lemma records_below_prefix:
  assumes "records_below M (a @ c)"
  shows "records_below M a"
proof -
  let ?rest = "snd (split_records a)"
  have "16 + unat (incl_len r) \<le> M" if r: "read_pcaprec_hdr ?rest = Some r" for r
  proof -
    have "16 \<le> length ?rest" using r read_pcaprec_hdr_None [of ?rest] by fastforce
    then have r': "read_pcaprec_hdr (?rest @ c) = Some r" using r by (simp add: read_pcaprec_hdr_append)
    show ?thesis
      using assms r' by (cases "?rest @ c" rule: split_records_cases)
        (auto simp: records_below_def split_records_append [of a c])
  qed
  then show ?thesis
    using assms by (auto simp: records_below_def split_records_append [of a c] split: option.splits)
qed

text \<open>The environment of a run, for every file header.\<close>

definition env_ok :: "os_env \<Rightarrow> thread_data \<Rightarrow> bool" where
  "env_ok os d0 \<longleftrightarrow> writes_ok os \<and> descriptors_ok d0 \<and>
     (store_mode d0 = USBPCAP_STORE_MODE_IMMEDIATE \<or> store_mode d0 = USBPCAP_STORE_MODE_ON_MATCH)"

lemma run_ok_env: "env_ok os d0 \<Longrightarrow> 24 \<le> length S \<Longrightarrow> run_ok os d0 (take 24 S)"
  by (simp add: env_ok_def run_ok_def)

lemma consumed_settings: "consumed os d0 S s \<Longrightarrow> settings (cs_data s) = settings d0"
  by (auto simp: consumed_def run_inv_def split: if_splits)

lemma consumed_parser: "consumed os d0 S s \<Longrightarrow> parser_wf (cs_parser s) \<and> process (cs_data s)"
  by (auto simp: consumed_def run_inv_def split: if_splits)

text \<open>The loop started with at least a file header pending and none taken yet.\<close>

lemma parse_loop_header:
  assumes env: "env_ok os d0" "24 \<le> length S"
    and s: "settings (cs_data s) = settings d0" "process (cs_data s)" "parser_wf (cs_parser s)"
      "\<not> have_pcap_header (cs_parser s)" "\<not> wrote_pcap_header (cs_parser s)"
      "\<not> triggered (cs_data s)" "dropped_packets (cs_data s) = 0" "cs_output s = []"
      "pnd (cs_parser s) = S" "can_open os (cs_data s)"
    and "records_below (2 ^ 32 - 1) (drop 24 S)"
  shows "\<exists>s'. parse_loop os s = Some s' \<and> consumed os d0 S s'"
proof -
  note ok = run_ok_env [OF env]
  obtain s1 where s1: "take_pcap_header os s = Some (s1, True)" "run_inv d0 (take 24 S) [] s1"
    "pnd (cs_parser s1) = drop 24 S" "can_open os (cs_data s1)"
    using take_pcap_header_ok [OF ok env(2) s] by blast
  have "take_pcap_header os s1 = Some (s1, True)"
    using s1(2) by (simp add: take_pcap_header_def run_inv_def)
  then have "parse_step os s = parse_step os s1" using s1(1) by (simp add: parse_step_def)
  then have "parse_loop os s = parse_loop os s1"
    using s(2) s1(2) by (simp add: parse_loop.simps [of os s] parse_loop.simps [of os s1] run_inv_def)
  with parse_loop_ok [OF ok s1(4,2)] assms(13) s1(3) env(2) show ?thesis
    by (auto simp: consumed_def)
qed

lemma process_data_ok:
  assumes env: "env_ok os d0" and par: "parses d0" and s: "consumed os d0 S s"
    and size: "length (pnd (cs_parser s)) + length chunk \<le> 2 ^ 31"
    and below: "records_below (2 ^ 32 - 1) (drop 24 (S @ chunk))"
  shows "\<exists>s'. process_data os s chunk = Some s' \<and> consumed os d0 (S @ chunk) s'"
proof -
  have set: "settings (cs_data s) = settings d0" and wf: "parser_wf (cs_parser s)"
    and go: "process (cs_data s)"
    using consumed_settings [OF s] consumed_parser [OF s] by simp_all
  have os: "\<forall>c. os_realloc os c" using env by (simp add: env_ok_def writes_ok_def)
  obtain p' m q where q: "ensure_pending_capacity os (cs_parser s) (of_nat (length chunk)) = Some (p', True)"
    "mem_write (pending p') (unat (pending_len p')) chunk = Some m"
    "q = p'\<lparr>pending := m, pending_len := pending_len p' + of_nat (length chunk)\<rparr>"
    "parser_wf q" "pnd q = pnd (cs_parser s) @ chunk"
    "have_pcap_header q = have_pcap_header (cs_parser s)"
    "wrote_pcap_header q = wrote_pcap_header (cs_parser s)"
    "pcap_header q = pcap_header (cs_parser s)"
    using feed_pending [OF wf os] size length_pnd [OF wf] by metis
  let ?s = "s\<lparr>cs_parser := q\<rparr>"
  have run: "process_data os s chunk = parse_loop os ?s"
    unfolding process_data_def q(1,3)
    using par settings_cong(7,8) [OF set] q(2) by (auto simp: parses_def)
  show ?thesis
  proof (cases "length S < 24")
    case False
    have inv: "run_inv d0 (take 24 S) (fst (split_records (drop 24 S))) ?s" "can_open os (cs_data ?s)"
      "pnd (cs_parser ?s) = snd (split_records (drop 24 S)) @ chunk"
      using s False q by (simp_all add: consumed_def run_inv_def)
    have "records_below (2 ^ 32 - 1) (pnd (cs_parser ?s))"
      unfolding inv(3) using below False by (simp add: records_below_def split_records_append [of "drop 24 S" chunk])
    from parse_loop_ok [OF run_ok_env [OF env] inv(2,1) this, unfolded inv(3)] False show ?thesis
      by (auto simp: run consumed_def split_records_append [of "drop 24 S" chunk])
  next
    case True
    note c = s [unfolded consumed_def if_P [OF True]]
    show ?thesis
    proof (cases "length (S @ chunk) < 24")
      case False
      then show ?thesis
        unfolding run by (intro parse_loop_header [OF env]) (use c q below in simp_all)
    next
      case short: True
      have "unat (pending_len q) < 24"
        using short c q(5) length_pnd [OF q(4)] by simp
      then have "parse_step os ?s = Some (?s, False)"
        using c q(6) by (simp add: parse_step_def take_pcap_header_def word_le_nat_alt)
      then have "parse_loop os ?s = Some ?s" using go by (simp add: parse_loop.simps [of os ?s])
      then show ?thesis using run c q short by (auto simp: consumed_def)
    qed
  qed
qed

end
