(* ===== verification/CaptureRun.thy ===== *)
theory CaptureRun
  imports CaptureSpec
begin

text \<open>
  The other branch of the capture thread, which passes the stream through unparsed, and the
  event loop: the theorems about a whole run of the thread.
\<close>

section \<open>The branch without a filter\<close>

text \<open>The reference of the branch: the stream with the descriptor packets inserted.\<close>

definition passed_output :: "thread_data \<Rightarrow> bytes \<Rightarrow> bytes" where
  "passed_output d stream =
     (if length stream < 24 then [] else preamble d (take 24 stream) @ drop 24 stream)"

definition passed :: "thread_data \<Rightarrow> bytes \<Rightarrow> capture_state \<Rightarrow> bool" where
  "passed d0 S s \<longleftrightarrow> settings (cs_data s) = settings d0 \<and> process (cs_data s) \<and>
     dropped_packets (cs_data s) = 0 \<and>
     write_handle (cs_data s) \<noteq> INVALID_HANDLE_VALUE \<and>
     buf_written (descriptors (cs_data s)) = of_nat (min 24 (length S)) \<and>
     length (inj_buf (descriptors (cs_data s))) = 24 \<and>
     take (min 24 (length S)) (inj_buf (descriptors (cs_data s))) = take 24 S \<and>
     cs_output s = passed_output d0 S"

lemma write_collected_header_ok:
  assumes "writes_ok os" "write_handle (cs_data u) \<noteq> INVALID_HANDLE_VALUE" "descriptors_ok (cs_data u)"
    and "read_pcap_hdr hb = Some h" "length hb = 24" "inj_buf (descriptors (cs_data u)) = hb"
  obtains t f w where "write_collected_header os u = Some (u\<lparr>cs_data := (cs_data u)\<lparr>last_flush_tick := t\<rparr>,
       cs_output := cs_output u @ preamble (cs_data u) hb, cs_writes := w, cs_flushes := f\<rparr>)"
proof -
  let ?inj = "descriptors (cs_data u)"
  have "mem_read (inj_descriptors ?inj) 0 (nat (descriptors_len ?inj)) = Some (descriptor_bytes (cs_data u))"
    using assms(3) by (simp add: descriptors_ok_def mem_read_Some)
  then have run: "write_collected_header os u = Some (if injects h (descriptors_len ?inj)
      then write_data os (write_data os u hb) (descriptor_bytes (cs_data u)) else write_data os u hb)"
    using assms(4,6) by (simp add: write_collected_header_def Let_def)
  show thesis
    by (rule write_preamble [OF assms(1-5)], rule that, unfold run) simp
qed

lemma write_rest_ok:
  assumes "writes_ok os" "write_handle (cs_data u) \<noteq> INVALID_HANDLE_VALUE" "length b < 2 ^ 32"
  obtains t f w where "(if b = [] then u else write_data os u b) =
    u\<lparr>cs_data := (cs_data u)\<lparr>last_flush_tick := t\<rparr>, cs_output := cs_output u @ b,
      cs_writes := w, cs_flushes := f\<rparr>"
proof (cases "b = []")
  case True
  then show thesis
    by (intro that [where t = "last_flush_tick (cs_data u)" and w = "cs_writes u"
          and f = "cs_flushes u"]) simp
next
  case False
  then show thesis
    by (rule_tac write_data_ok [OF assms]) (auto intro: that)
qed

lemma pass_through_header:
  assumes env: "env_ok os d0" and set: "settings (cs_data s) = settings d0" and s: "passed d0 S s"
    and short: "length S < 24" and len: "length chunk < 2 ^ 32"
  shows "\<exists>s'. pass_through os s chunk = Some s' \<and> passed d0 (S @ chunk) s'"
proof -
  have os: "writes_ok os" and d0: "descriptors_ok d0" using env by (simp_all add: env_ok_def)
  let ?inj = "descriptors (cs_data s)" and ?k = "length S"
  let ?w = "min (24 - ?k) (length chunk)"
  let ?tw = "min (24 - buf_written ?inj) (of_nat (length chunk) :: u32)"
  have bw: "buf_written ?inj = of_nat ?k" "unat (buf_written ?inj) = ?k" "buf_written ?inj < 24"
    using s short by (simp_all add: passed_def unsigned_of_nat take_bit_nat_eq_self word_less_nat_alt)
  have tw: "unat ?tw = ?w"
  proof -
    have "unat (24 - buf_written ?inj) = 24 - ?k"
      using bw(2,3) by (simp add: unat_sub_le less_imp_le)
    moreover have "unat (of_nat (length chunk) :: u32) = length chunk"
      using len by (simp add: unsigned_of_nat take_bit_nat_eq_self)
    ultimately show ?thesis by (simp only: unat_min)
  qed
  have sum: "unat (buf_written ?inj + ?tw) = ?k + ?w"
    using bw(2) tw short by (subst unat_add_lt) simp_all
  let ?buf = "take ?k (inj_buf ?inj) @ take ?w chunk @ drop (?k + ?w) (inj_buf ?inj)"
  have buf: "take ?k (inj_buf ?inj) = S" "length (inj_buf ?inj) = 24"
    using s short by (simp_all add: passed_def min_def)
  have copy: "mem_copy (inj_buf ?inj) (unat (buf_written ?inj)) chunk 0 (unat ?tw) = Some ?buf"
    unfolding tw bw(2) using short buf(2) by (simp add: mem_copy_Some)
  let ?inj1 = "?inj\<lparr>inj_buf := ?buf, buf_written := buf_written ?inj + ?tw\<rparr>"
  let ?s1 = "upd_data (descriptors_update (\<lambda>_. ?inj1)) s"
  have bw1: "buf_written ?inj + ?tw = of_nat (?k + ?w)"
    by (simp only: sum [symmetric] word_of_nat_eq_iff) simp
  have full: "buf_written ?inj + ?tw = 24 \<longleftrightarrow> ?k + ?w = 24"
    using sum by (simp add: word_unat_eq_iff)
  show ?thesis
  proof (cases "?k + ?w = 24")
    case False
    then have "?w = length chunk" "?k + length chunk < 24" using short by auto
    moreover from this False have "pass_through os s chunk = Some ?s1"
      using bw(3) full tw unfolding pass_through_def Let_def copy by simp
    ultimately show ?thesis
      using s buf bw1 set by (simp add: passed_def settings_def passed_output_def)
  next
    case True
    let ?hb = "take 24 (S @ chunk)"
    have hb: "?buf = ?hb" "length ?hb = 24" "24 \<le> ?k + length chunk"
      using True buf short by auto
    obtain h where h: "read_pcap_hdr ?hb = Some h" using read_pcap_hdr_Some [of ?hb] hb by auto
    let ?d1 = "cs_data ?s1" and ?rest = "drop ?w chunk"
    have set1: "settings ?d1 = settings d0" using set by (simp add: settings_def)
    have hnd: "write_handle ?d1 \<noteq> INVALID_HANDLE_VALUE" using s by (simp add: passed_def)
    have desc: "descriptors_ok ?d1" using settings_cong(6) [OF set1] d0 by simp
    have "inj_buf (descriptors ?d1) = ?buf" by simp
    also note hb(1)
    finally have buf1: "inj_buf (descriptors ?d1) = ?hb" .
    obtain t f w where pre: "write_collected_header os ?s1 = Some (?s1\<lparr>cs_data := ?d1\<lparr>last_flush_tick := t\<rparr>,
        cs_output := cs_output ?s1 @ preamble ?d1 ?hb, cs_writes := w, cs_flushes := f\<rparr>)" (is "_ = Some ?s2")
      by (rule write_collected_header_ok [OF os hnd desc h hb(2) buf1])
    have "pass_through os s chunk = (if buf_written ?inj + ?tw = 24
        then write_collected_header os ?s1 else Some ?s1) \<bind>
        (\<lambda>s2. if ?rest = [] then Some s2 else Some (write_data os s2 ?rest))"
      using bw(3) tw unfolding pass_through_def Let_def copy by simp
    then have run: "pass_through os s chunk =
        Some (if ?rest = [] then ?s2 else write_data os ?s2 ?rest)"
      using full True pre by simp
    have out: "passed_output d0 (S @ chunk) = cs_output s @ preamble d0 ?hb @ ?rest"
      using s short hb(3) True by (simp add: passed_output_def passed_def)
    obtain t3 f3 w3 where fin: "(if ?rest = [] then ?s2 else write_data os ?s2 ?rest) =
      ?s2\<lparr>cs_data := (cs_data ?s2)\<lparr>last_flush_tick := t3\<rparr>,
        cs_output := cs_output ?s2 @ ?rest, cs_writes := w3, cs_flushes := f3\<rparr>" (is "_ = ?s3")
      by (rule write_rest_ok [OF os, of ?s2 ?rest]) (use hnd in simp, use len in simp)
    have m: "min 24 (length (S @ chunk)) = 24" using hb(3) by simp
    have t: "take 24 ?hb = ?hb" by (simp only: take_take min.idem)
    have "cs_output ?s3 = passed_output d0 (S @ chunk)"
      using out settings_cong(2) [OF set1] by simp
    moreover have inj: "inj_buf (descriptors (cs_data ?s3)) = ?hb"
      "buf_written (descriptors (cs_data ?s3)) = of_nat 24"
      using hb(1) full True by simp_all
    moreover have "settings (cs_data ?s3) = settings d0" using set by (simp add: settings_def)
    moreover have "process (cs_data ?s3)" "dropped_packets (cs_data ?s3) = 0" "write_handle (cs_data ?s3) \<noteq> INVALID_HANDLE_VALUE"
      using s by (simp_all add: passed_def)
    ultimately have "passed d0 (S @ chunk) ?s3"
      unfolding passed_def m inj t by (intro conjI hb(2)) (rule refl | assumption)+
    then show ?thesis using run fin by simp
  qed
qed

lemma pass_through_ok:
  assumes env: "env_ok os d0" and par: "\<not> parses d0" and s: "passed d0 S s"
    and len: "length chunk < 2 ^ 32"
  shows "\<exists>s'. process_data os s chunk = Some s' \<and> passed d0 (S @ chunk) s'"
proof -
  have os: "writes_ok os" and d0: "descriptors_ok d0" using env by (simp_all add: env_ok_def)
  have set: "settings (cs_data s) = settings d0" using s by (simp add: passed_def)
  have run: "process_data os s chunk = pass_through os s chunk"
    using par settings_cong(7,8) [OF set] by (simp add: process_data_def parses_def)
  have wr: "\<exists>t f. write_data os u b = u\<lparr>cs_data := (cs_data u)\<lparr>last_flush_tick := t\<rparr>,
      cs_output := cs_output u @ b, cs_writes := Suc (cs_writes u), cs_flushes := f\<rparr>"
    if "write_handle (cs_data u) \<noteq> INVALID_HANDLE_VALUE" "length b < 2 ^ 32" for u b
    by (rule write_data_ok [OF os that]) blast
  show ?thesis
  proof (cases "length S < 24")
    case False
    then obtain t f where w: "write_data os s chunk = s\<lparr>cs_data := (cs_data s)\<lparr>last_flush_tick := t\<rparr>,
      cs_output := cs_output s @ chunk, cs_writes := Suc (cs_writes s), cs_flushes := f\<rparr>"
      using wr [of s chunk] s len by (auto simp: passed_def)
    have "pass_through os s chunk = Some (write_data os s chunk)"
      using s False by (simp add: pass_through_def passed_def min_def Let_def)
    with False s show ?thesis
      by (simp add: run w passed_def passed_output_def settings_def)
  next
    case True
    with pass_through_header [OF env set s True len] show ?thesis by (simp add: run)
  qed
qed

section \<open>The thread\<close>

text \<open>The chunks that the thread processes before an event makes it stop.\<close>

fun reads_of :: "thread_event list \<Rightarrow> bytes list" where
  "reads_of [] = []"
| "reads_of (ReadCompleted c # es) = c # reads_of es"
| "reads_of (WriteSignalled # es) = reads_of es"
| "reads_of (PipeReadCompleted broken # es) = (if broken then [] else reads_of es)"
| "reads_of (ExitSignalled # es) = []"
| "reads_of (PipeConnected # es) = reads_of es"
| "reads_of (WaitFailed # es) = []"

text \<open>
  A new thread: the descriptors buffer is empty, nothing was triggered or dropped. The
  parser opens the output itself when it has none, the other branch needs it open.
\<close>

definition thread_start :: "os_env \<Rightarrow> thread_data \<Rightarrow> bool" where
  "thread_start os d \<longleftrightarrow> env_ok os d \<and> process d \<and> \<not> triggered d \<and> dropped_packets d = 0 \<and>
     buf_written (descriptors d) = 0 \<and> length (inj_buf (descriptors d)) = 24 \<and>
     (if parses d then can_open os d else write_handle d \<noteq> INVALID_HANDLE_VALUE)"

text \<open>
  No record and no read is so long that the pending bytes pass 2 GiB: the driver's records
  are at most 16 + snaplen bytes and a read is at most bufferlen bytes.
\<close>

definition stream_ok :: "nat \<Rightarrow> thread_event list \<Rightarrow> bool" where
  "stream_ok M es \<longleftrightarrow> 24 \<le> M \<and> M + M \<le> 2 ^ 31 \<and>
     (\<forall>c\<in>set (reads_of es). length c \<le> M) \<and> records_below M (drop 24 (concat (reads_of es)))"

definition thread_output :: "thread_data \<Rightarrow> bytes \<Rightarrow> bytes" where
  "thread_output d stream = (if parses d then expected_output d stream else passed_output d stream)"

definition thread_dropped :: "thread_data \<Rightarrow> bytes \<Rightarrow> nat" where
  "thread_dropped d stream =
     (if parses d then length (filter (\<lambda>r. \<not> record_matches d r) (fst (split_records (drop 24 stream))))
      else 0)"

definition progress :: "os_env \<Rightarrow> thread_data \<Rightarrow> bytes \<Rightarrow> capture_state \<Rightarrow> bool" where
  "progress os d S s \<longleftrightarrow> (if parses d then consumed os d S s else passed d S s)"

lemma records_below_mono: "records_below M b \<Longrightarrow> M \<le> N \<Longrightarrow> records_below N b"
  by (fastforce simp: records_below_def split: option.splits)

lemma dropped_length:
  "length R - length (kept d R) = length (filter (\<lambda>r. \<not> record_matches d r) R)"
  using sum_length_filter_compl [of "record_matches d" R] by (simp add: kept_def)

lemma split_records_short: "length b < 16 \<Longrightarrow> split_records b = ([], b)"
  by (cases b rule: split_records_cases) auto

lemma progress_output:
  assumes "progress os d S s"
  shows "cs_output s = thread_output d S"
    "dropped_packets (cs_data s) = of_nat (thread_dropped d S)"
proof -
  show "cs_output s = thread_output d S"
    using assms by (auto simp: progress_def thread_output_def consumed_def expected_output_def
        run_inv_def passed_def Let_def split: if_splits)
  show "dropped_packets (cs_data s) = of_nat (thread_dropped d S)"
    using assms by (auto simp: progress_def thread_dropped_def consumed_def run_inv_def
        passed_def dropped_length split_records_short split: if_splits)
qed

lemma progress_step:
  assumes env: "env_ok os d" and s: "progress os d S s" and M: "24 \<le> M" "M + M \<le> 2 ^ 31"
    and c: "length c \<le> M" and below: "records_below M (drop 24 (S @ c))"
  shows "\<exists>s'. process_data os s c = Some s' \<and> progress os d (S @ c) s'"
proof (cases "parses d")
  case True
  then have con: "consumed os d S s" using s by (simp add: progress_def)
  have "drop 24 (S @ c) = drop 24 S @ drop (24 - length S) c" by simp
  then have "records_below M (drop 24 S)" using below records_below_prefix by metis
  then have "length (pnd (cs_parser s)) \<le> M"
    using con M(1) split_records_left [of M "drop 24 S"] by (auto simp: consumed_def split: if_splits)
  then show ?thesis
    using process_data_ok [OF env True con, of c] c M records_below_mono [OF below, of "2 ^ 32 - 1"] True
    by (simp add: progress_def)
next
  case False
  then have "passed d S s" using s by (simp add: progress_def)
  then obtain s' where "process_data os s c = Some s'" "passed d (S @ c) s'"
    using pass_through_ok [OF env False, of S s c] c M by auto
  with False show ?thesis by (simp add: progress_def)
qed

lemma progress_process: "progress os d S s \<Longrightarrow> process (cs_data s)"
  by (auto simp: progress_def passed_def dest: consumed_parser split: if_splits)

lemma event_loop_progress:
  assumes "env_ok os d" "progress os d S s" "24 \<le> M" "M + M \<le> 2 ^ 31"
    and "\<forall>c\<in>set (reads_of es). length c \<le> M" "records_below M (drop 24 (S @ concat (reads_of es)))"
  shows "\<exists>s' n. event_loop os (s, reads) es = Some (s', n) \<and>
     cs_output s' = thread_output d (S @ concat (reads_of es)) \<and>
     dropped_packets (cs_data s') = of_nat (thread_dropped d (S @ concat (reads_of es)))"
  using assms(2,5,6)
proof (induction es arbitrary: s S reads)
  case Nil
  then show ?case by (simp add: progress_output)
next
  case (Cons e es)
  note go = progress_process [OF Cons.prems(1)]
  show ?case
  proof (cases e)
    case (ReadCompleted c)
    have "drop 24 (S @ concat (reads_of (e # es))) =
        drop 24 (S @ c) @ drop (24 - length (S @ c)) (concat (reads_of es))"
      by (simp add: ReadCompleted)
    then have "records_below M (drop 24 (S @ c))"
      using Cons.prems(3) records_below_prefix by metis
    then obtain s' where s': "process_data os s c = Some s'" "progress os d (S @ c) s'"
      using progress_step [OF assms(1) Cons.prems(1) assms(3,4)] Cons.prems(2) ReadCompleted by auto
    then show ?thesis
      using Cons.IH [OF s'(2), of "reads + 1"] Cons.prems(2,3) go ReadCompleted by simp
  next
    case (PipeReadCompleted broken)
    then show ?thesis
      using Cons.IH [OF Cons.prems(1), of reads] Cons.prems go progress_output [OF Cons.prems(1)]
      by (cases broken; cases es) simp_all
  next
    case ExitSignalled
    then show ?thesis
      using go progress_output [OF Cons.prems(1)] by (cases es) simp_all
  next
    case WaitFailed
    then show ?thesis using progress_output [OF Cons.prems(1)] by simp
  qed (use Cons.IH [OF Cons.prems(1)] Cons.prems go in simp_all)
qed

lemma thread_start_progress:
  assumes "thread_start os d"
  shows "progress os d [] \<lparr>cs_data = d, cs_parser = new_parser, cs_output = [], cs_writes = 0,
     cs_flushes = 0\<rparr>"
  using assms new_parser_wf by (simp add: thread_start_def progress_def consumed_def passed_def
      passed_output_def new_parser_def)

section \<open>The properties\<close>

lemma thread_run:
  assumes "thread_start os d" and "stream_ok M es" and "src \<noteq> InvalidSource" and "src \<noteq> PipeSource False"
  shows "\<exists>s n. read_thread os True src d es = Some (s, n, True) \<and>
    cs_output s = thread_output d (concat (reads_of es)) \<and>
    dropped_packets (cs_data s) = of_nat (thread_dropped d (concat (reads_of es)))"
proof -
  have env: "env_ok os d" using assms(1) by (simp add: thread_start_def)
  have mode: "store_mode d = USBPCAP_STORE_MODE_IMMEDIATE \<or> store_mode d = USBPCAP_STORE_MODE_ON_MATCH"
    using env by (simp add: env_ok_def)
  obtain s0 k where init: "thread_init src d = (s0, k)" "progress os d [] s0"
    using assms(3,4) thread_start_progress [OF assms(1)]
    by (cases src) (auto simp: thread_init_def Let_def)
  obtain s' n where run: "event_loop os (s0, k) es = Some (s', n)"
    "cs_output s' = thread_output d (concat (reads_of es))"
    "dropped_packets (cs_data s') = of_nat (thread_dropped d (concat (reads_of es)))"
    using event_loop_progress [OF env init(2), of M es k] assms(2) by (auto simp: stream_ok_def)
  with mode assms(3) init(1) show ?thesis by (auto simp: read_thread_def Let_def)
qed



section \<open>A concrete run\<close>

definition good_env :: os_env where
  "good_env = \<lparr>os_realloc = \<lambda>_. True, os_junk = 0, os_stdout = True, os_create = True,
     os_write = \<lambda>_ n. WritePending True (of_nat n), os_disk = True, os_tick = \<lambda>n. of_nat n * 100\<rparr>"

definition on_match_thread :: thread_data where
  "on_match_thread =
     \<lparr>filename = ''out.pcap'', td_filter = filter_zero, capture_new = False, td_snaplen = 65535,
      bufferlen = 4096, process = True, write_handle = INVALID_HANDLE_VALUE,
      descriptors = \<lparr>inj_descriptors = [1, 2, 3], descriptors_len = 3,
        inj_buf = replicate 24 0, buf_written = 0\<rparr>,
      store_mode = USBPCAP_STORE_MODE_ON_MATCH, triggered = False, output_created = False,
      dropped_packets = 0, last_flush_tick = 0,
      app_filter = \<lparr>enabled = True, has_vendor_id = False, has_product_id = False,
        has_endpoint = True, has_transfer_type = False, flt_vendor_id = 0, flt_product_id = 0,
        flt_endpoint = 0x81, flt_transfer_type = 0\<rparr>,
      metadata = replicate 128 \<lparr>present = False, md_vendor_id = 0, md_product_id = 0\<rparr>\<rparr>"

definition example_file_header :: bytes where
  "example_file_header = pcap_hdr_bytes \<lparr>magic_number = 0xA1B2C3D4, version_major = 2,
     version_minor = 4, thiszone = 0, sigfigs = 0, hdr_snaplen = 65535, network = 249\<rparr>"

definition example_record :: "u8 \<Rightarrow> bytes" where
  "example_record ep =
     pcaprec_hdr_bytes \<lparr>ts_sec = 1, ts_usec = 2, incl_len = 27, orig_len = 27\<rparr> @
     packet_header_bytes \<lparr>ph_headerLen = 27, ph_irpId = 5, ph_status = 0, ph_function = 9,
       ph_info = 0, ph_bus = 1, ph_device = 4, ph_endpoint = ep, ph_transfer = 3,
       ph_dataLength = 0\<rparr>"

definition example_events :: "thread_event list" where
  "example_events =
     [ReadCompleted (take 10 example_file_header), WriteSignalled,
      ReadCompleted (drop 10 example_file_header @ take 20 (example_record 2)),
      ReadCompleted (drop 20 (example_record 2) @ example_record 0x81),
      ExitSignalled]"

lemma example_split:
  "split_records (example_record 2 @ example_record 0x81) = ([example_record 2, example_record 0x81], [])"
  "length (example_record ep) = 43" "length example_file_header = 24"
  using split_records_record [of "packet_header_bytes h" r "example_record 0x81" for h r]
    split_records_record [of "packet_header_bytes h" r "[]" for h r]
  by (simp_all add: example_record_def example_file_header_def)

lemma example_reads: "concat (reads_of example_events) =
    example_file_header @ example_record 2 @ example_record 0x81"
  by (simp add: example_events_def)

lemma example_stream: "stream_ok 1000 example_events"
proof -
  have "\<forall>c\<in>set (reads_of example_events). length c \<le> 1000"
    by (simp add: example_events_def example_split)
  moreover have "records_below 1000 (drop 24 (concat (reads_of example_events)))"
    using read_pcaprec_hdr_None [of "[]"] by (simp add: example_reads records_below_def example_split)
  ultimately show ?thesis by (simp add: stream_ok_def)
qed

lemma example_start: "thread_start good_env on_match_thread"
  by (simp add: thread_start_def good_env_def on_match_thread_def env_ok_def writes_ok_def
      full_write_def descriptors_ok_def parses_def can_open_def)

lemma example_matches:
  "\<not> record_matches on_match_thread (example_record 2)"
  "record_matches on_match_thread (example_record 0x81)"
  using read_packet_header_bytes [of _ "[]"]
  by (simp_all add: record_matches_def on_match_thread_def example_record_def filter_accepts_def)

lemma example_output:
  "thread_output on_match_thread (concat (reads_of example_events)) =
     example_file_header @ [1, 2, 3] @ example_record 0x81 \<and>
   thread_dropped on_match_thread (concat (reads_of example_events)) = 1"
proof -
  have "read_pcap_hdr example_file_header = Some \<lparr>magic_number = 0xA1B2C3D4, version_major = 2,
     version_minor = 4, thiszone = 0, sigfigs = 0, hdr_snaplen = 65535, network = 249\<rparr>"
    using read_pcap_hdr_bytes [of _ "[]"] by (simp add: example_file_header_def)
  moreover have "parses on_match_thread" by (simp add: parses_def on_match_thread_def)
  moreover have "descriptors on_match_thread = \<lparr>inj_descriptors = [1, 2, 3], descriptors_len = 3,
        inj_buf = replicate 24 0, buf_written = 0\<rparr>" by (simp add: on_match_thread_def)
  ultimately show ?thesis
    by (simp add: thread_output_def thread_dropped_def expected_output_def example_reads example_split
        begun_def kept_def example_matches preamble_def injects_def Let_def)
qed


definition immediate_thread :: thread_data where
  "immediate_thread = on_match_thread\<lparr>store_mode := USBPCAP_STORE_MODE_IMMEDIATE,
     write_handle := OUTPUT_FILE,
     app_filter := (app_filter on_match_thread)\<lparr>enabled := False\<rparr>\<rparr>"

definition accepting_filter :: app_capture_filter where
  "accepting_filter = (app_filter on_match_thread)\<lparr>enabled := True, has_endpoint := False\<rparr>"

lemma accepting_start: "thread_start good_env immediate_thread" "\<not> parses immediate_thread"
    "enabled accepting_filter"
  by (simp_all add: thread_start_def good_env_def on_match_thread_def immediate_thread_def env_ok_def
      writes_ok_def full_write_def descriptors_ok_def parses_def accepting_filter_def)

lemma accepting_record:
  "record_matches (immediate_thread\<lparr>app_filter := accepting_filter\<rparr>) (example_record ep)"
  using read_packet_header_bytes [of _ "[]"]
  by (simp add: record_matches_def accepting_filter_def example_record_def filter_accepts_def
      on_match_thread_def)

lemma accepting_matches:
  "\<forall>r\<in>set (fst (split_records (drop 24 (concat (reads_of example_events))))).
     record_matches (immediate_thread\<lparr>app_filter := accepting_filter\<rparr>) r"
  by (simp add: example_reads example_split accepting_record)


end
