(* ===== verification/CaptureLive.thy ===== *)
theory CaptureLive
  imports CaptureRun
begin

text \<open>
  The capture thread in any environment: allocations and writes may fail, the output may not
  open. Every chunk is still processed to the end without a memory fault, and a failure
  stops the thread. The bound on the record lengths is needed: a record that claims
  0xFFFFFFF0 bytes makes the parse loop run for ever.
\<close>

section \<open>Every operation returns\<close>

lemma settings_upd [simp]:
  "settings (d\<lparr>process := b\<rparr>) = settings d" "settings (d\<lparr>triggered := b\<rparr>) = settings d"
  "settings (d\<lparr>dropped_packets := n\<rparr>) = settings d"
  "settings (d\<lparr>last_flush_tick := t\<rparr>) = settings d"
  "settings (d\<lparr>write_handle := h\<rparr>) = settings d" "settings (d\<lparr>output_created := b\<rparr>) = settings d"
  by (simp_all add: settings_def)

lemma write_data_any [simp]:
  "settings (cs_data (write_data os s b)) = settings (cs_data s)"
  "cs_parser (write_data os s b) = cs_parser s"
  "descriptors (cs_data (write_data os s b)) = descriptors (cs_data s)"
  "triggered (cs_data (write_data os s b)) = triggered (cs_data s)"
  by (simp_all add: write_data_def Let_def)

lemma descriptors_read:
  "descriptors_ok d \<Longrightarrow>
   mem_read (inj_descriptors (descriptors d)) 0 (nat (descriptors_len (descriptors d))) =
     Some (descriptor_bytes d)"
  by (simp add: descriptors_ok_def mem_read_Some)

lemma open_output_any:
  "\<exists>h oc ok. open_output_handle_if_needed os d = (d\<lparr>write_handle := h, output_created := oc\<rparr>, ok)"
proof (cases "write_handle d \<noteq> INVALID_HANDLE_VALUE \<or> (filename d \<noteq> ''-'' \<and> \<not> os_create os)")
  case True
  then have "open_output_handle_if_needed os d =
      (d\<lparr>write_handle := write_handle d, output_created := output_created d\<rparr>,
       write_handle d \<noteq> INVALID_HANDLE_VALUE)"
    by (auto simp: open_output_handle_if_needed_def)
  then show ?thesis by blast
next
  case False
  then show ?thesis by (auto simp: open_output_handle_if_needed_def Let_def)
qed

text \<open>
  What a part of the loop body does to the state: the settings and, up to the header flag,
  the parser stay, and an early return means that the thread stops.
\<close>

definition advances :: "capture_state \<Rightarrow> capture_state \<Rightarrow> bool \<Rightarrow> bool" where
  "advances s s' ok \<longleftrightarrow> settings (cs_data s') = settings (cs_data s) \<and>
     (\<exists>b. cs_parser s' = (cs_parser s)\<lparr>wrote_pcap_header := b\<rparr>) \<and>
     (process (cs_data s') \<longrightarrow> process (cs_data s) \<and> ok)"

lemma advances_refl [simp]: "advances s s True"
proof -
  have "cs_parser s = (cs_parser s)\<lparr>wrote_pcap_header := wrote_pcap_header (cs_parser s)\<rparr>" by simp
  then show ?thesis unfolding advances_def by blast
qed

lemma process_write_data: "process (cs_data (write_data os s b)) \<Longrightarrow> process (cs_data s)"
  by (auto simp: write_data_def Let_def split: if_splits)

lemma advances_trans: "advances s s1 True \<Longrightarrow> advances s1 s2 ok \<Longrightarrow> advances s s2 ok"
  by (auto simp: advances_def)

lemma advances_upto:
  assumes "advances s s' ok" "settings (cs_data t) = settings (cs_data s')"
    "cs_parser t = cs_parser s'" "process (cs_data t) \<Longrightarrow> process (cs_data s') \<and> ok'"
  shows "advances s t ok'"
  using assms by (auto simp: advances_def)

definition outcome :: "capture_state \<Rightarrow> (capture_state \<times> bool) option \<Rightarrow> bool" where
  "outcome s r \<longleftrightarrow> (case r of None \<Rightarrow> False | Some (s', ok) \<Rightarrow> advances s s' ok)"

lemma outcome_Some [simp]: "outcome s (Some (s', ok)) = advances s s' ok"
  by (simp add: outcome_def)

lemma outcomeE: "outcome s r \<Longrightarrow> (\<And>s' ok. r = Some (s', ok) \<Longrightarrow> advances s s' ok \<Longrightarrow> thesis) \<Longrightarrow> thesis"
  by (auto simp: outcome_def split: option.splits)

lemma outcome_dropped [simp]: "advances s (s\<lparr>cs_data := (cs_data s)\<lparr>dropped_packets := n\<rparr>\<rparr>) True"
  by (rule advances_upto [OF advances_refl]) simp_all

lemma begin_output_stream_any:
  assumes "descriptors_ok (cs_data s)" "have_pcap_header (cs_parser s)"
  shows "outcome s (begin_output_stream os s)"
proof -
  obtain h oc ok where opn: "open_output_handle_if_needed os (cs_data s) =
      ((cs_data s)\<lparr>write_handle := h, output_created := oc\<rparr>, ok)"
    using open_output_any by blast
  let ?d = "(cs_data s)\<lparr>write_handle := h, output_created := oc\<rparr>"
  let ?s1 = "write_data os (s\<lparr>cs_data := ?d\<rparr>) (pcap_hdr_bytes (pcap_header (cs_parser s)))"
  have adv: "advances s (upd_data (triggered_update (\<lambda>_. True))
      (u\<lparr>cs_parser := (cs_parser u)\<lparr>wrote_pcap_header := True\<rparr>\<rparr>)) True"
    if "settings (cs_data u) = settings (cs_data s)" "cs_parser u = cs_parser s"
      "process (cs_data u) \<Longrightarrow> process (cs_data s)" for u
    using that unfolding advances_def by auto
  have proc: "process (cs_data ?s1) \<Longrightarrow> process (cs_data s)"
    by (drule process_write_data) simp
  have adv1: "advances s (upd_data (triggered_update (\<lambda>_. True))
      (?s1\<lparr>cs_parser := (cs_parser ?s1)\<lparr>wrote_pcap_header := True\<rparr>\<rparr>)) True"
    by (rule adv) (simp_all add: proc)
  let ?s2 = "write_data os ?s1 (descriptor_bytes (cs_data s))"
  have adv2: "advances s (upd_data (triggered_update (\<lambda>_. True))
      (?s2\<lparr>cs_parser := (cs_parser ?s2)\<lparr>wrote_pcap_header := True\<rparr>\<rparr>)) True"
    by (rule adv) (simp_all, drule process_write_data, rule proc)
  have "advances s (s\<lparr>cs_data := ?d\<lparr>process := False\<rparr>\<rparr>) False"
    by (rule advances_upto [OF advances_refl]) simp_all
  moreover note descriptors_read [OF assms(1)]
  ultimately show ?thesis
    using assms(2) opn adv1 adv2
    by (simp add: begin_output_stream_def Let_def split: bool.split)
qed

lemma deliver_record_any:
  assumes "descriptors_ok (cs_data s)" "have_pcap_header (cs_parser s)"
  shows "outcome s (deliver_record os s matched rec)"
proof (cases matched)
  case False
  then show ?thesis by (simp add: deliver_record_def)
next
  case True
  let ?start = "\<lambda>c s. if c then begin_output_stream os s else Some (s, True)"
  have step: "outcome u (?start c u)" if "advances s u True" for c u
  proof -
    have "descriptors_ok (cs_data u)" "have_pcap_header (cs_parser u)"
      using that assms settings_cong(6) [of "cs_data u" "cs_data s"] by (auto simp: advances_def)
    from begin_output_stream_any [OF this, of os] show ?thesis by simp
  qed
  let ?c1 = "store_mode (cs_data s) = USBPCAP_STORE_MODE_ON_MATCH \<and> \<not> triggered (cs_data s)"
  obtain s1 ok1 where s1: "?start ?c1 s = Some (s1, ok1)" "advances s s1 ok1"
    using step [OF advances_refl] by (rule outcomeE)
  show ?thesis
  proof (cases "ok1 \<and> (store_mode (cs_data s1) = USBPCAP_STORE_MODE_IMMEDIATE \<or> triggered (cs_data s1))")
    case False
    then have "deliver_record os s True rec = Some (s1, ok1)"
      unfolding deliver_record_def if_True s1(1) by auto
    with True s1(2) show ?thesis by simp
  next
    case ok: True
    let ?c2 = "store_mode (cs_data s1) = USBPCAP_STORE_MODE_IMMEDIATE \<and>
        \<not> wrote_pcap_header (cs_parser s1)"
    have adv: "advances s s1 True" using s1(2) ok by simp
    obtain s2 ok2 where s2: "?start ?c2 s1 = Some (s2, ok2)" "advances s1 s2 ok2"
      using step [OF adv] by (rule outcomeE)
    have run: "deliver_record os s True rec =
        (if \<not> ok2 then Some (s2, False) else Some (write_data os s2 rec, True))"
      using ok unfolding deliver_record_def if_True s1(1) by (simp add: s2(1))
    have "advances s s2 ok2" by (rule advances_trans [OF adv s2(2)])
    moreover from this have "advances s (write_data os s2 rec) True"
      by (rule advances_upto) (auto dest: process_write_data simp: advances_def)
    ultimately show ?thesis using True run by (simp split: if_splits)
  qed
qed

text \<open>The parser part of the state after the bytes S, while the thread runs.\<close>

definition parsed :: "thread_data \<Rightarrow> bytes \<Rightarrow> capture_state \<Rightarrow> bool" where
  "parsed d0 S s \<longleftrightarrow> settings (cs_data s) = settings d0 \<and>
     (process (cs_data s) \<longrightarrow> parser_wf (cs_parser s) \<and>
        (if length S < 24 then \<not> have_pcap_header (cs_parser s) \<and>
           \<not> wrote_pcap_header (cs_parser s) \<and> pnd (cs_parser s) = S
         else have_pcap_header (cs_parser s) \<and>
           pnd (cs_parser s) = snd (split_records (drop 24 S))))"

lemma parse_loop_any:
  assumes "settings (cs_data s) = settings d0" "descriptors_ok d0"
    and "parser_wf (cs_parser s)" "have_pcap_header (cs_parser s)"
    and "records_below (2 ^ 32 - 1) (pnd (cs_parser s))"
  shows "\<exists>s'. parse_loop os s = Some s' \<and> settings (cs_data s') = settings d0 \<and>
    (process (cs_data s') \<longrightarrow> parser_wf (cs_parser s') \<and> have_pcap_header (cs_parser s') \<and>
       pnd (cs_parser s') = snd (split_records (pnd (cs_parser s))))"
  using assms
proof (induction "pnd (cs_parser s)" arbitrary: s rule: split_records.induct)
  case 1
  let ?b = "pnd (cs_parser s)"
  note set = "1.prems"(1) and wf = "1.prems"(3,4)
  show ?case
  proof (cases "process (cs_data s)")
    case False
    with set show ?thesis by (simp add: parse_loop.simps [of os s])
  next
    case go: True
    have stop: ?thesis if "parse_step os s = Some (s, False)" "split_records ?b = ([], ?b)"
      using that go "1.prems" by (simp add: parse_loop.simps [of os s])
    show ?thesis
    proof (cases ?b rule: split_records_cases)
      case short
      with stop parse_step_stop [OF wf] show ?thesis by blast
    next
      case (partial r)
      then have "16 + unat (incl_len r) < 2 ^ 32"
        using "1.prems"(5) by (simp add: records_below_def)
      with stop parse_step_stop [OF wf] partial show ?thesis by blast
    next
      case (complete r)
      let ?n = "16 + unat (incl_len r)" and ?rec = "take (16 + unat (incl_len r)) ?b"
      note step = parse_step_deliver [OF wf complete(1,2) refl]
      have "descriptors_ok (cs_data s)" using settings_cong(6) [OF set] "1.prems"(2) by simp
      then obtain s1 ok where s1: "deliver_record os s (record_matches (cs_data s) ?rec) ?rec = Some (s1, ok)"
        "advances s s1 ok"
        using deliver_record_any wf(2) outcomeE by metis
      then obtain b where b: "cs_parser s1 = (cs_parser s)\<lparr>wrote_pcap_header := b\<rparr>"
        "settings (cs_data s1) = settings d0" "process (cs_data s1) \<longrightarrow> ok"
        using set by (auto simp: advances_def)
      show ?thesis
      proof (cases ok)
        case False
        then have "parse_loop os s = Some s1"
          using go step(1) s1(1) by (simp add: parse_loop.simps [of os s])
        with b(2,3) False show ?thesis by simp
      next
        case True
        obtain q where q: "consume_pending (cs_parser s1) (16 + incl_len r) = Some q"
          "parser_wf q" "pnd q = drop ?n ?b" "have_pcap_header q = have_pcap_header (cs_parser s)"
          using consume_record [OF wf(1) step(4,2), of b] unfolding b(1) by blast
        let ?s2 = "s1\<lparr>cs_parser := q\<rparr>"
        have "parse_step os s = Some (?s2, True)" using True step(1) s1(1) q(1) by simp
        then have run: "parse_loop os s = parse_loop os ?s2"
          using go by (simp add: parse_loop.simps [of os s])
        have "records_below (2 ^ 32 - 1) (drop ?n ?b)"
          using "1.prems"(5) complete(3) by (simp add: records_below_def)
        then show ?thesis
          using "1.hyps" [OF complete(1) refl _, of ?s2] complete(2,3) b(2) q(2-4) wf(2) "1.prems"(2)
          by (simp add: run)
      qed
    qed
  qed
qed

lemma ensure_pending_any:
  assumes wf: "parser_wf p" and size: "unat (pending_len p) + unat n \<le> 2 ^ 31"
  shows "\<exists>p' ok. ensure_pending_capacity os p n = Some (p', ok) \<and>
    (ok \<longrightarrow> ensure_pending_capacity (os\<lparr>os_realloc := \<lambda>_. True\<rparr>) p n = Some (p', True))"
proof (cases "pending_len p + n \<le> pending_capacity p")
  case True
  then show ?thesis
    by (intro exI [of _ p] exI [of _ True]) (simp add: ensure_pending_capacity_def)
next
  case False
  let ?r = "pending_len p + n"
  have "unat ?r = unat (pending_len p) + unat n" using size by (simp add: word_nat)
  then have r: "?r \<le> 0x80000000" using size by (simp add: word_le_nat_alt)
  have "\<exists>c. (if pending_capacity p = 0 then Some ?r else grow_capacity ?r (pending_capacity p)) = Some c"
  proof (cases "pending_capacity p = 0")
    case False
    then have "0 < pending_capacity p" by (simp add: word_gt_0)
    then show ?thesis using grow_capacity_ok [OF _ r] False by metis
  qed simp
  then show ?thesis using False by (auto simp: ensure_pending_capacity_def Let_def)
qed

lemma take_pcap_header_any:
  assumes "descriptors_ok (cs_data s)" and "24 \<le> length (pnd (cs_parser s))"
    and s: "parser_wf (cs_parser s)" "\<not> have_pcap_header (cs_parser s)"
  obtains s' ok where "take_pcap_header os s = Some (s', ok)"
    "settings (cs_data s') = settings (cs_data s)" "parser_wf (cs_parser s')"
    "have_pcap_header (cs_parser s')" "pnd (cs_parser s') = drop 24 (pnd (cs_parser s))"
    "process (cs_data s') \<longrightarrow> ok"
proof -
  let ?p = "cs_parser s"
  note len = length_pnd [OF s(1)] parser_wf_length [OF s(1)]
  have n: "24 \<le> pending_len ?p" using assms(2) len by (simp add: word_le_nat_alt)
  obtain h where hp: "read_pcap_hdr (pending ?p) = Some h"
    using read_pcap_hdr_Some [of "pending ?p"] assms(2) len by auto
  obtain m where m: "consume_pending (?p\<lparr>pcap_header := h\<rparr>) 24 =
      Some (?p\<lparr>pcap_header := h, pending := m, pending_len := pending_len ?p - 24\<rparr>)"
    "parser_wf (?p\<lparr>pcap_header := h, pending := m, pending_len := pending_len ?p - 24\<rparr>)"
    "pnd (?p\<lparr>pcap_header := h, pending := m, pending_len := pending_len ?p - 24\<rparr>) = drop 24 (pnd ?p)"
    using consume_pending_ok [of "?p\<lparr>pcap_header := h\<rparr>" 24] s(1) n by auto
  let ?s1 = "s\<lparr>cs_parser := ?p\<lparr>pcap_header := h, pending := m, pending_len := pending_len ?p - 24,
      have_pcap_header := True\<rparr>\<rparr>"
  have run: "take_pcap_header os s = (if store_mode (cs_data s) = USBPCAP_STORE_MODE_IMMEDIATE
      then begin_output_stream os ?s1 else Some (?s1, True))"
    using s(2) n by (simp add: take_pcap_header_def hp m(1) Let_def)
  have "outcome ?s1 (if store_mode (cs_data s) = USBPCAP_STORE_MODE_IMMEDIATE
      then begin_output_stream os ?s1 else Some (?s1, True))"
    using begin_output_stream_any [of ?s1 os] assms(1) by simp
  then obtain s' ok where "take_pcap_header os s = Some (s', ok)" "advances ?s1 s' ok"
    unfolding run [symmetric] by (rule outcomeE)
  then show thesis
    by (intro that [of s' ok]) (use m(2,3) in \<open>auto simp: advances_def\<close>)
qed

lemma parse_step_any:
  assumes "descriptors_ok (cs_data s)"
    and wf: "parser_wf (cs_parser s)" "have_pcap_header (cs_parser s)"
    and below: "records_below (2 ^ 32 - 1) (pnd (cs_parser s))"
  shows "\<exists>s' ok. parse_step os s = Some (s', ok) \<and> settings (cs_data s') = settings (cs_data s) \<and>
    (process (cs_data s') \<longrightarrow> process (cs_data s))"
proof (cases "pnd (cs_parser s)" rule: split_records_cases)
  case short
  with parse_step_stop [OF wf] show ?thesis by blast
next
  case (partial r)
  then have "16 + unat (incl_len r) < 2 ^ 32"
    using below by (simp add: records_below_def)
  with parse_step_stop [OF wf] partial show ?thesis by blast
next
  case (complete r)
  let ?rec = "take (16 + unat (incl_len r)) (pnd (cs_parser s))"
  note step = parse_step_deliver [OF wf complete(1,2) refl]
  obtain s1 ok where s1: "deliver_record os s (record_matches (cs_data s) ?rec) ?rec = Some (s1, ok)"
    "advances s s1 ok"
    using deliver_record_any [OF assms(1) wf(2)] by (rule outcomeE)
  then obtain b where b: "cs_parser s1 = (cs_parser s)\<lparr>wrote_pcap_header := b\<rparr>"
    by (auto simp: advances_def)
  obtain q where "consume_pending (cs_parser s1) (16 + incl_len r) = Some q"
    using consume_record [OF wf(1) step(4,2), of b] unfolding b by blast
  with step(1) s1 show ?thesis by (cases ok) (auto simp: advances_def)
qed

text \<open>Started with no file header taken, the loop takes it as soon as it is there.\<close>

lemma parse_loop_first:
  assumes set: "settings (cs_data s) = settings d0" "descriptors_ok d0"
    and wf: "parser_wf (cs_parser s)" "\<not> have_pcap_header (cs_parser s)"
      "\<not> wrote_pcap_header (cs_parser s)"
    and below: "records_below (2 ^ 32 - 1) (drop 24 (pnd (cs_parser s)))"
  shows "\<exists>s'. parse_loop os s = Some s' \<and> parsed d0 (pnd (cs_parser s)) s'"
proof (cases "process (cs_data s)")
  case False
  with set show ?thesis by (simp add: parse_loop.simps [of os s] parsed_def)
next
  case go: True
  show ?thesis
  proof (cases "length (pnd (cs_parser s)) < 24")
    case True
    then have "unat (pending_len (cs_parser s)) < 24" using length_pnd [OF wf(1)] by simp
    then have "parse_step os s = Some (s, False)"
      using wf(2) by (simp add: parse_step_def take_pcap_header_def word_le_nat_alt)
    then have "parse_loop os s = Some s" using go by (simp add: parse_loop.simps [of os s])
    with True set wf show ?thesis by (simp add: parsed_def)
  next
    case False
    have "descriptors_ok (cs_data s)" using settings_cong(6) [OF set(1)] set(2) by simp
    then obtain s1 ok where s1: "take_pcap_header os s = Some (s1, ok)"
      "settings (cs_data s1) = settings (cs_data s)" "parser_wf (cs_parser s1)"
      "have_pcap_header (cs_parser s1)" "pnd (cs_parser s1) = drop 24 (pnd (cs_parser s))"
      "process (cs_data s1) \<longrightarrow> ok"
      using take_pcap_header_any [of s os] wf False by (metis not_less)
    show ?thesis
    proof (cases "ok \<and> process (cs_data s1)")
      case True
      have "take_pcap_header os s1 = Some (s1, True)"
        using s1(4) by (simp add: take_pcap_header_def)
      then have "parse_step os s = parse_step os s1" using s1(1) True by (simp add: parse_step_def)
      then have "parse_loop os s = parse_loop os s1"
        using go True by (simp add: parse_loop.simps [of os s] parse_loop.simps [of os s1])
      then show ?thesis
        using parse_loop_any [of s1 d0 os] s1(2-5) set below False by (auto simp: parsed_def)
    next
      case stop: False
      have "take_pcap_header os s1 = Some (s1, True)"
        using s1(4) by (simp add: take_pcap_header_def)
      then have "parse_step os s = (if ok then parse_step os s1 else Some (s1, False))"
        using s1(1) by (simp add: parse_step_def)
      moreover have "descriptors_ok (cs_data s1)" using settings_cong(6) [OF s1(2)] settings_cong(6) [OF set(1)] set(2) by simp
      then obtain s2 c where "parse_step os s1 = Some (s2, c)"
        "settings (cs_data s2) = settings (cs_data s1)" "process (cs_data s2) \<longrightarrow> process (cs_data s1)"
        using parse_step_any [of s1 os] s1(3,4,5) below by auto
      ultimately obtain s3 c' where "parse_step os s = Some (s3, c')" "\<not> process (cs_data s3)"
        "settings (cs_data s3) = settings d0"
        using stop s1(2,6) set(1) by (cases ok) auto
      then show ?thesis
        using go by (simp add: parse_loop.simps [of os s] parse_loop.simps [of os s3] parsed_def)
    qed
  qed
qed

lemma process_data_any:
  assumes par: "parses d0" and d0: "descriptors_ok d0" and s: "parsed d0 S s" "process (cs_data s)"
    and size: "length (pnd (cs_parser s)) + length chunk \<le> 2 ^ 31"
    and below: "records_below (2 ^ 32 - 1) (drop 24 (S @ chunk))"
  shows "\<exists>s'. process_data os s chunk = Some s' \<and> parsed d0 (S @ chunk) s'"
proof -
  let ?os = "os\<lparr>os_realloc := \<lambda>_. True\<rparr>"
  have set: "settings (cs_data s) = settings d0" and wf: "parser_wf (cs_parser s)"
    using s by (simp_all add: parsed_def)
  have n: "unat (of_nat (length chunk) :: u32) = length chunk"
    using size by (simp add: unsigned_of_nat take_bit_nat_eq_self)
  obtain p' ok where e: "ensure_pending_capacity os (cs_parser s) (of_nat (length chunk)) = Some (p', ok)"
    "ok \<longrightarrow> ensure_pending_capacity ?os (cs_parser s) (of_nat (length chunk)) = Some (p', True)"
    using ensure_pending_any [OF wf, of "of_nat (length chunk)" os] size length_pnd [OF wf] n by auto
  have mode: "\<not> (\<not> enabled (app_filter (cs_data s)) \<and> store_mode (cs_data s) = USBPCAP_STORE_MODE_IMMEDIATE)"
    using par settings_cong(7,8) [OF set] by (auto simp: parses_def)
  show ?thesis
  proof (cases ok)
    case False
    then have "process_data os s chunk = Some (stop_capture (s\<lparr>cs_parser := p'\<rparr>))"
      unfolding process_data_def e(1) using mode by auto
    with set show ?thesis by (simp add: parsed_def)
  next
    case True
    obtain p1 m q where q: "ensure_pending_capacity ?os (cs_parser s) (of_nat (length chunk)) = Some (p1, True)"
      "mem_write (pending p1) (unat (pending_len p1)) chunk = Some m"
      "q = p1\<lparr>pending := m, pending_len := pending_len p1 + of_nat (length chunk)\<rparr>"
      "parser_wf q" "pnd q = pnd (cs_parser s) @ chunk"
      "have_pcap_header q = have_pcap_header (cs_parser s)"
      "wrote_pcap_header q = wrote_pcap_header (cs_parser s)"
      by (rule feed_pending [OF wf, of ?os chunk]) (use size length_pnd [OF wf] in simp_all)
    let ?s = "s\<lparr>cs_parser := q\<rparr>"
    have "p' = p1" using True e(2) q(1) by simp
    then have run: "process_data os s chunk = parse_loop os ?s"
      unfolding process_data_def e(1) q(3) using mode True q(2) by auto
    have sets: "settings (cs_data ?s) = settings d0" using set by simp
    show ?thesis
    proof (cases "length S < 24")
      case True
      then have "pnd (cs_parser ?s) = S @ chunk" "\<not> have_pcap_header (cs_parser ?s)"
        "\<not> wrote_pcap_header (cs_parser ?s)"
        using s q(5-7) by (simp_all add: parsed_def)
      then show ?thesis
        unfolding run using parse_loop_first [OF sets d0, of os] q(4) below by simp
    next
      case False
      have pn: "pnd (cs_parser ?s) = snd (split_records (drop 24 S)) @ chunk"
        "have_pcap_header (cs_parser ?s)"
        using s False q(5,6) by (simp_all add: parsed_def)
      have "records_below (2 ^ 32 - 1) (pnd (cs_parser ?s))"
        unfolding pn(1) using below False
        by (simp add: records_below_def split_records_append [of "drop 24 S" chunk])
      from parse_loop_any [OF sets d0 _ pn(2) this, of os, unfolded pn(1)] q(4) False show ?thesis
        by (auto simp: run parsed_def split_records_append [of "drop 24 S" chunk])
    qed
  qed
qed

section \<open>Passing through in any environment\<close>

definition collecting :: "thread_data \<Rightarrow> capture_state \<Rightarrow> bool" where
  "collecting d0 s \<longleftrightarrow> settings (cs_data s) = settings d0 \<and>
     buf_written (descriptors (cs_data s)) \<le> 24 \<and>
     length (inj_buf (descriptors (cs_data s))) = 24"

lemma collecting_write [simp]: "collecting d0 (write_data os s b) = collecting d0 s"
  by (simp add: collecting_def)

lemma write_collected_header_any:
  assumes "collecting d0 s" "descriptors_ok d0"
  shows "\<exists>s'. write_collected_header os s = Some s' \<and> collecting d0 s'"
proof -
  have ok: "descriptors_ok (cs_data s)"
    using assms settings_cong(6) [of "cs_data s" d0] by (simp add: collecting_def)
  obtain h where "read_pcap_hdr (inj_buf (descriptors (cs_data s))) = Some h"
    using read_pcap_hdr_Some [of "inj_buf (descriptors (cs_data s))"] assms(1)
    by (auto simp: collecting_def)
  then show ?thesis
    using assms(1) descriptors_read [OF ok] by (simp add: write_collected_header_def Let_def)
qed

lemma pass_through_any:
  assumes s: "collecting d0 s" and d0: "descriptors_ok d0" and len: "length chunk < 2 ^ 32"
  shows "\<exists>s'. pass_through os s chunk = Some s' \<and> collecting d0 s'"
proof (cases "buf_written (descriptors (cs_data s)) < 24")
  case False
  with s show ?thesis by (simp add: pass_through_def Let_def)
next
  case True
  let ?inj = "descriptors (cs_data s)"
  let ?w = "min (24 - buf_written ?inj) (of_nat (length chunk)) :: u32"
  have w: "unat ?w \<le> length chunk" "unat (buf_written ?inj) + unat ?w \<le> 24"
    using True len by (auto simp: unat_sub_le unsigned_of_nat take_bit_nat_eq_self word_less_nat_alt
        word_le_nat_alt min_def)
  obtain buf where buf: "mem_copy (inj_buf ?inj) (unat (buf_written ?inj)) chunk 0 (unat ?w) = Some buf"
    using w s by (simp add: mem_copy_Some collecting_def)
  let ?s1 = "upd_data (descriptors_update (\<lambda>_. ?inj\<lparr>inj_buf := buf,
      buf_written := buf_written ?inj + ?w\<rparr>)) s"
  have "buf_written ?inj + ?w \<le> 24"
    using w(2) by (simp add: word_le_nat_alt unat_add_lt)
  then have s1: "collecting d0 ?s1"
    using s mem_copy_length [OF buf] by (simp add: collecting_def settings_def)
  obtain s2 where s2: "(if buf_written ?inj + ?w = 24 then write_collected_header os ?s1 else Some ?s1) = Some s2"
    "collecting d0 s2"
    using write_collected_header_any [OF s1 d0, of os] s1 by (cases "buf_written ?inj + ?w = 24") auto
  have "pass_through os s chunk = (if buf_written ?inj + ?w = 24
      then write_collected_header os ?s1 else Some ?s1) \<bind>
      (\<lambda>s2. if drop (unat ?w) chunk = [] then Some s2
            else Some (write_data os s2 (drop (unat ?w) chunk)))"
    using True unfolding pass_through_def Let_def buf by simp
  also have "\<dots> = Some (if drop (unat ?w) chunk = [] then s2
      else write_data os s2 (drop (unat ?w) chunk))"
    unfolding s2(1) by simp
  finally show ?thesis using s2(2) by (simp split: if_splits)
qed

section \<open>The thread in any environment\<close>

definition alive :: "thread_data \<Rightarrow> bytes \<Rightarrow> capture_state \<Rightarrow> bool" where
  "alive d S s \<longleftrightarrow> (if parses d then parsed d S s else collecting d s)"

lemma alive_step:
  assumes d: "descriptors_ok d" and s: "alive d S s" "process (cs_data s)"
    and M: "24 \<le> M" "M + M \<le> 2 ^ 31" "length c \<le> M" and below: "records_below M (drop 24 (S @ c))"
  shows "\<exists>s'. process_data os s c = Some s' \<and> alive d (S @ c) s'"
proof (cases "parses d")
  case True
  then have p: "parsed d S s" using s(1) by (simp add: alive_def)
  have "drop 24 (S @ c) = drop 24 S @ drop (24 - length S) c" by simp
  then have "records_below M (drop 24 S)" using below records_below_prefix by metis
  then have "length (pnd (cs_parser s)) \<le> M"
    using p s(2) M(1) split_records_left [of M "drop 24 S"] by (auto simp: parsed_def split: if_splits)
  then show ?thesis
    using process_data_any [OF True d p s(2), of c os] M records_below_mono [OF below, of "2 ^ 32 - 1"] True
    by (simp add: alive_def)
next
  case False
  then have p: "collecting d s" using s(1) by (simp add: alive_def)
  then have "process_data os s c = pass_through os s c"
    using False settings_cong(7,8) [of "cs_data s" d]
    by (simp add: process_data_def parses_def collecting_def)
  with pass_through_any [OF p d, of c os] False M show ?thesis by (simp add: alive_def)
qed

lemma alive_stop: "alive d S s \<Longrightarrow> alive d S (stop_capture s)"
  by (auto simp: alive_def parsed_def collecting_def)

lemma event_loop_stopped: "\<not> process (cs_data s) \<Longrightarrow> event_loop os (s, n) es = Some (s, n)"
  by (cases es) simp_all

lemma event_loop_any:
  assumes "descriptors_ok d" "24 \<le> M" "M + M \<le> 2 ^ 31" and "alive d S s"
    and "\<forall>c\<in>set (reads_of es). length c \<le> M" "records_below M (drop 24 (S @ concat (reads_of es)))"
  shows "\<exists>s' n. event_loop os (s, reads) es = Some (s', n) \<and>
    (ExitSignalled \<in> set es \<and> WaitFailed \<notin> set es \<longrightarrow> \<not> process (cs_data s'))"
  using assms(4-6)
proof (induction es arbitrary: s S reads)
  case Nil
  then show ?case by simp
next
  case (Cons e es)
  show ?case
  proof (cases "process (cs_data s)")
    case False
    then show ?thesis by (simp add: event_loop_stopped)
  next
    case go: True
    note step = alive_step [OF assms(1) Cons.prems(1) go assms(2,3)]
    show ?thesis
    proof (cases e)
      case (ReadCompleted c)
      have "drop 24 (S @ concat (reads_of (e # es))) =
          drop 24 (S @ c) @ drop (24 - length (S @ c)) (concat (reads_of es))"
        by (simp add: ReadCompleted)
      then have "records_below M (drop 24 (S @ c))"
        using Cons.prems(3) records_below_prefix by metis
      then obtain s' where s': "process_data os s c = Some s'" "alive d (S @ c) s'"
        using step [of c os] Cons.prems(2) ReadCompleted by auto
      then show ?thesis
        using Cons.IH [OF s'(2), of "reads + 1"] Cons.prems(2,3) go ReadCompleted by simp
    next
      case (PipeReadCompleted broken)
      then show ?thesis
        using Cons.IH [OF Cons.prems(1), of reads] Cons.prems go
          event_loop_stopped [of "stop_capture s" os reads es]
        by (cases broken) simp_all
    next
      case ExitSignalled
      then show ?thesis
        using go event_loop_stopped [of "stop_capture s" os reads es] by simp
    qed (use Cons.IH [OF Cons.prems(1)] Cons.prems go in simp_all)
  qed
qed

text \<open>A new thread, without any assumption on what the environment does.\<close>

definition thread_wf :: "thread_data \<Rightarrow> bool" where
  "thread_wf d \<longleftrightarrow> descriptors_ok d \<and> buf_written (descriptors d) = 0 \<and>
     length (inj_buf (descriptors d)) = 24 \<and>
     (store_mode d = USBPCAP_STORE_MODE_IMMEDIATE \<or> store_mode d = USBPCAP_STORE_MODE_ON_MATCH)"

text \<open>
  C7. Whatever the environment does (allocations, opening the output and writes may fail at
  any point), the capture thread neither faults nor hangs on a stream of records of bounded
  length: every chunk is processed, the thread function returns, it sets the exit event,
  and once the exit event was signalled it has stopped.
\<close>

theorem capture_thread_returns:
  assumes "thread_wf d" and "stream_ok M es"
  shows "\<exists>s n. read_thread os malloc_ok src d es = Some (s, n, True) \<and>
    (malloc_ok \<and> src \<noteq> InvalidSource \<and> ExitSignalled \<in> set es \<and> WaitFailed \<notin> set es \<longrightarrow>
     \<not> process (cs_data s))"
proof (cases "malloc_ok \<and> src \<noteq> InvalidSource")
  case False
  then show ?thesis by (auto simp: read_thread_def Let_def)
next
  case True
  let ?s = "\<lparr>cs_data = d, cs_parser = new_parser, cs_output = [], cs_writes = 0, cs_flushes = 0\<rparr>"
  have "alive d [] ?s"
    using assms(1) new_parser_wf by (simp add: thread_wf_def alive_def parsed_def collecting_def new_parser_def)
  then obtain s0 k where init: "thread_init src d = (s0, k)" "alive d [] s0"
    using alive_stop [of d "[]" ?s] True by (cases src) (auto simp: thread_init_def Let_def)
  obtain s' n where "event_loop os (s0, k) es = Some (s', n)"
    "ExitSignalled \<in> set es \<and> WaitFailed \<notin> set es \<longrightarrow> \<not> process (cs_data s')"
    using event_loop_any [OF _ _ _ init(2), of M es os k] assms by (auto simp: stream_ok_def thread_wf_def)
  with init(1) True assms(1) show ?thesis by (auto simp: read_thread_def thread_wf_def Let_def)
qed

section \<open>A record that claims 0xFFFFFFF0 bytes\<close>

text \<open>
  The total length 16 + incl_len is computed in 32 bits and wraps to zero, so the check for
  a complete record passes and nothing is consumed.
\<close>

definition endless :: "capture_state \<Rightarrow> bool" where
  "endless s \<longleftrightarrow> process (cs_data s) \<and> triggered (cs_data s) \<and>
     \<not> enabled (app_filter (cs_data s)) \<and> store_mode (cs_data s) = USBPCAP_STORE_MODE_ON_MATCH \<and>
     write_handle (cs_data s) \<noteq> INVALID_HANDLE_VALUE \<and>
     parser_wf (cs_parser s) \<and> have_pcap_header (cs_parser s) \<and> 16 \<le> pending_len (cs_parser s) \<and>
     (\<exists>r. read_pcaprec_hdr (pending (cs_parser s)) = Some r \<and> incl_len r = 0xFFFFFFF0)"

lemma endless_step:
  assumes os: "writes_ok os" and s: "endless s"
  shows "\<exists>s'. parse_step os s = Some (s', True) \<and> endless s'"
proof -
  let ?p = "cs_parser s"
  obtain r where r: "read_pcaprec_hdr (pending ?p) = Some r" "incl_len r = 0xFFFFFFF0"
    using s by (auto simp: endless_def)
  have wf: "parser_wf ?p" "unat (pending_len ?p) \<le> length (pending ?p)"
    using s parser_wf_length by (auto simp: endless_def)
  obtain t f where w: "write_data os s [] = s\<lparr>cs_data := (cs_data s)\<lparr>last_flush_tick := t\<rparr>,
      cs_output := cs_output s @ [], cs_writes := Suc (cs_writes s), cs_flushes := f\<rparr>"
    by (rule write_data_ok [OF os, of s "[]"]) (use s in \<open>simp_all add: endless_def\<close>)
  have c: "consume_pending ?p 0 = Some ?p"
    using wf(2) by (simp add: consume_pending_def mem_copy_Some)
  have matched: "app_packet_matches (cs_data s) m n = Some True" for m n
    using s by (simp add: app_packet_matches_def endless_def Let_def)
  have del: "deliver_record os s True [] = Some (write_data os s [], True)"
    using s by (simp add: deliver_record_def endless_def)
  have hdr: "have_pcap_header ?p" using s by (simp add: endless_def)
  have wrap: "16 + incl_len r = 0" unfolding r(2) by simp
  have len16: "\<not> pending_len ?p < 16" using s by (simp add: endless_def not_less)
  have "parse_step os s = Some (write_data os s [], True)"
    using r(1) wrap matched del c w len16 hdr
    by (simp add: parse_step_def take_pcap_header_def mem_read_def Let_def)
  moreover have "endless (write_data os s [])" using s by (simp add: w endless_def)
  ultimately show ?thesis by blast
qed

lemma parse_loop_endless:
  assumes "parse_loop os s = Some y" "writes_ok os"
  shows "\<not> endless s"
proof -
  have "writes_ok os \<longrightarrow> \<not> endless s"
  proof (rule parse_loop.raw_induct [OF _ assms(1)])
    fix loop :: "os_env \<Rightarrow> capture_state \<Rightarrow> capture_state option" and os s y
    assume IH: "\<And>os s y. loop os s = Some y \<Longrightarrow> writes_ok os \<longrightarrow> \<not> endless s"
      and body: "(if process (cs_data s)
         then parse_step os s \<bind> (\<lambda>(s', continue). if continue then loop os s' else Some s')
         else Some s) = Some y"
    show "writes_ok os \<longrightarrow> \<not> endless s"
    proof (intro impI notI)
      assume os: "writes_ok os" and s: "endless s"
      obtain s' where s': "parse_step os s = Some (s', True)" "endless s'"
        using endless_step [OF os s] by blast
      have "process (cs_data s)" using s by (simp add: endless_def)
      then have "loop os s' = Some y" using body s'(1) by simp
      with IH os s'(2) show False by blast
    qed
  qed
  with assms(2) show ?thesis by simp
qed


definition oversize_parser :: packet_parser_context where
  "oversize_parser = new_parser\<lparr>have_pcap_header := True,
     pending := pcaprec_hdr_bytes \<lparr>ts_sec = 0, ts_usec = 0, incl_len = 0xFFFFFFF0, orig_len = 0\<rparr>,
     pending_len := 16, pending_capacity := 16\<rparr>"


text \<open>An environment in which everything fails.\<close>

definition bad_env :: os_env where
  "bad_env = \<lparr>os_realloc = \<lambda>_. False, os_junk = 0, os_stdout = False, os_create = False,
     os_write = \<lambda>_ _. WriteFailed, os_disk = False, os_tick = \<lambda>_. 0\<rparr>"

theorem capture_thread_returns_witness:
  "\<exists>s n. read_thread bad_env True DeviceSource on_match_thread example_events = Some (s, n, True) \<and>
     \<not> process (cs_data s)"
proof -
  have wf: "thread_wf on_match_thread"
    by (simp add: thread_wf_def on_match_thread_def descriptors_ok_def)
  have "ExitSignalled \<in> set example_events" "WaitFailed \<notin> set example_events"
    by (simp_all add: example_events_def)
  then show ?thesis
    using capture_thread_returns [OF wf example_stream, of bad_env True DeviceSource] by auto
qed

end
