(* ===== verification/Descriptors.thy ===== *)
theory Descriptors
  imports CaptureSpec
begin

text \<open>
  The descriptor packets of the command line tool (descriptors.c): for every connected device
  that the address filter selects, the control transfers that a host would have made to read
  its descriptors and select its configuration, as pcap records to be written after the file
  header. Enumerating the devices and asking a hub for a descriptor are system calls: a
  connected device comes with the answers its hub gives. Allocations that the code does not
  check are taken to succeed.
\<close>

section \<open>Data\<close>

record usb_device_descriptor =
  bLength :: u8
  bDescriptorType :: u8
  bcdUSB :: u16
  bDeviceClass :: u8
  bDeviceSubClass :: u8
  bDeviceProtocol :: u8
  bMaxPacketSize0 :: u8
  idVendor :: u16
  idProduct :: u16
  bcdDevice :: u16
  iManufacturer :: u8
  iProduct :: u8
  iSerialNumber :: u8
  bNumConfigurations :: u8

text \<open>
  The list of packets with head and tail pointer is the list of the packets' bytes; an entry's
  length field is the length of its data.
\<close>

record descriptor_context =
  roothub :: u16
  filter_addresses :: address_filter
  entries :: "bytes list"

text \<open>
  A connected device: DeviceIoControl on its hub takes the request buffer and gives the
  buffer as the call leaves it with the number of bytes returned, or fails.
\<close>

type_synonym node_query = "bytes \<Rightarrow> (bytes \<times> u32) option"

record connected_device =
  cd_port :: u32
  cd_address :: u16
  cd_descriptor :: usb_device_descriptor
  cd_query :: node_query

abbreviation (input) URB_SELECT_CONFIGURATION :: u16 where "URB_SELECT_CONFIGURATION \<equiv> 0"
abbreviation (input) URB_CONTROL_TRANSFER :: u16 where "URB_CONTROL_TRANSFER \<equiv> 8"
abbreviation (input) URB_GET_DESCRIPTOR_FROM_DEVICE :: u16
  where "URB_GET_DESCRIPTOR_FROM_DEVICE \<equiv> 0xB"

section \<open>Asking for a configuration descriptor\<close>

text \<open>A USB_DESCRIPTOR_REQUEST: connection index and set-up packet, 12 bytes, then the data.\<close>

definition descriptor_request :: "u32 \<Rightarrow> u8 \<Rightarrow> nat \<Rightarrow> bytes \<Rightarrow> bytes" where
  "descriptor_request port index nBytes rest =
     le32 port @ [0x80, 6] @ le16 (push_bit 8 2 OR ucast index) @ le16 0 @
     le16 (of_nat (nBytes - 12)) @ rest"

text \<open>The uninitialised bytes of the second, allocated, request are the argument junk.\<close>

definition get_config_descriptor ::
  "u8 \<Rightarrow> bool \<Rightarrow> node_query \<Rightarrow> u32 \<Rightarrow> u8 \<Rightarrow> bytes option option" where
  "get_config_descriptor junk malloc_ok query port index =
     (case query (descriptor_request port index 21 (replicate 9 0)) of
        None \<Rightarrow> Some None
      | Some (buf, returned) \<Rightarrow>
          if returned \<noteq> 21 then Some None
          else do {
            wTotalLength \<leftarrow> read16 buf 14;
            if wTotalLength < 9 \<or> \<not> malloc_ok then Some None
            else
              let nBytes = 12 + unat wTotalLength in
              case query (descriptor_request port index nBytes (replicate (unat wTotalLength) junk)) of
                None \<Rightarrow> Some None
              | Some (buf2, returned2) \<Rightarrow>
                  if returned2 \<noteq> of_nat nBytes then Some None
                  else do {
                    wTotalLength2 \<leftarrow> read16 buf2 14;
                    Some (if unat wTotalLength2 \<noteq> nBytes - 12 then None else Some buf2) } })"

section \<open>The packets\<close>

definition initialize_control_header ::
  "u16 \<Rightarrow> u16 \<Rightarrow> u32 \<Rightarrow> u8 \<Rightarrow> u16 \<Rightarrow> bool \<Rightarrow> bool \<Rightarrow> header_mem" where
  "initialize_control_header bus deviceAddress dataLength stage func fromPDO out =
     ControlHeader
       \<lparr>ph_headerLen = 28, ph_irpId = 0, ph_status = 0, ph_function = func,
        ph_info = (if fromPDO then 1 else 0), ph_bus = bus, ph_device = deviceAddress,
        ph_endpoint = (if out then 0 else 0x80), ph_transfer = USBPCAP_TRANSFER_CONTROL,
        ph_dataLength = dataLength\<rparr> stage"

definition add_to_list :: "descriptor_context \<Rightarrow> bytes \<Rightarrow> descriptor_context" where
  "add_to_list ctx dat = ctx\<lparr>entries := entries ctx @ [dat]\<rparr>"

definition write_setup_packet ::
  "descriptor_context \<Rightarrow> u16 \<Rightarrow> u16 \<Rightarrow> u8 \<Rightarrow> u8 \<Rightarrow> u16 \<Rightarrow> u16 \<Rightarrow> u16 \<Rightarrow> bool \<Rightarrow>
   descriptor_context" where
  "write_setup_packet ctx func deviceAddress bmRequestType bRequest wValue wIndex wLength out =
     add_to_list ctx
       (header_mem_bytes (initialize_control_header (roothub ctx) deviceAddress 8
          USBPCAP_CONTROL_STAGE_SETUP func False out) @
        [bmRequestType, bRequest,
         ucast (wValue AND 0xFF), ucast (drop_bit 8 (wValue AND 0xFF00)),
         ucast (wIndex AND 0xFF), ucast (drop_bit 8 (wIndex AND 0xFF00)),
         ucast (wLength AND 0xFF), ucast (drop_bit 8 (wLength AND 0xFF00))])"

definition write_complete_packet ::
  "descriptor_context \<Rightarrow> u16 \<Rightarrow> u16 \<Rightarrow> bytes \<Rightarrow> nat \<Rightarrow> bool \<Rightarrow> descriptor_context option" where
  "write_complete_packet ctx func deviceAddress payload payload_length out = do {
     dat \<leftarrow> (if payload_length > 0 then mem_read payload 0 payload_length else Some []);
     Some (add_to_list ctx
       (header_mem_bytes (initialize_control_header (roothub ctx) deviceAddress
          (of_nat payload_length) USBPCAP_CONTROL_STAGE_COMPLETE func True out) @ dat)) }"

definition device_descriptor_bytes :: "usb_device_descriptor \<Rightarrow> bytes" where
  "device_descriptor_bytes d =
     [bLength d, bDescriptorType d,
      ucast (bcdUSB d AND 0xFF), ucast (drop_bit 8 (bcdUSB d AND 0xFF00)),
      bDeviceClass d, bDeviceSubClass d, bDeviceProtocol d, bMaxPacketSize0 d,
      ucast (idVendor d AND 0xFF), ucast (drop_bit 8 (idVendor d AND 0xFF00)),
      ucast (idProduct d AND 0xFF), ucast (drop_bit 8 (idProduct d AND 0xFF00)),
      ucast (bcdDevice d AND 0xFF), ucast (drop_bit 8 (bcdDevice d AND 0xFF00)),
      iManufacturer d, iProduct d, iSerialNumber d, bNumConfigurations d]"

definition write_device_descriptor_complete ::
  "descriptor_context \<Rightarrow> u16 \<Rightarrow> usb_device_descriptor \<Rightarrow> descriptor_context" where
  "write_device_descriptor_complete ctx deviceAddress descriptor =
     add_to_list ctx
       (header_mem_bytes (initialize_control_header (roothub ctx) deviceAddress 18
          USBPCAP_CONTROL_STAGE_COMPLETE URB_CONTROL_TRANSFER True False) @
        device_descriptor_bytes descriptor)"

definition descriptor_callback ::
  "u8 \<Rightarrow> bool \<Rightarrow> connected_device \<Rightarrow> descriptor_context \<Rightarrow> descriptor_context option" where
  "descriptor_callback junk malloc_ok dev ctx =
     (let address = cd_address dev in
      if \<not> cmd_USBPcapIsDeviceFiltered (filter_addresses ctx) (uint address) then Some ctx
      else do {
        let ctx1 = write_setup_packet ctx URB_GET_DESCRIPTOR_FROM_DEVICE address 0x80 6
          (push_bit 8 1) 0 18 False;
        let ctx2 = write_device_descriptor_complete ctx1 address (cd_descriptor dev);
        answer \<leftarrow> get_config_descriptor junk malloc_ok (cd_query dev) (cd_port dev) 0;
        case answer of
          None \<Rightarrow> Some ctx2
        | Some request \<Rightarrow> do {
            bmRequest \<leftarrow> read8 request 4;
            bRequest \<leftarrow> read8 request 5;
            wValue \<leftarrow> read16 request 6;
            wIndex \<leftarrow> read16 request 8;
            wLength \<leftarrow> read16 request 10;
            let ctx3 = write_setup_packet ctx2 URB_GET_DESCRIPTOR_FROM_DEVICE address
              bmRequest bRequest wValue wIndex wLength False;
            ctx4 \<leftarrow> write_complete_packet ctx3 URB_CONTROL_TRANSFER address (drop 12 request)
              (unat wLength) False;
            bConfigurationValue \<leftarrow> read8 request 17;
            let ctx5 = write_setup_packet ctx4 URB_SELECT_CONFIGURATION address 0 9
              (ucast bConfigurationValue) 0 0 True;
            write_complete_packet ctx5 URB_SELECT_CONFIGURATION address [] 0 True } })"

section \<open>The records\<close>

text \<open>FILETIME counts 100 ns from 1601; ts is the time of the record.\<close>

definition descriptor_record_header :: "u64 \<Rightarrow> nat \<Rightarrow> pcaprec_hdr" where
  "descriptor_record_header ts len =
     \<lparr>ts_sec = ucast (ts div 10000000 - 11644473600), ts_usec = ucast ((ts mod 10000000) div 10),
      incl_len = of_nat len, orig_len = of_nat len\<rparr>"

fun fill_pcap_packets ::
  "(nat \<Rightarrow> u64) \<Rightarrow> nat \<Rightarrow> bytes list \<Rightarrow> bytes \<Rightarrow> nat \<Rightarrow> bytes option" where
  "fill_pcap_packets now k [] pcap offset = Some pcap"
| "fill_pcap_packets now k (e # es) pcap offset = do {
     p1 \<leftarrow> mem_write pcap offset (pcaprec_hdr_bytes (descriptor_record_header (now k) (length e)));
     p2 \<leftarrow> mem_write p1 (offset + 16) e;
     fill_pcap_packets now (k + 1) es p2 (offset + 16 + length e) }"

definition generate_pcap_packets ::
  "u8 \<Rightarrow> (nat \<Rightarrow> u64) \<Rightarrow> bytes list \<Rightarrow> (bytes \<times> nat) option" where
  "generate_pcap_packets junk now es =
     (let total_length = sum_list (map (\<lambda>e. 16 + length e) es) in
      do { pcap \<leftarrow> fill_pcap_packets now 0 es (replicate total_length junk) 0;
           Some (pcap, total_length) })"

text \<open>
  The number at the end of the device name: the pointer walks back from the last character
  over digits, one further, and then one forward, but not past the start of the name.
\<close>

fun scan_back :: "string \<Rightarrow> nat \<Rightarrow> nat" where
  "scan_back name 0 = 0"
| "scan_back name (Suc i) = (if isdigit (name ! Suc i) then scan_back name i else Suc (Suc i))"

definition roothub_number :: "string \<Rightarrow> u16 option" where
  "roothub_number name =
     (if name = [] then None
      else Some (word_of_int (c_atoi (drop (scan_back name (length name - 1)) name))))"

fun enumerate_devices ::
  "u8 \<Rightarrow> bool \<Rightarrow> connected_device list \<Rightarrow> descriptor_context \<Rightarrow> descriptor_context option" where
  "enumerate_devices junk malloc_ok [] ctx = Some ctx"
| "enumerate_devices junk malloc_ok (d # ds) ctx =
     do { ctx' \<leftarrow> descriptor_callback junk malloc_ok d ctx; enumerate_devices junk malloc_ok ds ctx' }"

definition descriptors_generate_pcap ::
  "u8 \<Rightarrow> bool \<Rightarrow> (nat \<Rightarrow> u64) \<Rightarrow> connected_device list \<Rightarrow> string \<Rightarrow> address_filter \<Rightarrow>
   (bytes \<times> nat) option" where
  "descriptors_generate_pcap junk malloc_ok now devices name flt = do {
     hub \<leftarrow> roothub_number name;
     ctx \<leftarrow> enumerate_devices junk malloc_ok devices
       \<lparr>roothub = hub, filter_addresses = flt, entries = []\<rparr>;
     generate_pcap_packets junk now (entries ctx) }"

section \<open>What the packets are\<close>

text \<open>
  The specification: the packets of one device, given the configuration descriptor its hub
  reports. A set-up packet holds request type, request, value, index and length.
\<close>

definition setup_bytes :: "u8 \<Rightarrow> u8 \<Rightarrow> u16 \<Rightarrow> u16 \<Rightarrow> u16 \<Rightarrow> bytes" where
  "setup_bytes t r v i l = [t, r] @ le16 v @ le16 i @ le16 l"

definition control_packet :: "u16 \<Rightarrow> u16 \<Rightarrow> u8 \<Rightarrow> u16 \<Rightarrow> bool \<Rightarrow> bool \<Rightarrow> bytes \<Rightarrow> bytes" where
  "control_packet bus address stage func fromPDO out payload =
     header_mem_bytes (initialize_control_header bus address (of_nat (length payload)) stage
       func fromPDO out) @ payload"

definition configuration_packets :: "u16 \<Rightarrow> u16 \<Rightarrow> bytes \<Rightarrow> bytes list" where
  "configuration_packets bus address config =
     [control_packet bus address 0 0xB False False
        (setup_bytes 0x80 6 0x200 0 (of_nat (length config))),
      control_packet bus address 3 8 True False config,
      control_packet bus address 0 0 False True (setup_bytes 0 9 (ucast (config ! 5)) 0 0),
      control_packet bus address 3 0 True True []]"

definition device_packets :: "u16 \<Rightarrow> connected_device \<Rightarrow> bytes option \<Rightarrow> bytes list" where
  "device_packets bus dev config =
     [control_packet bus (cd_address dev) 0 0xB False False (setup_bytes 0x80 6 0x100 0 18),
      control_packet bus (cd_address dev) 3 8 True False (device_descriptor_bytes (cd_descriptor dev))] @
     (case config of None \<Rightarrow> [] | Some c \<Rightarrow> configuration_packets bus (cd_address dev) c)"

lemma word_bytes:
  "[ucast (w AND 0xFF), ucast (drop_bit 8 (w AND 0xFF00))] = le16 w" for w :: u16
proof -
  have m: "(0xFF :: u16) = mask 8" "(0xFF00 :: u16) = push_bit 8 (mask 8)"
    by (simp_all add: mask_eq_exp_minus_1 push_bit_eq_mult)
  have "ucast (w AND 0xFF) = (ucast w :: u8)"
    unfolding m by (intro bit_eqI) (auto simp: bit_simps)
  moreover have "ucast (drop_bit 8 (w AND 0xFF00)) = (ucast (drop_bit 8 w) :: u8)"
    unfolding m by (intro bit_eqI) (auto simp: bit_simps)
  ultimately show ?thesis by (simp add: le16_def)
qed

lemma word_bytes_Cons:
  "ucast (w AND 0xFF) # ucast (drop_bit 8 (w AND 0xFF00)) # xs = le16 w @ xs" for w :: u16
  using word_bytes [of w] by (metis append_Cons append_Nil)

lemma write_setup_packet_eq:
  "write_setup_packet ctx func a t r v i l out =
     ctx\<lparr>entries := entries ctx @ [control_packet (roothub ctx) a 0 func False out (setup_bytes t r v i l)]\<rparr>"
  unfolding write_setup_packet_def word_bytes_Cons
  by (simp add: add_to_list_def control_packet_def setup_bytes_def)

lemma length_device_descriptor [simp]: "length (device_descriptor_bytes d) = 18"
  by (simp add: device_descriptor_bytes_def)

lemma write_device_descriptor_complete_eq:
  "write_device_descriptor_complete ctx a d =
     ctx\<lparr>entries := entries ctx @ [control_packet (roothub ctx) a 3 8 True False (device_descriptor_bytes d)]\<rparr>"
  by (simp add: write_device_descriptor_complete_def add_to_list_def control_packet_def)

lemma write_complete_packet_eq:
  assumes "n \<le> length payload"
  shows "write_complete_packet ctx func a payload n out =
     Some (ctx\<lparr>entries := entries ctx @ [control_packet (roothub ctx) a 3 func True out (take n payload)]\<rparr>)"
  using assms by (cases "n = 0")
    (simp_all add: write_complete_packet_def add_to_list_def control_packet_def mem_read_Some min_absorb2)

section \<open>The answers of a hub\<close>

text \<open>
  The documented behaviour of the request: it fails, or it leaves the connection index and the
  set-up packet as they are and puts the requested prefix of the configuration descriptor
  behind them, and reports how many bytes that makes. A configuration descriptor holds its own
  length in its third and fourth byte.
\<close>

definition config_ok :: "bytes \<Rightarrow> bool" where
  "config_ok c \<longleftrightarrow> 9 \<le> length c \<and> length c < 2 ^ 16 \<and> read16 c 2 = Some (of_nat (length c))"

definition hub_answers :: "connected_device \<Rightarrow> bytes option \<Rightarrow> bool" where
  "hub_answers dev config \<longleftrightarrow>
     (case config of
        None \<Rightarrow> \<forall>req. cd_query dev req = None
      | Some c \<Rightarrow> config_ok c \<and>
          (\<forall>n\<in>{9..length c}. \<forall>rest. length rest = n \<longrightarrow>
             cd_query dev (descriptor_request (cd_port dev) 0 (12 + n) rest) =
               Some (take 12 (descriptor_request (cd_port dev) 0 (12 + n) rest) @ take n c,
                     of_nat (12 + n))))"

lemma descriptor_request_head:
  "take 12 (descriptor_request port index n rest) = descriptor_request port index n []"
  "length (descriptor_request port index n []) = 12"
  by (simp_all add: descriptor_request_def le32_def le16_def)

lemma get_config_descriptor_ok:
  assumes "hub_answers dev config"
  shows "get_config_descriptor junk True (cd_query dev) (cd_port dev) 0 =
    Some (map_option (\<lambda>c. descriptor_request (cd_port dev) 0 (12 + length c) [] @ c) config)"
proof (cases config)
  case None
  with assms show ?thesis by (simp add: hub_answers_def get_config_descriptor_def)
next
  case (Some c)
  let ?req = "\<lambda>n rest. descriptor_request (cd_port dev) 0 (12 + n) rest"
  have c: "9 \<le> length c" "length c < 2 ^ 16" "read16 c 2 = Some (of_nat (length c))"
    and q: "\<And>n rest. 9 \<le> n \<Longrightarrow> n \<le> length c \<Longrightarrow> length rest = n \<Longrightarrow>
      cd_query dev (?req n rest) = Some (?req n [] @ take n c, of_nat (12 + n))"
    using assms by (auto simp: Some hub_answers_def config_ok_def descriptor_request_head)
  have len: "unat (of_nat (length c) :: u16) = length c"
    using c(2) by (simp add: unsigned_of_nat take_bit_nat_eq_self)
  have rd: "read16 (?req n [] @ take m c) 14 = Some (of_nat (length c))" if "4 \<le> m" for n m
    using c(1,3) that by (simp add: read_skip descriptor_request_head read_take)
  have q1: "cd_query dev (descriptor_request (cd_port dev) 0 21 (replicate 9 0)) =
      Some (?req 9 [] @ take 9 c, 21)"
    using q [of 9 "replicate 9 0"] c(1) by simp
  have big: "\<not> (of_nat (length c) :: u16) < 9"
    using c(1) len by (simp add: word_less_nat_alt)
  show ?thesis
    using q [of "length c" "replicate (length c) junk"] c(1) big rd [of 9 9] rd [of "length c" "length c"]
    by (simp add: get_config_descriptor_def q1 Some len Let_def)
qed

lemma descriptor_request_fields:
  "read8 (descriptor_request port index n [] @ c) 4 = Some 0x80"
  "read8 (descriptor_request port index n [] @ c) 5 = Some 6"
  "read16 (descriptor_request port 0 n [] @ c) 6 = Some 0x200"
  "read16 (descriptor_request port index n [] @ c) 8 = Some 0"
  "read16 (descriptor_request port index n [] @ c) 10 = Some (of_nat (n - 12))"
  "drop 12 (descriptor_request port index n [] @ c) = c"
  "6 \<le> length c \<Longrightarrow> read8 (descriptor_request port index n [] @ c) 17 = Some (c ! 5)"
  by (simp_all add: descriptor_request_def field_simps_le read8_def nth_append nth_Cons')

lemma descriptor_callback_ok:
  assumes "hub_answers dev config"
  shows "descriptor_callback junk True dev ctx =
    Some (ctx\<lparr>entries := entries ctx @
      (if cmd_USBPcapIsDeviceFiltered (filter_addresses ctx) (uint (cd_address dev))
       then device_packets (roothub ctx) dev config else [])\<rparr>)"
proof (cases "cmd_USBPcapIsDeviceFiltered (filter_addresses ctx) (uint (cd_address dev))")
  case False
  then show ?thesis by (simp add: descriptor_callback_def)
next
  case filtered: True
  show ?thesis
  proof (cases config)
    case None
    with filtered show ?thesis
      by (simp add: descriptor_callback_def get_config_descriptor_ok [OF assms] write_setup_packet_eq
          write_device_descriptor_complete_eq device_packets_def Let_def push_bit_eq_mult)
  next
    case (Some c)
    have c: "6 \<le> length c" "length c < 2 ^ 16"
      using assms by (simp_all add: Some hub_answers_def config_ok_def)
    have len: "unat (of_nat (length c) :: u16) = length c"
      using c(2) by (simp add: unsigned_of_nat take_bit_nat_eq_self)
    show ?thesis
      using filtered c len
      by (simp add: descriptor_callback_def get_config_descriptor_ok [OF assms] Some write_setup_packet_eq
          write_device_descriptor_complete_eq write_complete_packet_eq device_packets_def
          configuration_packets_def Let_def push_bit_eq_mult descriptor_request_fields
          descriptor_request_head)
  qed
qed

section \<open>The whole list\<close>

text \<open>The packets of the devices that the filter selects, in the order of the enumeration.\<close>

fun selected_packets ::
  "address_filter \<Rightarrow> u16 \<Rightarrow> connected_device list \<Rightarrow> bytes option list \<Rightarrow> bytes list" where
  "selected_packets flt bus (d # ds) (c # cs) =
     (if cmd_USBPcapIsDeviceFiltered flt (uint (cd_address d)) then device_packets bus d c else []) @
     selected_packets flt bus ds cs"
| "selected_packets flt bus _ _ = []"

lemma enumerate_devices_ok:
  assumes "list_all2 hub_answers devices configs"
  shows "enumerate_devices junk True devices ctx =
    Some (ctx\<lparr>entries := entries ctx @
      selected_packets (filter_addresses ctx) (roothub ctx) devices configs\<rparr>)"
  using assms
proof (induction devices configs arbitrary: ctx rule: list_all2_induct)
  case Nil
  then show ?case by simp
next
  case (Cons d ds c cs)
  then show ?case by (simp add: descriptor_callback_ok)
qed

lemma length_control_packet: "length (control_packet b a s f p out pay) = 28 + length pay"
  by (simp add: control_packet_def initialize_control_header_def)

lemma device_packets_length:
  assumes "hub_answers dev config" "p \<in> set (device_packets bus dev config)"
  shows "28 \<le> length p" "length p < 2 ^ 16 + 28"
  using assms by (auto simp: device_packets_def configuration_packets_def length_control_packet
      setup_bytes_def hub_answers_def config_ok_def split: option.splits)

lemma selected_packets_length:
  assumes "list_all2 hub_answers devices configs"
  shows "\<forall>p\<in>set (selected_packets flt bus devices configs). 28 \<le> length p \<and> length p < 2 ^ 16 + 28"
  using assms
  by (induction devices configs rule: list_all2_induct) (auto dest: device_packets_length)

definition descriptor_records :: "(nat \<Rightarrow> u64) \<Rightarrow> nat \<Rightarrow> bytes list \<Rightarrow> bytes list" where
  "descriptor_records now k es =
     map (\<lambda>(i, e). pcaprec_hdr_bytes (descriptor_record_header (now i) (length e)) @ e)
       (zip [k..<k + length es] es)"

lemma descriptor_records_Cons:
  "descriptor_records now k (e # es) =
     (pcaprec_hdr_bytes (descriptor_record_header (now k) (length e)) @ e) # descriptor_records now (Suc k) es"
  by (simp add: descriptor_records_def upt_conv_Cons del: upt_Suc)

lemma descriptor_records_payload: "map (drop 16) (descriptor_records now k es) = es"
  by (induction es arbitrary: k) (simp_all add: descriptor_records_Cons, simp add: descriptor_records_def)

lemma fill_pcap_packets_ok:
  assumes "length pcap = offset + sum_list (map (\<lambda>e. 16 + length e) es)"
  shows "fill_pcap_packets now k es pcap offset =
    Some (take offset pcap @ concat (descriptor_records now k es))"
  using assms
proof (induction es arbitrary: k pcap offset)
  case Nil
  then show ?case by (simp add: descriptor_records_def)
next
  case (Cons e es)
  let ?h = "pcaprec_hdr_bytes (descriptor_record_header (now k) (length e))"
  let ?p1 = "take offset pcap @ ?h @ drop (offset + 16) pcap"
  let ?p2 = "take offset pcap @ ?h @ e @ drop (offset + 16 + length e) pcap"
  have "mem_write pcap offset ?h = Some ?p1"
    using Cons.prems by (simp add: mem_write_Some)
  moreover have "mem_write ?p1 (offset + 16) e = Some ?p2"
    using Cons.prems by (simp add: mem_write_Some ac_simps)
  moreover have "length ?p2 = (offset + 16 + length e) + sum_list (map (\<lambda>e. 16 + length e) es)"
    "take (offset + 16 + length e) ?p2 = take offset pcap @ ?h @ e"
    using Cons.prems by simp_all
  ultimately show ?case
    using Cons.IH [of ?p2 "offset + 16 + length e" "Suc k"] by (simp add: descriptor_records_Cons)
qed

lemma generate_pcap_packets_ok:
  "generate_pcap_packets junk now es =
     Some (concat (descriptor_records now 0 es), length (concat (descriptor_records now 0 es)))"
proof -
  have len: "length (concat (descriptor_records now k es)) = sum_list (map (\<lambda>e. 16 + length e) es)" for k
    by (induction es arbitrary: k) (simp_all add: descriptor_records_Cons, simp add: descriptor_records_def)
  show ?thesis
    using fill_pcap_packets_ok [of "replicate (sum_list (map (\<lambda>e. 16 + length e) es)) junk" 0 es now 0]
    by (simp add: generate_pcap_packets_def Let_def len)
qed

lemma split_descriptor_records:
  assumes "\<forall>e\<in>set es. length e < 2 ^ 32"
  shows "split_records (concat (descriptor_records now k es) @ rest) =
    (descriptor_records now k es @ fst (split_records rest), snd (split_records rest))"
  using assms
proof (induction es arbitrary: k)
  case Nil
  then show ?case by (simp add: descriptor_records_def)
next
  case (Cons e es)
  have "length e = unat (incl_len (descriptor_record_header (now k) (length e)))"
    using Cons.prems by (simp add: descriptor_record_header_def unsigned_of_nat take_bit_nat_eq_self)
  from split_records_record [OF this] Cons show ?case
    by (simp add: descriptor_records_Cons)
qed

section \<open>The number of the root hub\<close>

lemma scan_back_digits:
  assumes "\<forall>i. n < i \<and> i \<le> m \<longrightarrow> isdigit (name ! i)" "\<not> isdigit (name ! n)" "0 < n" "n \<le> m"
  shows "scan_back name m = Suc n"
  using assms
proof (induction m)
  case 0
  then show ?case by simp
next
  case (Suc m)
  then show ?case by (cases "n = Suc m") auto
qed

lemma roothub_number_ok:
  assumes "p \<noteq> []" "\<not> isdigit c" "ds \<noteq> []" "\<forall>d\<in>set ds. isdigit d" "dec_val ds \<le> INT_MAX"
  shows "roothub_number (p @ c # ds) = Some (word_of_int (dec_val ds))"
proof -
  let ?name = "p @ c # ds"
  have "isdigit (?name ! i)" if "length p < i \<and> i \<le> length ?name - 1" for i
    using that assms(4) by (auto simp: nth_append nth_Cons')
  then have "scan_back ?name (length ?name - 1) = Suc (length p)"
    using assms(1,2) by (intro scan_back_digits) auto
  moreover obtain d ds' where ds: "ds = d # ds'" using assms(3) by (cases ds) auto
  moreover have tw: "takeWhile isdigit ds' = ds'" using assms(4) ds by (auto simp: takeWhile_eq_all_conv)
  ultimately show ?thesis
    using assms(4,5) by (simp add: roothub_number_def atoi_on_digit tw min_absorb2)
qed

lemma descriptors_generate:
  assumes "list_all2 hub_answers devices configs"
    and "p \<noteq> []" "\<not> isdigit c" "ds \<noteq> []" "\<forall>d\<in>set ds. isdigit d" "dec_val ds \<le> INT_MAX"
  shows "\<exists>pcap rs. descriptors_generate_pcap junk True now devices (p @ c # ds) flt =
      Some (pcap, length pcap) \<and> split_records pcap = (rs, []) \<and>
      map (drop 16) rs = selected_packets flt (word_of_int (dec_val ds)) devices configs"
proof -
  let ?es = "selected_packets flt (word_of_int (dec_val ds)) devices configs"
  have "\<forall>e\<in>set ?es. length e < 2 ^ 32"
    using selected_packets_length [OF assms(1)] by fastforce
  from split_descriptor_records [OF this, of now 0 "[]"]
  have "split_records (concat (descriptor_records now 0 ?es)) = (descriptor_records now 0 ?es, [])"
    by simp
  moreover have "descriptors_generate_pcap junk True now devices (p @ c # ds) flt =
      generate_pcap_packets junk now ?es"
    using roothub_number_ok [OF assms(2-6)] enumerate_devices_ok [OF assms(1)]
    by (simp add: descriptors_generate_pcap_def)
  ultimately show ?thesis
    using generate_pcap_packets_ok [of junk now ?es] descriptor_records_payload by auto
qed

text \<open>
  C6. The descriptor packets are a well-formed sequence of pcap records: split at the lengths
  their headers announce they give exactly, in the order of the enumeration and only for the
  devices the address filter selects, the control transfers of the specification, under the
  bus number at the end of the device name, and nothing is left over. A device whose hub does
  not answer contributes its device descriptor only.
\<close>

theorem descriptors_generate_pcap_correct:
  assumes "list_all2 hub_answers devices configs"
    and "p \<noteq> []" and "\<not> isdigit c" and "ds \<noteq> []" and "\<forall>d\<in>set ds. isdigit d" and "dec_val ds \<le> INT_MAX"
  shows "\<exists>pcap rs. descriptors_generate_pcap junk True now devices (p @ c # ds) flt =
      Some (pcap, length pcap) \<and> split_records pcap = (rs, []) \<and>
      map (drop 16) rs = selected_packets flt (word_of_int (dec_val ds)) devices configs"
  using assms by (rule descriptors_generate)

definition example_config :: bytes where
  "example_config = [9, 2, 9, 0, 0, 1, 0, 0x80, 50]"

definition example_connected :: connected_device where
  "example_connected = \<lparr>cd_port = 1, cd_address = 5,
     cd_descriptor = \<lparr>bLength = 18, bDescriptorType = 1, bcdUSB = 0x200, bDeviceClass = 0,
       bDeviceSubClass = 0, bDeviceProtocol = 0, bMaxPacketSize0 = 64, idVendor = 0x1234,
       idProduct = 0x5678, bcdDevice = 0x100, iManufacturer = 0, iProduct = 0, iSerialNumber = 0,
       bNumConfigurations = 1\<rparr>,
     cd_query = \<lambda>req. Some (take 12 req @ take (length req - 12) example_config, of_nat (length req))\<rparr>"

definition silent_device :: connected_device where
  "silent_device = example_connected\<lparr>cd_address := 6, cd_query := \<lambda>_. None\<rparr>"

lemma example_hub_answers:
  "list_all2 hub_answers [example_connected, silent_device] [Some example_config, None]"
  by (simp add: hub_answers_def silent_device_def example_connected_def config_ok_def example_config_def
      read16_def mem_read_def descriptor_request_def)

theorem descriptors_generate_pcap_correct_witness:
  "\<exists>pcap rs. descriptors_generate_pcap 0 True (\<lambda>_. 0) [example_connected, silent_device]
      (''USBPca'' @ CHR ''p'' # ''3'') (filter_zero\<lparr>filterAll := 1\<rparr>) = Some (pcap, length pcap) \<and>
    split_records pcap = (rs, []) \<and> length rs = 8"
proof -
  obtain pcap rs where r: "descriptors_generate_pcap 0 True (\<lambda>_. 0) [example_connected, silent_device]
      (''USBPca'' @ CHR ''p'' # ''3'') (filter_zero\<lparr>filterAll := 1\<rparr>) = Some (pcap, length pcap)"
    "split_records pcap = (rs, [])"
    "map (drop 16) rs = selected_packets (filter_zero\<lparr>filterAll := 1\<rparr>) (word_of_int (dec_val ''3''))
       [example_connected, silent_device] [Some example_config, None]"
    using descriptors_generate_pcap_correct [OF example_hub_answers, of "''USBPca''" "CHR ''p''" "''3''"
        0 "\<lambda>_. 0" "filter_zero\<lparr>filterAll := 1\<rparr>"]
    by (auto simp: isdigit_def dec_val_def digit_val_def)
  have "length rs = length (map (drop 16) rs)" by simp
  also have "\<dots> = 8"
    unfolding r(3) by (simp add: cmd_USBPcapIsDeviceFiltered_def device_packets_def configuration_packets_def)
  finally show ?thesis using r by blast
qed

end
