(* ===== verification/CaptureBuffer.thy ===== *)
theory CaptureBuffer
  imports PacketFormat
begin

text \<open>
  The buffer's life cycle (USBPcapBuffer.c, lines 225 to 391): the global pcap header, set-up
  and resizing, the snapshot length, removal and re-initialisation. The fifo locale states
  the queue contract of the buffer and what any sequence of writes and reads delivers.

  A pool allocation is an argument: None when the pool is exhausted, otherwise the new block
  with whatever bytes it holds.
\<close>

section \<open>Operations\<close>

text \<open>
  The root hub data as USBPcapAllocateDeviceData fills it in: no buffer, the default
  snapshot length 65535, an empty filter and one reference. The bus number is set later.
\<close>

definition root_data_init :: "u16 \<Rightarrow> root_data" where
  "root_data_init bus =
     \<lparr>buffer = None, bufferSize = 0, readOffset = 0, writeOffset = 0, snaplen = 65535,
      addr_filter = filter_zero, refCount = 1, busId = bus\<rparr>"

definition global_header :: "u32 \<Rightarrow> pcap_hdr" where
  "global_header sl =
     \<lparr>magic_number = 0xA1B2C3D4, version_major = 2, version_minor = 4, thiszone = 0,
      sigfigs = 0, hdr_snaplen = sl, network = DLT_USBPCAP\<rparr>"

definition USBPcapWriteGlobalHeader :: "root_data \<Rightarrow> root_data option" where
  "USBPcapWriteGlobalHeader d =
     map_option fst (USBPcapBufferWrite d (pcap_hdr_bytes (global_header (snaplen d))) 24)"

definition USBPcapSetUpBuffer ::
  "bytes option \<Rightarrow> root_data \<Rightarrow> u32 \<Rightarrow> (root_data \<times> ntstatus) option" where
  "USBPcapSetUpBuffer pool d bytes =
     (if bytes < 4096 \<or> bytes > 134217728 then Some (d, STATUS_INVALID_PARAMETER)
      else case pool of
        None \<Rightarrow> Some (d, STATUS_INSUFFICIENT_RESOURCES)
      | Some blk \<Rightarrow>
          if buffer d = None then do {
            d' \<leftarrow> USBPcapWriteGlobalHeader
                   (d\<lparr>buffer := Some blk, bufferSize := bytes, readOffset := 0,
                      writeOffset := 0\<rparr>);
            Some (d', STATUS_SUCCESS) }
          else let allocated = USBPcapGetBufferAllocated d in
            if allocated \<ge> bytes then Some (d, STATUS_BUFFER_TOO_SMALL)
            else do {
              (d', blk') \<leftarrow>
                (if allocated > 0
                 then map_option (\<lambda>(d', blk', n). (d', blk')) (USBPcapBufferRead d blk bytes)
                 else Some (d, blk));
              Some (d'\<lparr>buffer := Some blk', bufferSize := bytes, readOffset := 0,
                       writeOffset := allocated\<rparr>, STATUS_SUCCESS) })"

definition USBPcapSetSnaplenSize :: "root_data \<Rightarrow> u32 \<Rightarrow> root_data \<times> ntstatus" where
  "USBPcapSetSnaplenSize d bytes =
     (if bytes = 0 then (d, STATUS_INVALID_PARAMETER)
      else if buffer d \<noteq> None then (d, STATUS_UNSUCCESSFUL)
      else (d\<lparr>snaplen := bytes\<rparr>, STATUS_SUCCESS))"

definition USBPcapBufferRemoveBuffer :: "root_data \<Rightarrow> root_data" where
  "USBPcapBufferRemoveBuffer d =
     (if buffer d = None then d
      else d\<lparr>readOffset := 0, writeOffset := 0, buffer := None\<rparr>)"

definition USBPcapBufferInitializeBuffer :: "root_data \<Rightarrow> root_data option" where
  "USBPcapBufferInitializeBuffer d =
     (if buffer d = None then Some d
      else USBPcapWriteGlobalHeader (d\<lparr>readOffset := 0, writeOffset := 0\<rparr>))"

section \<open>Correctness\<close>

lemma contents_fresh:
  "contents (d\<lparr>buffer := Some b, bufferSize := n, readOffset := 0, writeOffset := 0\<rparr>) = []"
  "contents (d\<lparr>readOffset := 0, writeOffset := 0\<rparr>) = []"
  by (auto simp: contents_def split: option.splits)

lemma contents_linear:
  "contents (d\<lparr>buffer := Some y, bufferSize := n, readOffset := 0, writeOffset := w\<rparr>) =
   take (unat w) y"
  by (simp add: contents_def)

lemma WriteGlobalHeader_empty:
  assumes wf: "rb_wf d" and b: "buffer d = Some b" and empty: "contents d = []"
  shows "\<exists>d'. USBPcapWriteGlobalHeader d = Some d' \<and> rb_wf d' \<and> buffer d' \<noteq> None \<and>
    contents d' = pcap_hdr_bytes (global_header (snaplen d)) \<and>
    d' = d\<lparr>buffer := buffer d', writeOffset := writeOffset d'\<rparr>"
proof -
  have "24 \<le> capacity d" using rb_wf_SomeD [OF wf b] by (simp add: capacity_def b)
  then show ?thesis
    using BufferWrite_correct [OF wf, of 24 "pcap_hdr_bytes (global_header (snaplen d))"]
    by (auto simp: USBPcapWriteGlobalHeader_def empty)
qed

lemma SetUpBuffer_cases:
  assumes wf: "rb_wf d" and blk: "length blk = unat bytes"
  shows "\<exists>d' st. USBPcapSetUpBuffer (Some blk) d bytes = Some (d', st) \<and> rb_wf d' \<and>
    (st, contents d', capacity d') =
      (if bytes < 4096 \<or> 134217728 < bytes
       then (STATUS_INVALID_PARAMETER, contents d, capacity d)
       else if buffer d = None
       then (STATUS_SUCCESS, pcap_hdr_bytes (global_header (snaplen d)), unat bytes - 1)
       else if unat bytes \<le> length (contents d)
       then (STATUS_BUFFER_TOO_SMALL, contents d, capacity d)
       else (STATUS_SUCCESS, contents d, unat bytes - 1))"
proof (cases "bytes < 4096 \<or> 134217728 < bytes")
  case True
  then show ?thesis using wf by (auto simp: USBPcapSetUpBuffer_def)
next
  case False
  then have size: "4096 \<le> unat bytes" "unat bytes \<le> 134217728" "bytes \<noteq> 0"
    by (auto simp: word_less_nat_alt)
  show ?thesis
  proof (cases "buffer d")
    case None
    define d0 where "d0 = d\<lparr>buffer := Some blk, bufferSize := bytes, readOffset := 0,
      writeOffset := 0\<rparr>"
    have "rb_wf d0"
      using size blk by (simp add: rb_wf_def d0_def word_less_nat_alt)
    then obtain d' where "USBPcapWriteGlobalHeader d0 = Some d'" "rb_wf d'" "buffer d' \<noteq> None"
      "contents d' = pcap_hdr_bytes (global_header (snaplen d0))"
      "d' = d0\<lparr>buffer := buffer d', writeOffset := writeOffset d'\<rparr>"
      using WriteGlobalHeader_empty [of d0 blk] by (auto simp: d0_def contents_fresh)
    moreover from this(5) have "bufferSize d' = bytes" by (metis (no_types) d0_def
          root_data.select_convs(2) root_data.surjective root_data.update_convs)
    ultimately show ?thesis
      using False None by (auto simp: USBPcapSetUpBuffer_def d0_def [symmetric] capacity_def)
         (simp_all add: d0_def)
  next
    case (Some b)
    have alloc: "unat (USBPcapGetBufferAllocated d) = length (contents d)"
      by (rule allocated_eq [OF wf])
    show ?thesis
    proof (cases "USBPcapGetBufferAllocated d \<ge> bytes")
      case True
      then have "unat bytes \<le> length (contents d)" by (simp add: word_le_nat_alt alloc)
      then show ?thesis using False True Some wf by (auto simp: USBPcapSetUpBuffer_def Let_def)
    next
      case fits: False
      then have room: "length (contents d) < unat bytes" by (simp add: word_le_nat_alt alloc)
      define k where "k = length (contents d)"
      obtain d1 where d1: "USBPcapBufferRead d blk bytes =
          Some (d1, contents d @ drop k blk, of_nat k)" "d1 = d\<lparr>readOffset := readOffset d1\<rparr>"
        using BufferRead_correct [OF wf, of bytes blk] blk room by (auto simp: k_def)
      obtain x y where copy: "(if USBPcapGetBufferAllocated d > 0
          then map_option (\<lambda>(d', blk', n). (d', blk')) (USBPcapBufferRead d blk bytes)
          else Some (d, blk)) = Some (x, y)"
        and y: "length y = unat bytes" "take k y = contents d"
      proof (cases "USBPcapGetBufferAllocated d = 0")
        case True
        then have "contents d = []" using alloc by simp
        then show thesis using that [of d blk] True blk by (simp add: k_def)
      next
        case nz: False
        then show thesis
          using that [of d1 "contents d @ drop k blk"] d1(1) blk room
          by (simp add: k_def word_gt_0)
      qed
      then have "USBPcapSetUpBuffer (Some blk) d bytes =
          Some (x\<lparr>buffer := Some y, bufferSize := bytes, readOffset := 0,
            writeOffset := USBPcapGetBufferAllocated d\<rparr>, STATUS_SUCCESS)"
        using False fits Some by (auto simp: USBPcapSetUpBuffer_def Let_def)
      then show ?thesis
        using False Some room size alloc y
        by (auto simp: rb_wf_def contents_linear capacity_def k_def word_less_nat_alt)
    qed
  qed
qed


lemma rb_wf_init: "rb_wf (root_data_init bus)"
  by (simp add: rb_wf_def root_data_init_def)


lemma SetSnaplenSize_wf: "rb_wf d \<Longrightarrow> rb_wf (fst (USBPcapSetSnaplenSize d bytes))"
  by (auto simp: USBPcapSetSnaplenSize_def rb_wf_def)

lemma RemoveBuffer_wf: "rb_wf d \<Longrightarrow> rb_wf (USBPcapBufferRemoveBuffer d)"
  by (auto simp: USBPcapBufferRemoveBuffer_def rb_wf_def)

lemma RemoveBuffer_buffer [simp]: "buffer (USBPcapBufferRemoveBuffer d) = None"
  by (simp add: USBPcapBufferRemoveBuffer_def)

lemma InitializeBuffer_correct:
  assumes wf: "rb_wf d"
  shows "\<exists>d'. USBPcapBufferInitializeBuffer d = Some d' \<and> rb_wf d' \<and>
    contents d' = (if buffer d = None then [] else pcap_hdr_bytes (global_header (snaplen d)))"
proof (cases "buffer d")
  case None
  with wf show ?thesis by (simp add: USBPcapBufferInitializeBuffer_def)
next
  case (Some b)
  define d0 where "d0 = d\<lparr>readOffset := 0, writeOffset := 0\<rparr>"
  have "rb_wf d0"
    using wf Some rb_wf_SomeD [OF wf Some] by (simp add: rb_wf_def d0_def word_less_nat_alt)
  then show ?thesis
    using WriteGlobalHeader_empty [of d0 b] Some
    by (auto simp: USBPcapBufferInitializeBuffer_def d0_def contents_fresh)
qed

section \<open>The queue contract\<close>

text \<open>
  A bounded byte queue: a put that fits appends and reports True, one that does not (or is
  empty) changes nothing and reports False, a get returns and removes the oldest elements.
\<close>

datatype 'a fifo_op = Put "'a list" | Get nat

fun fifo_run ::
  "('s \<Rightarrow> 'a list \<Rightarrow> ('s \<times> bool) option) \<Rightarrow> ('s \<Rightarrow> nat \<Rightarrow> ('s \<times> 'a list) option) \<Rightarrow>
   's \<Rightarrow> 'a fifo_op list \<Rightarrow> ('s \<times> 'a list \<times> 'a list) option" where
  "fifo_run put get s [] = Some (s, [], [])"
| "fifo_run put get s (Put xs # ops) = do {
     (s1, ok) \<leftarrow> put s xs;
     (s2, acc, out) \<leftarrow> fifo_run put get s1 ops;
     Some (s2, (if ok then xs else []) @ acc, out) }"
| "fifo_run put get s (Get n # ops) = do {
     (s1, ys) \<leftarrow> get s n;
     (s2, acc, out) \<leftarrow> fifo_run put get s1 ops;
     Some (s2, acc, ys @ out) }"

locale byte_fifo =
  fixes wf :: "'s \<Rightarrow> bool"
    and content :: "'s \<Rightarrow> 'a list"
    and cap :: "'s \<Rightarrow> nat"
    and put :: "'s \<Rightarrow> 'a list \<Rightarrow> ('s \<times> bool) option"
    and get :: "'s \<Rightarrow> nat \<Rightarrow> ('s \<times> 'a list) option"
    and op_ok :: "'a fifo_op \<Rightarrow> bool"
  assumes put_fits: "wf s \<Longrightarrow> op_ok (Put xs) \<Longrightarrow> xs \<noteq> [] \<Longrightarrow> length (content s) + length xs \<le> cap s \<Longrightarrow>
      \<exists>s'. put s xs = Some (s', True) \<and> wf s' \<and> content s' = content s @ xs \<and> cap s' = cap s"
    and put_refused: "wf s \<Longrightarrow> op_ok (Put xs) \<Longrightarrow> xs = [] \<or> cap s < length (content s) + length xs \<Longrightarrow>
      put s xs = Some (s, False)"
    and get_front: "wf s \<Longrightarrow> op_ok (Get n) \<Longrightarrow>
      \<exists>s'. get s n = Some (s', take n (content s)) \<and> wf s' \<and> content s' = drop n (content s) \<and>
        cap s' = cap s"
begin

lemma put_cases:
  assumes "wf s" "op_ok (Put xs)"
  obtains s' ok where "put s xs = Some (s', ok)" "wf s'" "cap s' = cap s"
    "content s' = content s @ (if ok then xs else [])"
proof (cases "xs = [] \<or> cap s < length (content s) + length xs")
  case True
  then show thesis using put_refused [OF assms] that [of s False] assms(1) by auto
next
  case False
  then show thesis using put_fits [OF assms] that by fastforce
qed

lemma run_stream:
  "wf s \<Longrightarrow> list_all op_ok ops \<Longrightarrow>
   \<exists>s' acc out. fifo_run put get s ops = Some (s', acc, out) \<and> wf s' \<and> cap s' = cap s \<and>
     content s @ acc = out @ content s'"
proof (induction ops arbitrary: s)
  case Nil
  then show ?case by simp
next
  case (Cons op ops)
  show ?case
  proof (cases op)
    case (Put xs)
    then obtain s1 ok where s1: "put s xs = Some (s1, ok)" "wf s1" "cap s1 = cap s"
      "content s1 = content s @ (if ok then xs else [])"
      using Cons.prems put_cases [of s xs] by auto
    obtain s' acc out where "fifo_run put get s1 ops = Some (s', acc, out)" "wf s'"
      "cap s' = cap s1" "content s1 @ acc = out @ content s'"
      using Cons.IH [OF s1(2)] Cons.prems by auto
    then show ?thesis using s1 Put by (cases ok) auto
  next
    case (Get n)
    then obtain s1 where s1: "get s n = Some (s1, take n (content s))" "wf s1" "cap s1 = cap s"
      "content s1 = drop n (content s)"
      using Cons.prems get_front [of s n] by auto
    obtain s' acc out where run: "fifo_run put get s1 ops = Some (s', acc, out)" "wf s'"
      "cap s' = cap s1" "content s1 @ acc = out @ content s'"
      using Cons.IH [OF s1(2)] Cons.prems by auto
    then have "content s @ acc = (take n (content s) @ out) @ content s'"
      by (metis append.assoc append_take_drop_id s1(4))
    then show ?thesis using run s1 Get by auto
  qed
qed

end

text \<open>The ring buffer's own operations behind that interface.\<close>

definition rb_put :: "root_data \<Rightarrow> bytes \<Rightarrow> (root_data \<times> bool) option" where
  "rb_put d xs = map_option (\<lambda>(d', st). (d', NT_SUCCESS st))
     (USBPcapBufferWrite d xs (word_of_nat (length xs)))"

definition rb_get :: "root_data \<Rightarrow> nat \<Rightarrow> (root_data \<times> bytes) option" where
  "rb_get d n = map_option (\<lambda>(d', dest, k). (d', take (unat k) dest))
     (USBPcapBufferRead d (replicate n 0) (word_of_nat n))"

fun rb_op_ok :: "u8 fifo_op \<Rightarrow> bool" where
  "rb_op_ok (Put xs) = (length xs < 2 ^ 32)"
| "rb_op_ok (Get n) = (n < 2 ^ 32)"

interpretation rb: byte_fifo rb_wf contents capacity rb_put rb_get rb_op_ok
proof unfold_locales
  fix d :: root_data and xs :: bytes and n :: nat
  assume wf: "rb_wf d"
  {
    assume ok: "rb_op_ok (Put xs)"
    then have len: "unat (word_of_nat (length xs) :: u32) = length xs"
      by (simp add: unat_of_nat)
    have zero: "(word_of_nat (length xs) :: u32) = 0 \<longleftrightarrow> xs = []"
      using len by (metis length_0_conv unat_0 unat_eq_zero)
    note w = BufferWrite_correct [OF wf, of "word_of_nat (length xs)" xs, unfolded len zero, simplified]
    show "xs \<noteq> [] \<Longrightarrow> length (contents d) + length xs \<le> capacity d \<Longrightarrow>
      \<exists>s'. rb_put d xs = Some (s', True) \<and> rb_wf s' \<and> contents s' = contents d @ xs \<and>
        capacity s' = capacity d"
    proof -
      assume "xs \<noteq> []" "length (contents d) + length xs \<le> capacity d"
      with w obtain d' where d': "USBPcapBufferWrite d xs (word_of_nat (length xs)) = Some (d', STATUS_SUCCESS)"
        "rb_wf d'" "buffer d' \<noteq> None" "contents d' = contents d @ xs"
        "d' = d\<lparr>buffer := buffer d', writeOffset := writeOffset d'\<rparr>"
        by (auto simp: not_less)
      have "bufferSize d' = bufferSize d" by (subst d'(5)) simp
      moreover have "buffer d \<noteq> None"
        using \<open>xs \<noteq> []\<close> \<open>length (contents d) + length xs \<le> capacity d\<close>
        by (cases "buffer d") (auto simp: capacity_def)
      ultimately show ?thesis using d' by (auto simp: rb_put_def capacity_def)
    qed
    show "xs = [] \<or> capacity d < length (contents d) + length xs \<Longrightarrow> rb_put d xs = Some (d, False)"
      using w by (cases "xs = []") (auto simp: rb_put_def NT_SUCCESS_def)
  }
  {
    assume "rb_op_ok (Get n)"
    then have len: "unat (word_of_nat n :: u32) = n" by (simp add: unat_of_nat)
    obtain d' where d': "USBPcapBufferRead d (replicate n 0) (word_of_nat n) =
        Some (d', take (min (length (contents d)) n) (contents d) @
          drop (min (length (contents d)) n) (replicate n 0), of_nat (min (length (contents d)) n))"
      "rb_wf d'" "contents d' = drop (min (length (contents d)) n) (contents d)"
      "d' = d\<lparr>readOffset := readOffset d'\<rparr>"
      using BufferRead_correct [OF wf, of "word_of_nat n" "replicate n 0"] len by auto
    have k: "unat (word_of_nat (min (length (contents d)) n) :: u32) = min (length (contents d)) n"
      using \<open>rb_op_ok (Get n)\<close> by (simp add: unat_of_nat min_def)
    have "bufferSize d' = bufferSize d" "buffer d' = buffer d" by (subst d'(4), simp)+
    then have "capacity d' = capacity d" by (simp add: capacity_def)
    then show "\<exists>s'. rb_get d n = Some (s', take n (contents d)) \<and> rb_wf s' \<and>
        contents s' = drop n (contents d) \<and> capacity s' = capacity d"
      using d'(1,2,3) k by (auto simp: rb_get_def min_def)
  }
qed

text \<open>
  C36. The capture buffer is a lossless byte queue. Any sequence of writes and reads runs
  without an access outside the buffer and keeps it well formed, and what was unread before
  followed by every accepted write equals what was read followed by what is unread now: no
  byte is lost, duplicated, reordered or overwritten before it is read.
\<close>

theorem ring_buffer_stream:
  assumes "rb_wf d" "list_all rb_op_ok ops"
  shows "\<exists>d' accepted delivered. fifo_run rb_put rb_get d ops = Some (d', accepted, delivered) \<and>
    rb_wf d' \<and> contents d @ accepted = delivered @ contents d'"
  using rb.run_stream [OF assms] by blast

definition example_buffer :: root_data where
  "example_buffer = (root_data_init 1)\<lparr>buffer := Some (replicate 4096 0), bufferSize := 4096\<rparr>"

lemma rb_wf_example: "rb_wf example_buffer" and capacity_example: "capacity example_buffer = 4095"
  and contents_example: "contents example_buffer = []"
  and snaplen_example: "snaplen example_buffer = 65535"
  by (simp_all add: rb_wf_def example_buffer_def root_data_init_def capacity_def contents_def)

theorem ring_buffer_stream_witness:
  "\<exists>d' accepted delivered.
     fifo_run rb_put rb_get example_buffer [Put [1, 2, 3], Get 2, Put [4], Get 9] =
       Some (d', accepted, delivered) \<and>
     rb_wf d' \<and> accepted = delivered @ contents d'"
  using ring_buffer_stream [of example_buffer "[Put [1, 2, 3], Get 2, Put [4], Get 9]"]
  by (simp add: rb_wf_example contents_example)

end
