(* ===== verification/IrpQueue.thy ===== *)
theory IrpQueue
  imports CaptureBuffer
begin

text \<open>
  The queue of pended read requests of a control device (USBPcapQueue.c): the callbacks the
  driver registers with the kernel's cancel-safe queue, and the clean-up of one file handle's
  requests. A request is identified by its pointer; the doubly linked list is the list of
  its entries in order. The spin lock callbacks only bracket the others: each operation here
  is one critical section.
\<close>

section \<open>Requests\<close>

text \<open>
  A read request as the driver sees it: the file object and Read.Length of its stack
  location, the byte count of its MDL and the memory behind it, None when
  MmGetSystemAddressForMdlSafe returns NULL.
\<close>

record read_irp =
  irp_ptr :: u64
  irp_file :: u64
  irp_length :: u32
  irp_mdl_bytes :: u32
  irp_memory :: "bytes option"

definition irp_ok :: "read_irp \<Rightarrow> bool" where
  "irp_ok irp \<longleftrightarrow>
     (case irp_memory irp of None \<Rightarrow> True | Some m \<Rightarrow> length m = unat (irp_mdl_bytes irp))"

text \<open>A completed request: IoStatus and the memory as the caller finds it.\<close>

record completion =
  done_irp :: read_irp
  done_status :: ntstatus
  done_information :: u32

section \<open>The callbacks\<close>

definition DkCsqInsertIrp :: "read_irp list \<Rightarrow> read_irp \<Rightarrow> read_irp list" where
  "DkCsqInsertIrp q irp = q @ [irp]"

fun DkCsqRemoveIrp :: "read_irp list \<Rightarrow> read_irp \<Rightarrow> read_irp list" where
  "DkCsqRemoveIrp [] irp = []"
| "DkCsqRemoveIrp (x # q) irp =
     (if irp_ptr x = irp_ptr irp then q else x # DkCsqRemoveIrp q irp)"

fun peek_loop :: "read_irp list \<Rightarrow> u64 \<Rightarrow> read_irp option" where
  "peek_loop [] ctx = None"
| "peek_loop (x # q) ctx =
     (if ctx \<noteq> 0 then (if irp_file x = ctx then Some x else peek_loop q ctx) else Some x)"

definition DkCsqPeekNextIrp :: "read_irp list \<Rightarrow> read_irp option \<Rightarrow> u64 \<Rightarrow> read_irp option" where
  "DkCsqPeekNextIrp q pIrp ctx =
     (case pIrp of
        None \<Rightarrow> peek_loop q ctx
      | Some irp \<Rightarrow> peek_loop (tl (dropWhile (\<lambda>x. irp_ptr x \<noteq> irp_ptr irp) q)) ctx)"

definition DkCsqCompleteCanceledIrp :: "read_irp \<Rightarrow> completion" where
  "DkCsqCompleteCanceledIrp irp =
     \<lparr>done_irp = irp, done_status = STATUS_CANCELLED, done_information = 0\<rparr>"

text \<open>
  The kernel's IoCsqRemoveNextIrp, as documented: peek for the next request that matches the
  context and remove it. (Requests whose cancellation has begun are removed by the kernel's
  cancel routine, which is a step of its own.)
\<close>

definition IoCsqRemoveNextIrp :: "read_irp list \<Rightarrow> u64 \<Rightarrow> read_irp list \<times> read_irp option" where
  "IoCsqRemoveNextIrp q ctx =
     (case DkCsqPeekNextIrp q None ctx of
        None \<Rightarrow> (q, None)
      | Some irp \<Rightarrow> (DkCsqRemoveIrp q irp, Some irp))"

lemma peek_loop_member: "peek_loop q ctx = Some x \<Longrightarrow> x \<in> set q"
  by (induction q) (auto split: if_splits)

lemma RemoveIrp_length: "x \<in> set q \<Longrightarrow> length (DkCsqRemoveIrp q x) < length q"
  by (induction q) auto

lemma RemoveNext_shorter:
  "IoCsqRemoveNextIrp q ctx = (q', Some x) \<Longrightarrow> length q' < length q"
  by (auto simp: IoCsqRemoveNextIrp_def DkCsqPeekNextIrp_def RemoveIrp_length
      dest!: peek_loop_member split: option.splits)

function DkCsqCleanUpQueue :: "read_irp list \<Rightarrow> u64 \<Rightarrow> read_irp list \<times> completion list" where
  "DkCsqCleanUpQueue q fileObject =
     (case IoCsqRemoveNextIrp q fileObject of
        (q', None) \<Rightarrow> (q', [])
      | (q', Some irp) \<Rightarrow>
          let (q'', cs) = DkCsqCleanUpQueue q' fileObject in
          (q'', DkCsqCompleteCanceledIrp irp # cs))"
  by pat_completeness auto
termination
  by (relation "measure (\<lambda>(q, f). length q)") (auto dest: RemoveNext_shorter [OF sym])

declare DkCsqCleanUpQueue.simps [simp del]

section \<open>The contract of the callbacks\<close>

text \<open>
  What the kernel's queue needs of its callbacks: requests are kept in arrival order, the
  peek finds the first match, and removal takes out just that request.
\<close>

definition file_matches :: "u64 \<Rightarrow> read_irp \<Rightarrow> bool" where
  "file_matches ctx irp \<longleftrightarrow> ctx = 0 \<or> irp_file irp = ctx"

locale csq_callbacks =
  fixes ins :: "read_irp list \<Rightarrow> read_irp \<Rightarrow> read_irp list"
    and rem :: "read_irp list \<Rightarrow> read_irp \<Rightarrow> read_irp list"
    and peek :: "read_irp list \<Rightarrow> read_irp option \<Rightarrow> u64 \<Rightarrow> read_irp option"
  assumes ins_tail: "ins q x = q @ [x]"
    and peek_first: "peek q None ctx = find (file_matches ctx) q"
    and rem_one: "distinct (map irp_ptr (p @ x # q)) \<Longrightarrow> rem (p @ x # q) x = p @ q"
begin

lemma take_next_None:
  "peek q None ctx = None \<longleftrightarrow> filter (file_matches ctx) q = []"
  by (auto simp: peek_first find_None_iff filter_empty_conv)

lemma take_next_Some:
  assumes "distinct (map irp_ptr q)" "peek q None ctx = Some x"
  shows "filter (file_matches ctx) q = x # filter (file_matches ctx) (rem q x)"
    "filter (\<lambda>y. \<not> file_matches ctx y) (rem q x) = filter (\<lambda>y. \<not> file_matches ctx y) q"
    "distinct (map irp_ptr (rem q x))"
    "set (rem q x) = set q - {x}"
proof -
  from assms(2) obtain p r where q: "q = p @ x # r" "file_matches ctx x"
    "\<forall>y\<in>set p. \<not> file_matches ctx y"
    unfolding peek_first find_Some_iff
    by (metis id_take_nth_drop in_set_conv_nth length_take min_less_iff_conj nth_take)
  moreover have "rem q x = p @ r" using rem_one assms(1) q by simp
  ultimately show "filter (file_matches ctx) q = x # filter (file_matches ctx) (rem q x)"
    "filter (\<lambda>y. \<not> file_matches ctx y) (rem q x) = filter (\<lambda>y. \<not> file_matches ctx y) q"
    "distinct (map irp_ptr (rem q x))"
    "set (rem q x) = set q - {x}"
    using assms(1) by (auto simp: filter_empty_conv)
qed

end

lemma peek_loop_find: "peek_loop q ctx = find (file_matches ctx) q"
  by (induction q) (auto simp: file_matches_def)

lemma RemoveIrp_append:
  "irp_ptr x \<notin> irp_ptr ` set p \<Longrightarrow> DkCsqRemoveIrp (p @ x # q) x = p @ q"
  by (induction p) auto

interpretation csq: csq_callbacks DkCsqInsertIrp DkCsqRemoveIrp DkCsqPeekNextIrp
  by unfold_locales
    (auto simp: DkCsqInsertIrp_def DkCsqPeekNextIrp_def peek_loop_find RemoveIrp_append)

lemma RemoveNext_None:
  "IoCsqRemoveNextIrp q ctx = (q', None) \<longleftrightarrow> filter (file_matches ctx) q = [] \<and> q' = q"
  using csq.take_next_None [of q ctx]
  by (auto simp: IoCsqRemoveNextIrp_def split: option.splits)

lemma RemoveNext_Some:
  assumes "distinct (map irp_ptr q)" "IoCsqRemoveNextIrp q ctx = (q', Some x)"
  shows "filter (file_matches ctx) q = x # filter (file_matches ctx) q'"
    "filter (\<lambda>y. \<not> file_matches ctx y) q' = filter (\<lambda>y. \<not> file_matches ctx y) q"
    "distinct (map irp_ptr q')" "set q' = set q - {x}"
  using assms csq.take_next_Some [of q ctx x]
  by (auto simp: IoCsqRemoveNextIrp_def split: option.splits)

lemma RemoveNext_head: "IoCsqRemoveNextIrp (x # q) 0 = (q, Some x)" "IoCsqRemoveNextIrp [] 0 = ([], None)"
  by (simp_all add: IoCsqRemoveNextIrp_def DkCsqPeekNextIrp_def)

lemma CleanUpQueue_eq:
  assumes "distinct (map irp_ptr q)"
  shows "DkCsqCleanUpQueue q fileObject =
    (filter (\<lambda>x. \<not> file_matches fileObject x) q,
     map DkCsqCompleteCanceledIrp (filter (file_matches fileObject) q))"
  using assms
proof (induction q fileObject rule: DkCsqCleanUpQueue.induct)
  case (1 q fileObject)
  obtain q' r where next_irp: "IoCsqRemoveNextIrp q fileObject = (q', r)" by fastforce
  show ?case
  proof (cases r)
    case None
    with next_irp have none: "filter (file_matches fileObject) q = []" and q': "q' = q"
      by (simp_all add: RemoveNext_None)
    from none have "filter (\<lambda>x. \<not> file_matches fileObject x) q = q"
      by (simp add: filter_empty_conv)
    then show ?thesis
      using next_irp None none q' by (subst DkCsqCleanUpQueue.simps) simp
  next
    case (Some x)
    note s = RemoveNext_Some [OF "1.prems" next_irp [unfolded Some]]
    have "DkCsqCleanUpQueue q' fileObject =
        (filter (\<lambda>x. \<not> file_matches fileObject x) q',
         map DkCsqCompleteCanceledIrp (filter (file_matches fileObject) q'))"
      using "1.IH" next_irp Some s(3) by auto
    then show ?thesis
      using next_irp Some s by (subst DkCsqCleanUpQueue.simps) simp
  qed
qed

text \<open>
  Closing a handle cancels exactly that handle's pended reads: each is completed once,
  in arrival order, with STATUS_CANCELLED and no data, and the requests of every other handle
  stay queued in their order. The clean-up loop always ends.
\<close>

theorem CleanUpQueue_correct:
  assumes "distinct (map irp_ptr q)"
  shows "DkCsqCleanUpQueue q fileObject =
    (filter (\<lambda>x. \<not> file_matches fileObject x) q,
     map DkCsqCompleteCanceledIrp (filter (file_matches fileObject) q))"
  using assms by (rule CleanUpQueue_eq)

definition example_irp :: "u64 \<Rightarrow> u64 \<Rightarrow> read_irp" where
  "example_irp p f = \<lparr>irp_ptr = p, irp_file = f, irp_length = 64, irp_mdl_bytes = 64,
     irp_memory = Some (replicate 64 0)\<rparr>"

theorem CleanUpQueue_correct_witness:
  "DkCsqCleanUpQueue [example_irp 1 7, example_irp 2 8, example_irp 3 7] 7 =
    ([example_irp 2 8],
     [DkCsqCompleteCanceledIrp (example_irp 1 7), DkCsqCompleteCanceledIrp (example_irp 3 7)])"
  by (subst CleanUpQueue_correct) (simp_all add: example_irp_def file_matches_def)

end
