(* ===== verification/PacketStore.thy ===== *)
theory PacketStore
  imports IrpQueue
begin

text \<open>
  Storing captured packets and serving reads (USBPcapBuffer.c, lines 393 to 672). A channel
  is the state behind one control device: the root hub data with the capture buffer, the
  pended reads, and the read requests completed so far in completion order.
\<close>

section \<open>State\<close>

record channel =
  root :: root_data
  pending :: "read_irp list"
  completed :: "completion list"

text \<open>A payload entry: a size and a pointer, None for NULL, which ends the array.\<close>

record payload_entry =
  pe_size :: u32
  pe_buffer :: "bytes option"

section \<open>Operations\<close>

definition USBPcapBufferHandleReadIrp ::
  "channel \<Rightarrow> read_irp \<Rightarrow> (channel \<times> read_irp \<times> ntstatus \<times> u32) option" where
  "USBPcapBufferHandleReadIrp ch irp =
     (if irp_length irp = 0 then Some (ch, irp, STATUS_SUCCESS, 0)
      else if buffer (root ch) = None then Some (ch, irp, STATUS_UNSUCCESSFUL, 0)
      else case irp_memory irp of
        None \<Rightarrow> Some (ch, irp, STATUS_INSUFFICIENT_RESOURCES, 0)
      | Some m \<Rightarrow> do {
          (d, m', bytesRead) \<leftarrow> USBPcapBufferRead (root ch) m (irp_mdl_bytes irp);
          let irp' = irp\<lparr>irp_memory := Some m'\<rparr>;
          if bytesRead = 0
          then Some (ch\<lparr>root := d, pending := DkCsqInsertIrp (pending ch) irp'\<rparr>, irp',
                     STATUS_PENDING, 0)
          else Some (ch\<lparr>root := d\<rparr>, irp', STATUS_SUCCESS, bytesRead) })"

definition USBPcapBufferCompletePendedReadIrp :: "channel \<Rightarrow> channel option" where
  "USBPcapBufferCompletePendedReadIrp ch =
     (case IoCsqRemoveNextIrp (pending ch) 0 of
        (q, None) \<Rightarrow> Some (ch\<lparr>pending := q\<rparr>)
      | (q, Some irp) \<Rightarrow>
          (case irp_memory irp of
             None \<Rightarrow> Some (ch\<lparr>pending := q, completed := completed ch @
               [\<lparr>done_irp = irp, done_status = STATUS_INSUFFICIENT_RESOURCES,
                 done_information = 0\<rparr>]\<rparr>)
           | Some m \<Rightarrow> do {
               (d, m', bytes) \<leftarrow>
                 (if irp_mdl_bytes irp \<noteq> 0 then USBPcapBufferRead (root ch) m (irp_mdl_bytes irp)
                  else Some (root ch, m, 0));
               Some (ch\<lparr>root := d, pending := q, completed := completed ch @
                 [\<lparr>done_irp = irp\<lparr>irp_memory := Some m'\<rparr>, done_status = STATUS_SUCCESS,
                   done_information = bytes\<rparr>]\<rparr>) }))"

text \<open>
  Time stamps count 100 ns units since 1601 in a signed 64-bit integer; C division truncates.
\<close>

definition USBPcapInitializePcapHeader :: "root_data \<Rightarrow> int \<Rightarrow> u32 \<Rightarrow> pcaprec_hdr" where
  "USBPcapInitializePcapHeader d timestamp bytes =
     \<lparr>ts_sec = word_of_int (timestamp sdiv 10000000 - 11644473600),
      ts_usec = word_of_int ((timestamp smod 10000000) sdiv 10),
      incl_len = (if bytes > snaplen d then snaplen d else bytes),
      orig_len = bytes\<rparr>"

text \<open>The loop of the sanity check: what is still missing when the entries end.\<close>

fun bytes_missing :: "u32 \<Rightarrow> payload_entry list \<Rightarrow> u32 option" where
  "bytes_missing m [] = (if m = 0 then Some 0 else None)"
| "bytes_missing m (p # ps) =
     (if m = 0 \<or> pe_buffer p = None then Some m
      else bytes_missing (m - min (pe_size p) m) ps)"

definition write_if_any :: "root_data \<Rightarrow> bytes \<Rightarrow> u32 \<Rightarrow> root_data option" where
  "write_if_any d data n = (if n > 0 then USBPcapBufferWriteUnsafe d data n else Some d)"

fun write_payload :: "root_data \<Rightarrow> u32 \<Rightarrow> payload_entry list \<Rightarrow> root_data option" where
  "write_payload d bytes [] = (if bytes = 0 then Some d else None)"
| "write_payload d bytes (p # ps) =
     (if bytes = 0 then Some d
      else case pe_buffer p of
        None \<Rightarrow> Some d
      | Some b \<Rightarrow>
          let tmp = min bytes (pe_size p) in
          do { d' \<leftarrow> write_if_any d b tmp; write_payload d' (bytes - tmp) ps })"

definition USBPcapBufferStorePacket ::
  "root_data \<Rightarrow> int \<Rightarrow> header_mem \<Rightarrow> payload_entry list \<Rightarrow> (root_data \<times> ntstatus) option" where
  "USBPcapBufferStorePacket d timestamp header payload =
     (let headerLen = ucast (ph_headerLen (base_header header)) :: u32;
          pcapHeader = USBPcapInitializePcapHeader d timestamp
            (headerLen + ph_dataLength (base_header header));
          bytes = incl_len pcapHeader
      in do {
        missing \<leftarrow> (if bytes > 16 + headerLen then bytes_missing (bytes - (16 + headerLen)) payload
                    else Some 0);
        if missing > 0 then Some (d, STATUS_INVALID_PARAMETER)
        else let bytesFree = USBPcapGetBufferFree d in
          if buffer d = None \<or> bytesFree < 16 \<or> bytesFree - 16 < bytes
          then Some (d, STATUS_INSUFFICIENT_RESOURCES)
          else do {
            d1 \<leftarrow> USBPcapBufferWriteUnsafe d (pcaprec_hdr_bytes pcapHeader) 16;
            let tmp = min bytes headerLen;
            d2 \<leftarrow> write_if_any d1 (header_mem_bytes header) tmp;
            d3 \<leftarrow> write_payload d2 (bytes - tmp) payload;
            Some (d3, STATUS_SUCCESS) } })"

definition USBPcapBufferWriteTimestampedPayload ::
  "channel \<Rightarrow> int \<Rightarrow> header_mem \<Rightarrow> payload_entry list \<Rightarrow> (channel \<times> ntstatus) option" where
  "USBPcapBufferWriteTimestampedPayload ch timestamp header payload = do {
     (d, status) \<leftarrow> USBPcapBufferStorePacket (root ch) timestamp header payload;
     let ch' = ch\<lparr>root := d\<rparr>;
     if NT_SUCCESS status
     then do { ch'' \<leftarrow> USBPcapBufferCompletePendedReadIrp ch'; Some (ch'', status) }
     else Some (ch', status) }"

text \<open>The current time (USBPcapGetCurrentTimestamp) is the argument \<open>now\<close>.\<close>

definition USBPcapBufferWritePayload ::
  "int \<Rightarrow> channel \<Rightarrow> header_mem \<Rightarrow> payload_entry list \<Rightarrow> (channel \<times> ntstatus) option" where
  "USBPcapBufferWritePayload now ch header payload =
     USBPcapBufferWriteTimestampedPayload ch now header payload"

definition USBPcapBufferWriteTimestampedPacket ::
  "channel \<Rightarrow> int \<Rightarrow> header_mem \<Rightarrow> bytes option \<Rightarrow> (channel \<times> ntstatus) option" where
  "USBPcapBufferWriteTimestampedPacket ch timestamp header buf =
     USBPcapBufferWriteTimestampedPayload ch timestamp header
       [\<lparr>pe_size = ph_dataLength (base_header header), pe_buffer = buf\<rparr>,
        \<lparr>pe_size = 0, pe_buffer = None\<rparr>]"

definition USBPcapBufferWritePacket ::
  "int \<Rightarrow> channel \<Rightarrow> header_mem \<Rightarrow> bytes option \<Rightarrow> (channel \<times> ntstatus) option" where
  "USBPcapBufferWritePacket now ch header buf =
     USBPcapBufferWriteTimestampedPacket ch now header buf"

section \<open>What a stored packet consists of\<close>

text \<open>The bytes the payload entries before the terminator name.\<close>

fun payload_stream :: "payload_entry list \<Rightarrow> bytes" where
  "payload_stream [] = []"
| "payload_stream (p # ps) =
     (case pe_buffer p of None \<Rightarrow> [] | Some b \<Rightarrow> take (unat (pe_size p)) b @ payload_stream ps)"

text \<open>The array is terminated and each entry's memory is as long as the entry says.\<close>

fun payload_ok :: "payload_entry list \<Rightarrow> bool" where
  "payload_ok [] = False"
| "payload_ok (p # ps) =
     (case pe_buffer p of None \<Rightarrow> True
      | Some b \<Rightarrow> unat (pe_size p) \<le> length b \<and> payload_ok ps)"

definition header_ok :: "header_mem \<Rightarrow> bool" where
  "header_ok m \<longleftrightarrow> unat (ph_headerLen (base_header m)) = length (header_mem_bytes m)"

definition packet_length :: "header_mem \<Rightarrow> u32" where
  "packet_length m = ucast (ph_headerLen (base_header m)) + ph_dataLength (base_header m)"

definition stored_length :: "root_data \<Rightarrow> header_mem \<Rightarrow> nat" where
  "stored_length d m = min (unat (packet_length m)) (unat (snaplen d))"

definition record_bytes :: "root_data \<Rightarrow> int \<Rightarrow> header_mem \<Rightarrow> payload_entry list \<Rightarrow> bytes" where
  "record_bytes d ts m ps =
     pcaprec_hdr_bytes (USBPcapInitializePcapHeader d ts (packet_length m)) @
     take (stored_length d m) (header_mem_bytes m @ payload_stream ps)"

definition appends :: "root_data \<Rightarrow> bytes \<Rightarrow> root_data \<Rightarrow> bool" where
  "appends d xs d' \<longleftrightarrow> rb_wf d' \<and> buffer d' \<noteq> None \<and> contents d' = contents d @ xs \<and>
     d' = d\<lparr>buffer := buffer d', writeOffset := writeOffset d'\<rparr>"

lemma appends_capacity: "appends d xs d' \<Longrightarrow> buffer d \<noteq> None \<Longrightarrow> capacity d' = capacity d"
  by (cases d; cases d') (auto simp: appends_def capacity_def)

lemma appends_refl: "rb_wf d \<Longrightarrow> buffer d \<noteq> None \<Longrightarrow> appends d [] d"
  by (simp add: appends_def)

lemma appends_trans: "appends d xs d1 \<Longrightarrow> appends d1 ys d2 \<Longrightarrow> appends d (xs @ ys) d2"
  by (cases d; cases d1; cases d2) (auto simp: appends_def)

lemma write_if_any_appends:
  assumes "rb_wf d" "buffer d \<noteq> None" "unat n \<le> length data"
    and "length (contents d) + unat n \<le> capacity d"
  shows "\<exists>d'. write_if_any d data n = Some d' \<and> appends d (take (unat n) data) d'"
proof (cases "n = 0")
  case True
  then show ?thesis using assms by (simp add: write_if_any_def appends_refl)
next
  case False
  then show ?thesis
    using assms WriteUnsafe_correct [of d _ n data]
    by (auto simp: write_if_any_def word_gt_0 appends_def)
qed

lemma write_payload_appends:
  "rb_wf d \<Longrightarrow> buffer d \<noteq> None \<Longrightarrow> payload_ok ps \<Longrightarrow>
   length (contents d) + unat n \<le> capacity d \<Longrightarrow>
   \<exists>d'. write_payload d n ps = Some d' \<and> appends d (take (unat n) (payload_stream ps)) d'"
proof (induction ps arbitrary: d n)
  case Nil
  then show ?case by simp
next
  case (Cons p ps)
  show ?case
  proof (cases "n = 0 \<or> pe_buffer p = None")
    case True
    then show ?thesis
      using Cons.prems by (auto simp: appends_refl)
  next
    case False
    then obtain b where b: "pe_buffer p = Some b" by auto
    define tmp where "tmp = min n (pe_size p)"
    have tmp: "unat tmp \<le> unat n" "unat tmp \<le> unat (pe_size p)" "unat (pe_size p) \<le> length b"
      using Cons.prems b by (auto simp: tmp_def)
    have ut: "unat tmp = min (unat n) (unat (pe_size p))" by (simp add: tmp_def)
    from tmp obtain d1 where d1: "write_if_any d b tmp = Some d1" "appends d (take (unat tmp) b) d1"
      using write_if_any_appends [of d tmp b] Cons.prems by auto
    have n': "unat (n - tmp) = unat n - unat tmp"
      using tmp by (simp add: unat_sub_le word_le_nat_alt)
    have cap: "capacity d1 = capacity d"
      using appends_capacity [OF d1(2)] Cons.prems(2) .
    have "length (contents d1) + unat (n - tmp) \<le> capacity d1"
      using Cons.prems(4) d1(2) tmp by (simp add: appends_def n' cap)
    then obtain d2 where d2: "write_payload d1 (n - tmp) ps = Some d2"
      "appends d1 (take (unat (n - tmp)) (payload_stream ps)) d2"
      using Cons.IH [of d1 "n - tmp"] d1 Cons.prems b by (auto simp: appends_def)
    have "take (unat tmp) b @ take (unat (n - tmp)) (payload_stream ps) =
        take (unat n) (payload_stream (p # ps))"
      using b tmp ut by (auto simp: n' min_def)
    then show ?thesis
      using d1 d2 b False appends_trans [OF d1(2) d2(2)]
      by (auto simp: tmp_def [symmetric] Let_def)
  qed
qed

lemma bytes_missing_eq:
  "payload_ok ps \<Longrightarrow>
   \<exists>r. bytes_missing m ps = Some r \<and> unat r = unat m - length (payload_stream ps)"
proof (induction ps arbitrary: m)
  case Nil
  then show ?case by simp
next
  case (Cons p ps)
  show ?case
  proof (cases "m = 0 \<or> pe_buffer p = None")
    case True
    then show ?thesis by auto
  next
    case False
    then obtain b where b: "pe_buffer p = Some b" by auto
    have "unat (m - min (pe_size p) m) = unat m - unat (pe_size p)"
      by (subst unat_sub_le) (auto simp: word_le_nat_alt)
    then show ?thesis
      using False b Cons.prems Cons.IH [of "m - min (pe_size p) m"] by auto
  qed
qed

section \<open>Correctness of storing a packet\<close>

lemma unat_headerLen_plus: "unat (16 + ucast (w :: u16) :: u32) = 16 + unat w"
proof -
  have "unat w < 65536" using unsigned_less [of w, where 'a = nat] by simp
  then show ?thesis by (subst unat_add_lt) simp_all
qed

lemma unat_incl_len:
  "unat (incl_len (USBPcapInitializePcapHeader d ts (packet_length m))) = stored_length d m"
  by (auto simp: USBPcapInitializePcapHeader_def stored_length_def word_less_nat_alt min_def)

lemma sanity_check_eq:
  assumes "payload_ok ps" "header_ok m" "unat n = k"
  shows "\<exists>missing. (if n > 16 + ucast (ph_headerLen (base_header m))
      then bytes_missing (n - (16 + ucast (ph_headerLen (base_header m)))) ps else Some 0) =
      Some missing \<and>
    (missing > 0 \<longleftrightarrow> length (header_mem_bytes m) + 16 + length (payload_stream ps) < k)"
proof (cases "n > 16 + ucast (ph_headerLen (base_header m))")
  case True
  define hl where "hl = (16 + ucast (ph_headerLen (base_header m)) :: u32)"
  have hl: "unat hl = 16 + length (header_mem_bytes m)"
    using assms(2) by (simp add: hl_def unat_headerLen_plus header_ok_def)
  obtain r where r: "bytes_missing (n - hl) ps = Some r"
    "unat r = unat (n - hl) - length (payload_stream ps)"
    using bytes_missing_eq [OF assms(1), of "n - hl"] by blast
  moreover have "unat (n - hl) = k - unat hl"
    using True assms(3) by (simp add: unat_sub_le hl_def)
  ultimately have "r > 0 \<longleftrightarrow> length (header_mem_bytes m) + 16 + length (payload_stream ps) < k"
    using hl by (auto simp: word_less_nat_alt)
  then show ?thesis using True r by (simp add: hl_def)
next
  case False
  then have "k \<le> 16 + length (header_mem_bytes m)"
    using assms(2,3) by (simp add: word_less_nat_alt unat_headerLen_plus header_ok_def)
  then show ?thesis using False by auto
qed

lemma stored_length_le: "stored_length d m < 4294967296"
  using unat_u32_lt [of "packet_length m"] by (simp add: stored_length_def)

lemma StorePacket_cases:
  assumes wf: "rb_wf d" and hdr: "header_ok m" and pay: "payload_ok ps"
  shows "\<exists>d' st. USBPcapBufferStorePacket d ts m ps = Some (d', st) \<and>
    (if length (header_mem_bytes m) + 16 + length (payload_stream ps) < stored_length d m
     then st = STATUS_INVALID_PARAMETER \<and> d' = d
     else if buffer d = None \<or> capacity d < length (contents d) + 16 + stored_length d m
     then st = STATUS_INSUFFICIENT_RESOURCES \<and> d' = d
     else st = STATUS_SUCCESS \<and> appends d (record_bytes d ts m ps) d')"
proof -
  define H where "H = USBPcapInitializePcapHeader d ts (packet_length m)"
  define n where "n = incl_len H"
  define hl where "hl = (ucast (ph_headerLen (base_header m)) :: u32)"
  have n: "unat n = stored_length d m" by (simp add: n_def H_def unat_incl_len)
  have hl: "unat hl = length (header_mem_bytes m)"
    using hdr by (simp add: hl_def header_ok_def)
  obtain missing where missing: "(if n > 16 + hl then bytes_missing (n - (16 + hl)) ps else Some 0)
      = Some missing"
    "missing > 0 \<longleftrightarrow> length (header_mem_bytes m) + 16 + length (payload_stream ps) < stored_length d m"
    using sanity_check_eq [OF pay hdr n] unfolding hl_def [symmetric] by blast
  define free where "free = USBPcapGetBufferFree d"
  have free: "unat free = capacity d - length (contents d)"
    by (simp add: free_def free_eq [OF wf])
  have nofit: "(free < 16 \<or> free - 16 < n) \<longleftrightarrow>
      capacity d < length (contents d) + 16 + stored_length d m"
    using contents_bounded [OF wf] free n
    by (cases "free < 16") (auto simp: word_less_nat_alt unat_sub_le word_le_nat_alt)
  have run: "USBPcapBufferStorePacket d ts m ps =
    (if missing > 0 then Some (d, STATUS_INVALID_PARAMETER)
     else if buffer d = None \<or> free < 16 \<or> free - 16 < n
     then Some (d, STATUS_INSUFFICIENT_RESOURCES)
     else do {
       d1 \<leftarrow> USBPcapBufferWriteUnsafe d (pcaprec_hdr_bytes H) 16;
       d2 \<leftarrow> write_if_any d1 (header_mem_bytes m) (min n hl);
       d3 \<leftarrow> write_payload d2 (n - min n hl) ps;
       Some (d3, STATUS_SUCCESS) })"
    unfolding USBPcapBufferStorePacket_def Let_def
    unfolding packet_length_def [symmetric]
    unfolding H_def [symmetric] hl_def [symmetric] n_def [symmetric] free_def [symmetric]
    using missing(1) by simp
  show ?thesis
  proof (cases "missing > 0 \<or> buffer d = None \<or>
      capacity d < length (contents d) + 16 + stored_length d m")
    case True
    then show ?thesis using run missing(2) nofit by auto
  next
    case False
    then obtain b where b: "buffer d = Some b" by auto
    have cap: "length (contents d) + 16 + stored_length d m \<le> capacity d" using False by simp
    obtain d1 where d1: "USBPcapBufferWriteUnsafe d (pcaprec_hdr_bytes H) 16 = Some d1"
      "appends d (pcaprec_hdr_bytes H) d1"
      using WriteUnsafe_correct [OF wf b, of 16 "pcaprec_hdr_bytes H"] cap
      by (auto simp: appends_def)
    have cap1: "capacity d1 = capacity d" using appends_capacity [OF d1(2)] b by simp
    define t where "t = min n hl"
    have t: "unat t \<le> length (header_mem_bytes m)" "unat t \<le> unat n"
      by (simp_all add: t_def hl)
    obtain d2 where d2: "write_if_any d1 (header_mem_bytes m) t = Some d2"
      "appends d1 (take (unat t) (header_mem_bytes m)) d2"
      using write_if_any_appends [of d1 t "header_mem_bytes m"] d1(2) cap cap1 t n
      by (auto simp: appends_def)
    have cap2: "capacity d2 = capacity d" using appends_capacity [OF d2(2)] d1(2) cap1
      by (simp add: appends_def)
    have ut: "unat t = min (stored_length d m) (length (header_mem_bytes m))"
      by (simp add: t_def hl n)
    have nt: "unat (n - t) = unat n - unat t"
      using t by (simp add: unat_sub_le word_le_nat_alt)
    obtain d3 where d3: "write_payload d2 (n - t) ps = Some d3"
      "appends d2 (take (unat (n - t)) (payload_stream ps)) d3"
      using write_payload_appends [of d2 ps "n - t"] d2(2) d1(2) cap cap2 t n pay
      by (auto simp: appends_def nt)
    have "take (unat t) (header_mem_bytes m) @ take (unat (n - t)) (payload_stream ps) =
        take (stored_length d m) (header_mem_bytes m @ payload_stream ps)"
      unfolding nt ut n by (simp add: min_def)
    then have "appends d (record_bytes d ts m ps) d3"
      using appends_trans [OF d1(2) appends_trans [OF d2(2) d3(2)]]
      by (simp add: record_bytes_def H_def)
    then show ?thesis
      using run False nofit missing(2) d1 d2 d3 by (auto simp: t_def)
  qed
qed

text \<open>
  Storing a packet is all or nothing and never leaves the buffer. Given a terminated
  payload array and a header as long as its length field says, the packet is refused with the
  state unchanged, or the whole record is appended: the pcap record header with the time
  stamp, the snapshot-limited and the original length, and the first stored-length bytes of
  header and payload. The three outcomes are decided exactly: too little payload, too little
  free space, success.
\<close>

theorem StorePacket_correct:
  assumes wf: "rb_wf d" and hdr: "header_ok m" and pay: "payload_ok ps"
  shows "\<exists>d' st. USBPcapBufferStorePacket d ts m ps = Some (d', st) \<and>
    (if length (header_mem_bytes m) + 16 + length (payload_stream ps) < stored_length d m
     then st = STATUS_INVALID_PARAMETER \<and> d' = d
     else if buffer d = None \<or> capacity d < length (contents d) + 16 + stored_length d m
     then st = STATUS_INSUFFICIENT_RESOURCES \<and> d' = d
     else st = STATUS_SUCCESS \<and> appends d (record_bytes d ts m ps) d')"
  using assms by (rule StorePacket_cases)

definition example_header :: "u32 \<Rightarrow> packet_header" where
  "example_header n =
     \<lparr>ph_headerLen = 27, ph_irpId = 0, ph_status = 0, ph_function = 9, ph_info = 0, ph_bus = 1,
      ph_device = 2, ph_endpoint = 0x81, ph_transfer = USBPCAP_TRANSFER_BULK, ph_dataLength = n\<rparr>"

definition example_payload :: "bytes \<Rightarrow> payload_entry list" where
  "example_payload xs =
     [\<lparr>pe_size = of_nat (length xs), pe_buffer = Some xs\<rparr>, \<lparr>pe_size = 0, pe_buffer = None\<rparr>]"

lemma header_ok_example: "header_ok (PlainHeader (example_header n))"
  by (simp add: header_ok_def example_header_def)

lemma payload_ok_example: "length xs < 4294967296 \<Longrightarrow> payload_ok (example_payload xs)"
  by (simp add: example_payload_def unat_of_nat)

lemma stored_length_example:
  "stored_length example_buffer (PlainHeader (example_header 3)) = 30"
  "stored_length example_buffer (PlainHeader (example_header 16)) = 43"
  by (simp_all add: stored_length_def packet_length_def example_header_def snaplen_example)

lemma example_buffer_Some: "buffer example_buffer \<noteq> None"
  by (simp add: example_buffer_def)

theorem StorePacket_correct_witness:
  "\<exists>d'. USBPcapBufferStorePacket example_buffer 0 (PlainHeader (example_header 3))
      (example_payload [7, 8, 9]) = Some (d', STATUS_SUCCESS) \<and>
    appends example_buffer (record_bytes example_buffer 0 (PlainHeader (example_header 3))
      (example_payload [7, 8, 9])) d'"
  using StorePacket_correct [of example_buffer "PlainHeader (example_header 3)"
      "example_payload [7, 8, 9]" 0]
  by (simp add: rb_wf_example header_ok_example payload_ok_example stored_length_example
      capacity_example contents_example example_buffer_Some)

section \<open>Complete and short records\<close>

text \<open>A payload array that holds all the bytes the snapshot limit lets through.\<close>

definition payload_complete :: "root_data \<Rightarrow> header_mem \<Rightarrow> payload_entry list \<Rightarrow> bool" where
  "payload_complete d m ps \<longleftrightarrow>
     stored_length d m \<le> length (header_mem_bytes m) + length (payload_stream ps)"

lemma record_length:
  "length (record_bytes d ts m ps) =
     16 + min (stored_length d m) (length (header_mem_bytes m) + length (payload_stream ps))"
  by (simp add: record_bytes_def)

text \<open>
  When the payload array holds every byte the snapshot limit lets through, the stored
  record frames itself: whatever follows it, its record header reads back, the length it
  announces is the number of bytes stored after it, and skipping that many bytes leads to
  what follows. The announced length is the smaller of packet and snapshot length.
\<close>

theorem record_framing:
  assumes "payload_complete d m ps"
  shows "\<exists>h. read_pcaprec_hdr (record_bytes d ts m ps @ rest) = Some h \<and>
    orig_len h = packet_length m \<and>
    unat (incl_len h) = min (unat (packet_length m)) (unat (snaplen d)) \<and>
    take (unat (incl_len h)) (drop 16 (record_bytes d ts m ps @ rest)) =
      take (stored_length d m) (header_mem_bytes m @ payload_stream ps) \<and>
    drop (16 + unat (incl_len h)) (record_bytes d ts m ps @ rest) = rest"
proof -
  define h where "h = USBPcapInitializePcapHeader d ts (packet_length m)"
  have len: "unat (incl_len h) = stored_length d m" by (simp add: h_def unat_incl_len)
  define body where "body = take (stored_length d m) (header_mem_bytes m @ payload_stream ps)"
  have "length body = stored_length d m"
    using assms by (simp add: payload_complete_def body_def)
  moreover have "record_bytes d ts m ps = pcaprec_hdr_bytes h @ body"
    by (simp add: record_bytes_def h_def body_def)
  moreover have "orig_len h = packet_length m" by (simp add: h_def USBPcapInitializePcapHeader_def)
  ultimately show ?thesis
    unfolding body_def [symmetric] stored_length_def [symmetric] by (simp add: len)
qed

theorem record_framing_witness:
  "\<exists>h. read_pcaprec_hdr (record_bytes example_buffer 0 (PlainHeader (example_header 3))
      (example_payload [7, 8, 9]) @ [1, 2]) = Some h \<and> unat (incl_len h) = 30 \<and>
    drop (16 + unat (incl_len h)) (record_bytes example_buffer 0 (PlainHeader (example_header 3))
      (example_payload [7, 8, 9]) @ [1, 2]) = [1, 2]"
proof -
  have "payload_complete example_buffer (PlainHeader (example_header 3)) (example_payload [7, 8, 9])"
    by (simp add: payload_complete_def stored_length_example example_payload_def)
  from record_framing [OF this, of 0 "[1, 2]"] show ?thesis
    by (auto simp: snaplen_example packet_length_def example_header_def)
qed

text \<open>
  The sanity check of the payload is too weak: it subtracts the size of the pcap record
  header from a length that does not include it, so a packet that lacks up to 16 payload
  bytes is accepted. Here the packet announces 16 bytes of data and brings none; it is
  stored, and its record is 16 bytes shorter than its header says.
\<close>

theorem StorePacket_accepts_short_payload:
  "\<exists>d' h. USBPcapBufferStorePacket example_buffer 0 (PlainHeader (example_header 16))
      (example_payload []) = Some (d', STATUS_SUCCESS) \<and>
    read_pcaprec_hdr (contents d') = Some h \<and> unat (incl_len h) = 43 \<and>
    length (contents d') = 16 + 27"
proof -
  obtain d' where d': "USBPcapBufferStorePacket example_buffer 0 (PlainHeader (example_header 16))
      (example_payload []) = Some (d', STATUS_SUCCESS)"
    "contents d' = record_bytes example_buffer 0 (PlainHeader (example_header 16)) (example_payload [])"
    using StorePacket_cases [of example_buffer "PlainHeader (example_header 16)"
        "example_payload []" 0]
    by (auto simp: rb_wf_example header_ok_example payload_ok_example stored_length_example
        capacity_example contents_example example_buffer_Some appends_def example_payload_def)
  then show ?thesis
    by (simp add: record_length stored_length_example example_payload_def)
       (simp add: record_bytes_def unat_incl_len stored_length_example)
qed

end
