(* ===== verification/Channel.thy ===== *)
theory Channel
  imports PacketStore
begin

text \<open>
  The channel behind a control device as a whole: packets go in, completed read requests
  come out. The invariant, and the statement that every stored byte is delivered to the
  readers exactly once and in order.
\<close>

section \<open>Invariant\<close>

definition channel_wf :: "channel \<Rightarrow> bool" where
  "channel_wf ch \<longleftrightarrow> rb_wf (root ch) \<and> list_all irp_ok (pending ch) \<and>
     distinct (map irp_ptr (pending ch))"

text \<open>The data a completed request hands to its caller, and that of all completed requests.\<close>

definition done_data :: "completion \<Rightarrow> bytes" where
  "done_data c =
     (case irp_memory (done_irp c) of None \<Rightarrow> []
      | Some m \<Rightarrow> take (unat (done_information c)) m)"

definition delivered :: "channel \<Rightarrow> bytes" where
  "delivered ch = concat (map done_data (completed ch))"

definition stream :: "channel \<Rightarrow> bytes" where
  "stream ch = delivered ch @ contents (root ch)"

section \<open>Completing a pended read\<close>

lemma read_some_bytes:
  assumes "rb_wf d" "length m = unat n"
  shows "\<exists>d' m' k. (if n \<noteq> 0 then USBPcapBufferRead d m n else Some (d, m, 0)) = Some (d', m', k) \<and>
    rb_wf d' \<and> length m' = length m \<and> unat k = min (length (contents d)) (unat n) \<and>
    contents d = take (unat k) m' @ contents d' \<and> buffer d' = buffer d \<and>
    d' = d\<lparr>readOffset := readOffset d'\<rparr>"
proof (cases "n = 0")
  case True
  then show ?thesis using assms by simp
next
  case False
  define k where "k = min (length (contents d)) (unat n)"
  have k: "unat (of_nat k :: u32) = k"
    using unat_u32_lt [of n] by (simp add: k_def unat_of_nat)
  obtain d' where d': "USBPcapBufferRead d m n = Some (d', take k (contents d) @ drop k m, of_nat k)"
    "rb_wf d'" "contents d' = drop k (contents d)" "d' = d\<lparr>readOffset := readOffset d'\<rparr>"
    using BufferRead_correct [of d n m] assms by (auto simp: k_def)
  moreover from d'(4) have "buffer d' = buffer d" by (cases d; cases d') simp
  moreover have "length (take k (contents d) @ drop k m) = length m"
    using assms(2) by (simp add: k_def)
  ultimately show ?thesis
    using False k by (intro exI [of _ d'] exI [of _ "take k (contents d) @ drop k m"]
        exI [of _ "of_nat k"]) (simp add: k_def)
qed

lemma CompletePended_idle:
  "pending ch = [] \<Longrightarrow> USBPcapBufferCompletePendedReadIrp ch = Some ch"
  by (simp add: USBPcapBufferCompletePendedReadIrp_def RemoveNext_head)

lemma CompletePended_correct:
  assumes wf: "channel_wf ch" and q: "pending ch = irp # q"
  shows "\<exists>ch' c. USBPcapBufferCompletePendedReadIrp ch = Some ch' \<and> channel_wf ch' \<and>
    pending ch' = q \<and> completed ch' = completed ch @ [c] \<and>
    irp_ptr (done_irp c) = irp_ptr irp \<and> stream ch' = stream ch \<and>
    unat (done_information c) =
      (if irp_memory irp = None then 0
       else min (length (contents (root ch))) (unat (irp_mdl_bytes irp)))"
proof (cases "irp_memory irp")
  case None
  then show ?thesis
    using wf q by (auto simp: USBPcapBufferCompletePendedReadIrp_def RemoveNext_head
        channel_wf_def stream_def delivered_def done_data_def)
next
  case (Some m)
  have "length m = unat (irp_mdl_bytes irp)" "rb_wf (root ch)"
    using wf q Some by (simp_all add: channel_wf_def irp_ok_def)
  then obtain d' m' k where d':
    "(if irp_mdl_bytes irp \<noteq> 0 then USBPcapBufferRead (root ch) m (irp_mdl_bytes irp)
      else Some (root ch, m, 0)) = Some (d', m', k)"
    "rb_wf d'" "unat k = min (length (contents (root ch))) (unat (irp_mdl_bytes irp))"
    "contents (root ch) = take (unat k) m' @ contents d'"
    using read_some_bytes [of "root ch" m "irp_mdl_bytes irp"] by blast
  define c where "c = \<lparr>done_irp = irp\<lparr>irp_memory := Some m'\<rparr>, done_status = STATUS_SUCCESS,
    done_information = k\<rparr>"
  define ch' where "ch' = ch\<lparr>root := d', pending := q, completed := completed ch @ [c]\<rparr>"
  have "USBPcapBufferCompletePendedReadIrp ch = Some ch'"
    using d'(1) unfolding USBPcapBufferCompletePendedReadIrp_def RemoveNext_head q
    by (simp add: Some ch'_def c_def)
  moreover have "channel_wf ch'"
    using wf q d'(2) by (simp add: channel_wf_def ch'_def)
  moreover have "stream ch' = stream ch"
    unfolding stream_def d'(4) by (simp add: ch'_def c_def delivered_def done_data_def)
  ultimately show ?thesis
    using d'(3) by (intro exI [of _ ch'] exI [of _ c]) (simp add: ch'_def c_def Some)
qed

lemma WritePayload_step:
  assumes wf: "channel_wf ch" and hdr: "header_ok m" and pay: "payload_ok ps"
  shows "\<exists>ch' st. USBPcapBufferWriteTimestampedPayload ch ts m ps = Some (ch', st) \<and>
    channel_wf ch' \<and>
    (if NT_SUCCESS st
     then stream ch' = stream ch @ record_bytes (root ch) ts m ps \<and>
       pending ch' = tl (pending ch) \<and>
       length (completed ch') = length (completed ch) + min 1 (length (pending ch))
     else ch' = ch)"
proof -
  obtain d' st where st: "USBPcapBufferStorePacket (root ch) ts m ps = Some (d', st)"
    "NT_SUCCESS st \<Longrightarrow> appends (root ch) (record_bytes (root ch) ts m ps) d'"
    "\<not> NT_SUCCESS st \<Longrightarrow> d' = root ch"
    using StorePacket_cases [OF _ hdr pay, of "root ch" ts] wf
    by (fastforce simp: channel_wf_def split: if_splits)
  show ?thesis
  proof (cases "NT_SUCCESS st")
    case False
    then show ?thesis
      using st wf by (simp add: USBPcapBufferWriteTimestampedPayload_def)
  next
    case True
    define ch1 where "ch1 = ch\<lparr>root := d'\<rparr>"
    have ch1: "channel_wf ch1" "stream ch1 = stream ch @ record_bytes (root ch) ts m ps"
      "pending ch1 = pending ch" "completed ch1 = completed ch"
      using wf st(2) [OF True]
      by (simp_all add: ch1_def channel_wf_def appends_def stream_def delivered_def)
    have run: "USBPcapBufferWriteTimestampedPayload ch ts m ps =
        do { ch' \<leftarrow> USBPcapBufferCompletePendedReadIrp ch1; Some (ch', st) }"
      using st(1) True by (simp add: USBPcapBufferWriteTimestampedPayload_def ch1_def)
    show ?thesis
    proof (cases "pending ch")
      case Nil
      then show ?thesis using run ch1 True by (simp add: CompletePended_idle)
    next
      case (Cons irp q)
      then obtain ch' c where "USBPcapBufferCompletePendedReadIrp ch1 = Some ch'" "channel_wf ch'"
        "pending ch' = q" "completed ch' = completed ch1 @ [c]" "stream ch' = stream ch1"
        using CompletePended_correct [OF ch1(1), of irp q] ch1(3) by auto
      then show ?thesis using run ch1 True Cons by simp
    qed
  qed
qed

text \<open>
  C37. Writing a packet either stores its whole record at the end of the channel's stream, or
  reports an error and leaves the stream as it was; data moves to a reader only when it is
  stored. If a read is pended, storing a packet completes exactly the oldest one, with data,
  and otherwise no request is touched. The operation never faults and keeps the channel well
  formed.
\<close>

theorem WritePayload_stream:
  assumes wf: "channel_wf ch" and hdr: "header_ok m" and pay: "payload_ok ps"
  shows "\<exists>ch' st. USBPcapBufferWriteTimestampedPayload ch ts m ps = Some (ch', st) \<and>
    channel_wf ch' \<and>
    (if NT_SUCCESS st
     then stream ch' = stream ch @ record_bytes (root ch) ts m ps \<and>
       pending ch' = tl (pending ch) \<and>
       length (completed ch') = length (completed ch) + min 1 (length (pending ch))
     else ch' = ch)"
  using assms by (rule WritePayload_step)

definition example_channel :: channel where
  "example_channel =
     \<lparr>root = example_buffer, pending = [example_irp 1 7, example_irp 2 8], completed = []\<rparr>"

lemma channel_wf_example: "channel_wf example_channel"
  by (simp add: channel_wf_def example_channel_def rb_wf_example irp_ok_def example_irp_def)

theorem WritePayload_stream_witness:
  "\<exists>ch' st. USBPcapBufferWriteTimestampedPayload example_channel 0
      (PlainHeader (example_header 3)) (example_payload [7, 8, 9]) = Some (ch', st) \<and>
    channel_wf ch' \<and>
    (if NT_SUCCESS st then pending ch' = [example_irp 2 8] \<and> length (completed ch') = 1
     else ch' = example_channel)"
proof -
  obtain ch' st where "USBPcapBufferWriteTimestampedPayload example_channel 0
      (PlainHeader (example_header 3)) (example_payload [7, 8, 9]) = Some (ch', st)" "channel_wf ch'"
    "NT_SUCCESS st \<Longrightarrow> pending ch' = tl (pending example_channel) \<and>
      length (completed ch') = length (completed example_channel) + min 1 (length (pending example_channel))"
    "\<not> NT_SUCCESS st \<Longrightarrow> ch' = example_channel"
    using WritePayload_stream [OF channel_wf_example header_ok_example,
        of "example_payload [7, 8, 9]" 0 3]
    by (auto simp: payload_ok_example)
  then show ?thesis by (intro exI [of _ ch'] exI [of _ st]) (simp add: example_channel_def)
qed

section \<open>Serving a read\<close>

lemma HandleReadIrp_step:
  assumes wf: "channel_wf ch" and irp: "irp_ok irp"
    and fresh: "irp_ptr irp \<notin> irp_ptr ` set (pending ch)"
  shows "\<exists>ch' irp' st n. USBPcapBufferHandleReadIrp ch irp = Some (ch', irp', st, n) \<and>
    channel_wf ch' \<and> completed ch' = completed ch \<and> irp_ptr irp' = irp_ptr irp \<and>
    contents (root ch) = (case irp_memory irp' of None \<Rightarrow> [] | Some m \<Rightarrow> take (unat n) m) @
      contents (root ch') \<and>
    (if irp_length irp = 0 then st = STATUS_SUCCESS \<and> n = 0 \<and> ch' = ch
     else if buffer (root ch) = None then st = STATUS_UNSUCCESSFUL \<and> n = 0 \<and> ch' = ch
     else if irp_memory irp = None then st = STATUS_INSUFFICIENT_RESOURCES \<and> n = 0 \<and> ch' = ch
     else if contents (root ch) = [] \<or> irp_mdl_bytes irp = 0
     then st = STATUS_PENDING \<and> n = 0 \<and> pending ch' = pending ch @ [irp'] \<and>
       contents (root ch') = contents (root ch)
     else st = STATUS_SUCCESS \<and> pending ch' = pending ch \<and>
       unat n = min (length (contents (root ch))) (unat (irp_mdl_bytes irp)))"
proof (cases "irp_length irp = 0 \<or> buffer (root ch) = None \<or> irp_memory irp = None")
  case True
  let ?st = "if irp_length irp = 0 then STATUS_SUCCESS
    else if buffer (root ch) = None then STATUS_UNSUCCESSFUL else STATUS_INSUFFICIENT_RESOURCES"
  from True have "USBPcapBufferHandleReadIrp ch irp = Some (ch, irp, ?st, 0)"
    by (auto simp: USBPcapBufferHandleReadIrp_def)
  then show ?thesis
    using wf True
    by (intro exI [of _ ch] exI [of _ irp] exI [of _ ?st] exI [of _ 0])
       (auto split: option.splits)
next
  case False
  then obtain m where m: "irp_memory irp = Some m" by auto
  have len: "length m = unat (irp_mdl_bytes irp)" and rb: "rb_wf (root ch)"
    using wf irp m by (simp_all add: channel_wf_def irp_ok_def)
  define k where "k = min (length (contents (root ch))) (unat (irp_mdl_bytes irp))"
  have k: "unat (of_nat k :: u32) = k"
    using unat_u32_lt [of "irp_mdl_bytes irp"] by (simp add: k_def unat_of_nat)
  define m' where "m' = take k (contents (root ch)) @ drop k m"
  obtain d' where d': "USBPcapBufferRead (root ch) m (irp_mdl_bytes irp) = Some (d', m', of_nat k)"
    "rb_wf d'" "contents d' = drop k (contents (root ch))"
    using BufferRead_correct [of "root ch" "irp_mdl_bytes irp" m] rb len
    by (auto simp: k_def m'_def)
  have m': "length m' = length m" "take k m' = take k (contents (root ch))"
    using len by (simp_all add: m'_def k_def)
  define irp' where "irp' = irp\<lparr>irp_memory := Some m'\<rparr>"
  define ch' where "ch' = (if k = 0
    then ch\<lparr>root := d', pending := pending ch @ [irp']\<rparr> else ch\<lparr>root := d'\<rparr>)"
  have nz: "(of_nat k :: u32) = 0 \<longleftrightarrow> k = 0"
    by (simp only: word_unat_eq_iff k unsigned_0)
  have run: "USBPcapBufferHandleReadIrp ch irp =
      Some (ch', irp', if k = 0 then STATUS_PENDING else STATUS_SUCCESS, of_nat k)"
    using False m d'(1) nz
    by (auto simp: USBPcapBufferHandleReadIrp_def ch'_def irp'_def DkCsqInsertIrp_def Let_def)
  have z: "k = 0 \<longleftrightarrow> contents (root ch) = [] \<or> irp_mdl_bytes irp = 0"
    by (auto simp: k_def min_def word_unat_eq_iff)
  show ?thesis
  proof (intro exI conjI)
    show "USBPcapBufferHandleReadIrp ch irp =
        Some (ch', irp', if k = 0 then STATUS_PENDING else STATUS_SUCCESS, of_nat k)" by (rule run)
    show "channel_wf ch'"
      using wf d'(2) irp len m'(1) m fresh
      by (simp add: channel_wf_def ch'_def irp'_def irp_ok_def)
    show "completed ch' = completed ch" "irp_ptr irp' = irp_ptr irp"
      by (simp_all add: ch'_def irp'_def)
    show "contents (root ch) =
        (case irp_memory irp' of None \<Rightarrow> [] | Some m \<Rightarrow> take (unat (of_nat k :: u32)) m) @
        contents (root ch')"
      by (simp add: ch'_def irp'_def d'(3) k m'(2))
  qed (use False z k k_def in \<open>simp add: ch'_def d'(3)\<close>)
qed

text \<open>
  A read request is answered at once when there is data, with the oldest unread bytes up
  to its buffer size, and pended when there is none; every other outcome leaves the channel
  unchanged. The data moved out is exactly what the buffer loses, and the request is queued
  at most once.
\<close>

theorem HandleReadIrp_correct:
  assumes wf: "channel_wf ch" and irp: "irp_ok irp"
    and fresh: "irp_ptr irp \<notin> irp_ptr ` set (pending ch)"
  shows "\<exists>ch' irp' st n. USBPcapBufferHandleReadIrp ch irp = Some (ch', irp', st, n) \<and>
    channel_wf ch' \<and> completed ch' = completed ch \<and> irp_ptr irp' = irp_ptr irp \<and>
    contents (root ch) = (case irp_memory irp' of None \<Rightarrow> [] | Some m \<Rightarrow> take (unat n) m) @
      contents (root ch') \<and>
    (if irp_length irp = 0 then st = STATUS_SUCCESS \<and> n = 0 \<and> ch' = ch
     else if buffer (root ch) = None then st = STATUS_UNSUCCESSFUL \<and> n = 0 \<and> ch' = ch
     else if irp_memory irp = None then st = STATUS_INSUFFICIENT_RESOURCES \<and> n = 0 \<and> ch' = ch
     else if contents (root ch) = [] \<or> irp_mdl_bytes irp = 0
     then st = STATUS_PENDING \<and> n = 0 \<and> pending ch' = pending ch @ [irp'] \<and>
       contents (root ch') = contents (root ch)
     else st = STATUS_SUCCESS \<and> pending ch' = pending ch \<and>
       unat n = min (length (contents (root ch))) (unat (irp_mdl_bytes irp)))"
  using assms by (rule HandleReadIrp_step)


theorem HandleReadIrp_correct_witness:
  "\<exists>ch' irp' n. USBPcapBufferHandleReadIrp example_channel (example_irp 3 7) =
      Some (ch', irp', STATUS_PENDING, n) \<and> channel_wf ch' \<and>
    pending ch' = [example_irp 1 7, example_irp 2 8, irp']"
  using HandleReadIrp_correct [OF channel_wf_example, of "example_irp 3 7"]
  by (force simp: example_channel_def contents_example example_buffer_Some example_irp_def irp_ok_def)


section \<open>Logging a packet, for the callers\<close>

text \<open>The fields of the root hub data that storing and reading packets never touch.\<close>

definition root_config :: "root_data \<Rightarrow> u32 \<times> u32 \<times> address_filter \<times> int \<times> u16 \<times> bool" where
  "root_config d = (bufferSize d, snaplen d, addr_filter d, refCount d, busId d, buffer d = None)"

text \<open>When the packet is stored: enough payload for the sanity check, a buffer, and room.\<close>

definition accepts :: "root_data \<Rightarrow> header_mem \<Rightarrow> payload_entry list \<Rightarrow> bool" where
  "accepts d m ps \<longleftrightarrow>
     stored_length d m \<le> length (header_mem_bytes m) + 16 + length (payload_stream ps) \<and>
     buffer d \<noteq> None \<and> length (contents d) + 16 + stored_length d m \<le> capacity d"

definition logs :: "channel \<Rightarrow> int \<Rightarrow> header_mem \<Rightarrow> payload_entry list \<Rightarrow> channel \<Rightarrow> bool" where
  "logs ch ts m ps ch' \<longleftrightarrow> channel_wf ch' \<and> root_config (root ch') = root_config (root ch) \<and>
     (if accepts (root ch) m ps
      then stream ch' = stream ch @ record_bytes (root ch) ts m ps \<and>
        pending ch' = tl (pending ch) \<and>
        length (completed ch') = length (completed ch) + min 1 (length (pending ch))
      else ch' = ch)"

lemma BufferRead_config:
  "USBPcapBufferRead d m n = Some (d', m', k) \<Longrightarrow> root_config d' = root_config d"
  by (auto simp: USBPcapBufferRead_def Let_def root_config_def bind_eq_Some_conv
      split: if_splits option.splits)

lemma CompletePended_config:
  "USBPcapBufferCompletePendedReadIrp ch = Some ch' \<Longrightarrow>
   root_config (root ch') = root_config (root ch)"
  by (auto simp: USBPcapBufferCompletePendedReadIrp_def bind_eq_Some_conv BufferRead_config
      split: prod.splits option.splits if_splits)

lemma appends_config: "appends d xs d' \<Longrightarrow> buffer d \<noteq> None \<Longrightarrow> root_config d' = root_config d"
  by (cases d; cases d') (auto simp: appends_def root_config_def)

lemma WritePayload_logs:
  assumes wf: "channel_wf ch" and hdr: "header_ok m" and pay: "payload_ok ps"
  shows "\<exists>ch' st. USBPcapBufferWriteTimestampedPayload ch ts m ps = Some (ch', st) \<and>
    logs ch ts m ps ch'"
proof -
  have rb: "rb_wf (root ch)" using wf by (simp add: channel_wf_def)
  obtain d' st where store: "USBPcapBufferStorePacket (root ch) ts m ps = Some (d', st)"
    and acc: "NT_SUCCESS st \<longleftrightarrow> accepts (root ch) m ps"
    and cfg: "root_config d' = root_config (root ch)"
    using StorePacket_cases [OF rb hdr pay, of ts]
    by (fastforce simp: accepts_def not_less not_le dest: appends_config split: if_splits)
  obtain ch' st' where wr: "USBPcapBufferWriteTimestampedPayload ch ts m ps = Some (ch', st')"
    "channel_wf ch'"
    "if NT_SUCCESS st' then stream ch' = stream ch @ record_bytes (root ch) ts m ps \<and>
       pending ch' = tl (pending ch) \<and>
       length (completed ch') = length (completed ch) + min 1 (length (pending ch))
     else ch' = ch"
    using WritePayload_step [OF wf hdr pay, of ts] by blast
  have "st' = st \<and> root_config (root ch') = root_config d'"
    using wr(1) store
    by (auto simp: USBPcapBufferWriteTimestampedPayload_def bind_eq_Some_conv Let_def
        dest: CompletePended_config split: if_splits)
  then show ?thesis using wr acc cfg by (auto simp: logs_def)
qed

lemma logs_stream: "logs ch ts m ps ch' \<Longrightarrow> \<exists>xs. stream ch' = stream ch @ xs"
  by (auto simp: logs_def split: if_splits)

end
