(* ===== verification/Tables.thy ===== *)
theory Tables
  imports Prelude
begin

text \<open>
  The endpoint table and the table of URBs in flight (USBPcapTables.h, USBPcapTables.c).
  Both are generic tables of the kernel's run-time library: an ordered collection searched
  with the driver's compare routine. The library routines are written here over the list of
  the elements in table order, as documented; the compare routines and everything on top of
  them are the driver's. An insertion takes the outcome of the pool allocation as an argument.
  The key structure passed to a search has only its key field set: the other fields are
  arbitrary and the compare routines do not read them.
\<close>

section \<open>The run-time library's generic table\<close>

datatype compare_result = GenericLessThan | GenericGreaterThan | GenericEqual

type_synonym 'e compare = "'e \<Rightarrow> 'e \<Rightarrow> compare_result"

fun rtl_lookup :: "'e compare \<Rightarrow> 'e \<Rightarrow> 'e list \<Rightarrow> 'e option" where
  "rtl_lookup cmp k [] = None"
| "rtl_lookup cmp k (x # xs) =
     (case cmp k x of GenericEqual \<Rightarrow> Some x | GenericLessThan \<Rightarrow> None
      | GenericGreaterThan \<Rightarrow> rtl_lookup cmp k xs)"

text \<open>The result: the table, the element found or inserted, and whether it is new.\<close>

fun rtl_insert :: "bool \<Rightarrow> 'e compare \<Rightarrow> 'e \<Rightarrow> 'e list \<Rightarrow> 'e list \<times> 'e option \<times> bool" where
  "rtl_insert alloc cmp k [] = (if alloc then ([k], Some k, True) else ([], None, False))"
| "rtl_insert alloc cmp k (x # xs) =
     (case cmp k x of GenericEqual \<Rightarrow> (x # xs, Some x, False)
      | GenericLessThan \<Rightarrow>
          (if alloc then (k # x # xs, Some k, True) else (x # xs, None, False))
      | GenericGreaterThan \<Rightarrow>
          (case rtl_insert alloc cmp k xs of (t, e, new) \<Rightarrow> (x # t, e, new)))"

fun rtl_delete :: "'e compare \<Rightarrow> 'e \<Rightarrow> 'e list \<Rightarrow> 'e list \<times> bool" where
  "rtl_delete cmp k [] = ([], False)"
| "rtl_delete cmp k (x # xs) =
     (case cmp k x of GenericEqual \<Rightarrow> (xs, True) | GenericLessThan \<Rightarrow> (x # xs, False)
      | GenericGreaterThan \<Rightarrow> (case rtl_delete cmp k xs of (t, r) \<Rightarrow> (x # t, r)))"

text \<open>Writing through the pointer that a lookup or insertion returned.\<close>

fun rtl_update :: "'e compare \<Rightarrow> 'e \<Rightarrow> ('e \<Rightarrow> 'e) \<Rightarrow> 'e list \<Rightarrow> 'e list" where
  "rtl_update cmp k f [] = []"
| "rtl_update cmp k f (x # xs) =
     (if cmp k x = GenericEqual then f x # xs else x # rtl_update cmp k f xs)"

section \<open>Elements and compare routines\<close>

record endpoint_info =
  ep_handle :: u64
  ep_type :: u32
  ep_address :: u8
  ep_device :: u16

text \<open>The fields of a USBD_PIPE_INFORMATION that the driver reads.\<close>

record pipe_information =
  PipeHandle :: u64
  PipeType :: u32
  EndpointAddress :: u8

record urb_irp_info =
  ui_irp :: u64
  ui_timestamp :: int
  ui_status :: u32
  ui_function :: u16
  ui_info :: u8
  ui_bus :: u16
  ui_device :: u16

definition USBPcapCompareEndpointInfo :: "endpoint_info compare" where
  "USBPcapCompareEndpointInfo left right =
     (if ep_handle left < ep_handle right then GenericLessThan
      else if ep_handle left = ep_handle right then GenericEqual
      else GenericGreaterThan)"

definition USBPcapCompareURBIRPInfo :: "urb_irp_info compare" where
  "USBPcapCompareURBIRPInfo left right =
     (if ui_irp left < ui_irp right then GenericLessThan
      else if ui_irp left = ui_irp right then GenericEqual
      else GenericGreaterThan)"

definition endpoint_key :: "u64 \<Rightarrow> endpoint_info" where
  "endpoint_key h = \<lparr>ep_handle = h, ep_type = 0, ep_address = 0, ep_device = 0\<rparr>"

definition irp_key :: "u64 \<Rightarrow> urb_irp_info" where
  "irp_key irp = \<lparr>ui_irp = irp, ui_timestamp = 0, ui_status = 0, ui_function = 0, ui_info = 0,
     ui_bus = 0, ui_device = 0\<rparr>"

section \<open>The driver's operations\<close>

definition USBPcapRemoveEndpointInfo :: "endpoint_info list \<Rightarrow> u64 \<Rightarrow> endpoint_info list" where
  "USBPcapRemoveEndpointInfo table handle =
     fst (rtl_delete USBPcapCompareEndpointInfo (endpoint_key handle) table)"

definition USBPcapAddEndpointInfo ::
  "bool \<Rightarrow> endpoint_info list \<Rightarrow> pipe_information \<Rightarrow> u16 \<Rightarrow> endpoint_info list" where
  "USBPcapAddEndpointInfo alloc table pipeInfo deviceAddress =
     (let info = \<lparr>ep_handle = PipeHandle pipeInfo, ep_type = PipeType pipeInfo,
            ep_address = EndpointAddress pipeInfo, ep_device = deviceAddress\<rparr>
      in case rtl_insert alloc USBPcapCompareEndpointInfo info table of (table', pInfo, new) \<Rightarrow>
        if \<not> new \<and> pInfo \<noteq> None
        then rtl_update USBPcapCompareEndpointInfo info
          (\<lambda>e. e\<lparr>ep_type := PipeType pipeInfo, ep_address := EndpointAddress pipeInfo,
             ep_device := deviceAddress\<rparr>) table'
        else table')"

definition USBPcapGetEndpointInfo ::
  "endpoint_info list \<Rightarrow> u64 \<Rightarrow> endpoint_info option" where
  "USBPcapGetEndpointInfo table handle =
     rtl_lookup USBPcapCompareEndpointInfo (endpoint_key handle) table"

text \<open>None for the table stands for a NULL pointer, whose use faults.\<close>

definition USBPcapRetrieveEndpointInfo ::
  "endpoint_info list option \<Rightarrow> u64 \<Rightarrow> endpoint_info option option" where
  "USBPcapRetrieveEndpointInfo table handle = map_option (\<lambda>t. USBPcapGetEndpointInfo t handle) table"

definition USBPcapRemoveURBIRPInfo :: "urb_irp_info list \<Rightarrow> u64 \<Rightarrow> urb_irp_info list" where
  "USBPcapRemoveURBIRPInfo table irp = fst (rtl_delete USBPcapCompareURBIRPInfo (irp_key irp) table)"

definition USBPcapAddURBIRPInfo ::
  "bool \<Rightarrow> urb_irp_info list \<Rightarrow> urb_irp_info \<Rightarrow> urb_irp_info list" where
  "USBPcapAddURBIRPInfo alloc table irpinfo =
     fst (rtl_insert alloc USBPcapCompareURBIRPInfo irpinfo table)"

definition USBPcapGetURBIRPInfo :: "urb_irp_info list \<Rightarrow> u64 \<Rightarrow> urb_irp_info option" where
  "USBPcapGetURBIRPInfo table irp = rtl_lookup USBPcapCompareURBIRPInfo (irp_key irp) table"

definition USBPcapObtainURBIRPInfo ::
  "urb_irp_info list option \<Rightarrow> u64 \<Rightarrow> (urb_irp_info list \<times> urb_irp_info option) option" where
  "USBPcapObtainURBIRPInfo table irp =
     map_option (\<lambda>t. case USBPcapGetURBIRPInfo t irp of
         None \<Rightarrow> (t, None)
       | Some info \<Rightarrow> (USBPcapRemoveURBIRPInfo t irp, Some info)) table"

text \<open>An initialised table is empty; the allocation of its structure may fail.\<close>

definition USBPcapInitializeEndpointTable :: "bool \<Rightarrow> endpoint_info list option" where
  "USBPcapInitializeEndpointTable alloc = (if alloc then Some [] else None)"

definition USBPcapInitializeURBIRPInfoTable :: "bool \<Rightarrow> urb_irp_info list option" where
  "USBPcapInitializeURBIRPInfoTable alloc = (if alloc then Some [] else None)"

text \<open>
  Emptying a table: while there is a first element, delete it. The result is what is left
  when the loop ends, just before the table structure itself is freed.
\<close>

lemma delete_first [simp]:
  "cmp x x = GenericEqual \<Longrightarrow> rtl_delete cmp x (x # xs) = (xs, True)"
  by simp

lemma compare_refl [simp]:
  "USBPcapCompareEndpointInfo e e = GenericEqual" "USBPcapCompareURBIRPInfo u u = GenericEqual"
  by (simp_all add: USBPcapCompareEndpointInfo_def USBPcapCompareURBIRPInfo_def)

function USBPcapFreeEndpointTable :: "endpoint_info list \<Rightarrow> endpoint_info list" where
  "USBPcapFreeEndpointTable table =
     (case table of
        [] \<Rightarrow> []
      | element # _ \<Rightarrow>
          USBPcapFreeEndpointTable (fst (rtl_delete USBPcapCompareEndpointInfo element table)))"
  by pat_completeness auto
termination
  by (relation "measure length") auto

function USBPcapFreeURBIRPInfoTable :: "urb_irp_info list \<Rightarrow> urb_irp_info list" where
  "USBPcapFreeURBIRPInfoTable table =
     (case table of
        [] \<Rightarrow> []
      | element # _ \<Rightarrow>
          USBPcapFreeURBIRPInfoTable (fst (rtl_delete USBPcapCompareURBIRPInfo element table)))"
  by pat_completeness auto
termination
  by (relation "measure length") auto

declare USBPcapFreeEndpointTable.simps [simp del] USBPcapFreeURBIRPInfoTable.simps [simp del]

section \<open>The contract of a keyed table\<close>

text \<open>
  A compare routine that orders the elements by a 64-bit key turns the generic table into a
  finite map from keys to elements, as long as the table is sorted, which every operation
  keeps.
\<close>

definition table_sorted :: "('e \<Rightarrow> u64) \<Rightarrow> 'e list \<Rightarrow> bool" where
  "table_sorted key t \<longleftrightarrow> sorted_wrt (<) (map key t)"

definition table_map :: "('e \<Rightarrow> u64) \<Rightarrow> 'e list \<Rightarrow> u64 \<rightharpoonup> 'e" where
  "table_map key t = map_of (map (\<lambda>e. (key e, e)) t)"

lemma table_map_simps [simp]:
  "table_map key [] = Map.empty"
  "table_map key (x # t) = (table_map key t)(key x \<mapsto> x)"
  by (simp_all add: table_map_def)

lemma table_sorted_simps [simp]:
  "table_sorted key []"
  "table_sorted key (x # t) \<longleftrightarrow> (\<forall>y\<in>set t. key x < key y) \<and> table_sorted key t"
  by (simp_all add: table_sorted_def)

lemma table_map_below: "\<forall>y\<in>set t. k < key y \<Longrightarrow> table_map key t k = None"
  by (induction t) auto

locale keyed_table =
  fixes cmp :: "'e compare" and key :: "'e \<Rightarrow> u64"
  assumes cmp_key: "cmp x y =
    (if key x < key y then GenericLessThan
     else if key x = key y then GenericEqual else GenericGreaterThan)"
begin

lemma cmp_iffs:
  "cmp x y = GenericLessThan \<longleftrightarrow> key x < key y"
  "cmp x y = GenericEqual \<longleftrightarrow> key x = key y"
  "cmp x y = GenericGreaterThan \<longleftrightarrow> key y < key x"
  by (auto simp: cmp_key [of x y])

lemma cmp_case:
  "(case cmp x y of GenericLessThan \<Rightarrow> a | GenericGreaterThan \<Rightarrow> b | GenericEqual \<Rightarrow> c) =
   (if key x < key y then a else if key x = key y then c else b)"
  by (simp add: cmp_key [of x y])

lemma lookup_map: "table_sorted key t \<Longrightarrow> rtl_lookup cmp k t = table_map key t (key k)"
  by (induction t) (auto simp: cmp_key intro!: table_map_below [symmetric])

lemma delete_set: "set (fst (rtl_delete cmp k t)) \<subseteq> set t"
  by (induction t) (auto split: compare_result.split prod.splits)

lemma delete_map:
  "table_sorted key t \<Longrightarrow>
   table_sorted key (fst (rtl_delete cmp k t)) \<and>
   table_map key (fst (rtl_delete cmp k t)) = (table_map key t)(key k := None)"
proof (induction t)
  case Nil
  then show ?case by simp
next
  case (Cons x t)
  then show ?case
    using delete_set [of k t] table_map_below [of t "key k" key]
    by (force simp: cmp_case fun_eq_iff intro: less_trans split: prod.splits if_splits)
qed

lemma insert_set: "set (fst (rtl_insert alloc cmp k t)) \<subseteq> insert k (set t)"
  by (induction t) (auto split: compare_result.split prod.splits)

lemma insert_map:
  "table_sorted key t \<Longrightarrow> rtl_insert alloc cmp k t = (t', e, new) \<Longrightarrow>
   table_sorted key t' \<and>
   (case table_map key t (key k) of
      Some x \<Rightarrow> t' = t \<and> e = Some x \<and> \<not> new
    | None \<Rightarrow> if alloc then table_map key t' = (table_map key t)(key k \<mapsto> k) \<and> e = Some k \<and> new
              else t' = t \<and> e = None \<and> \<not> new)"
proof (induction t arbitrary: t' e new)
  case Nil
  then show ?case by (auto split: if_splits)
next
  case (Cons x t)
  obtain t1 e1 n1 where r: "rtl_insert alloc cmp k t = (t1, e1, n1)" by (metis prod_cases3)
  show ?case
  proof (cases "key x < key k")
    case True
    then have "cmp k x = GenericGreaterThan" by (auto simp: cmp_key)
    then have "t' = x # t1" "e = e1" "new = n1"
      using Cons.prems(2) r by auto
    moreover have "set t1 \<subseteq> insert k (set t)" using insert_set [of alloc k t] r by simp
    ultimately show ?thesis
      using Cons.IH [OF _ r] Cons.prems(1) True
      by (auto simp: fun_eq_iff split: option.splits if_splits)
  next
    case False
    then consider "key k = key x" | "key k < key x" by force
    then show ?thesis
    proof cases
      case 1
      then have "cmp k x = GenericEqual" by (simp add: cmp_iffs)
      then show ?thesis using Cons.prems 1 by auto
    next
      case 2
      then have less: "cmp k x = GenericLessThan" by (simp add: cmp_iffs)
      have below: "\<forall>y\<in>set t. key k < key y"
        using Cons.prems(1) 2 by (auto intro: less_trans)
      show ?thesis
        using Cons.prems 2 less below table_map_below [OF below]
        by (auto split: if_splits)
    qed
  qed
qed

lemma update_map:
  "table_sorted key t \<Longrightarrow> (\<And>e. key (f e) = key e) \<Longrightarrow>
   table_sorted key (rtl_update cmp k f t) \<and>
   table_map key (rtl_update cmp k f t) =
     (table_map key t)(key k := map_option f (table_map key t (key k)))"
proof (induction t)
  case Nil
  then show ?case by simp
next
  case (Cons x t)
  have "set (map key (rtl_update cmp k f t)) = set (map key t)"
    using Cons.prems(2) by (induction t) auto
  then have below: "(\<forall>y\<in>set (rtl_update cmp k f t). key x < key y) \<longleftrightarrow> (\<forall>y\<in>set t. key x < key y)"
    by (metis (no_types, opaque_lifting) image_iff list.set_map)
  show ?case
    using Cons below by (auto simp: cmp_iffs fun_eq_iff)
qed

end

interpretation ep: keyed_table USBPcapCompareEndpointInfo ep_handle
  by unfold_locales (simp add: USBPcapCompareEndpointInfo_def)

interpretation ui: keyed_table USBPcapCompareURBIRPInfo ui_irp
  by unfold_locales (simp add: USBPcapCompareURBIRPInfo_def)

section \<open>What the tables promise\<close>

abbreviation endpoint_map :: "endpoint_info list \<Rightarrow> u64 \<rightharpoonup> endpoint_info" where
  "endpoint_map \<equiv> table_map ep_handle"

abbreviation irp_map :: "urb_irp_info list \<Rightarrow> u64 \<rightharpoonup> urb_irp_info" where
  "irp_map \<equiv> table_map ui_irp"

lemma key_simps [simp]: "ep_handle (endpoint_key h) = h" "ui_irp (irp_key i) = i"
  by (simp_all add: endpoint_key_def irp_key_def)

lemma GetEndpointInfo_map:
  "table_sorted ep_handle t \<Longrightarrow> USBPcapGetEndpointInfo t h = endpoint_map t h"
  by (simp add: USBPcapGetEndpointInfo_def ep.lookup_map)

lemma RemoveEndpointInfo_map:
  "table_sorted ep_handle t \<Longrightarrow> table_sorted ep_handle (USBPcapRemoveEndpointInfo t h) \<and>
   endpoint_map (USBPcapRemoveEndpointInfo t h) = (endpoint_map t)(h := None)"
  using ep.delete_map [of t "endpoint_key h"] by (simp add: USBPcapRemoveEndpointInfo_def)


definition pipe_endpoint :: "pipe_information \<Rightarrow> u16 \<Rightarrow> endpoint_info" where
  "pipe_endpoint pipe dev = \<lparr>ep_handle = PipeHandle pipe, ep_type = PipeType pipe,
     ep_address = EndpointAddress pipe, ep_device = dev\<rparr>"

lemma AddEndpointInfo_map:
  assumes "table_sorted ep_handle t"
  shows "table_sorted ep_handle (USBPcapAddEndpointInfo alloc t pipe dev) \<and>
    endpoint_map (USBPcapAddEndpointInfo alloc t pipe dev) =
      (if alloc \<or> endpoint_map t (PipeHandle pipe) \<noteq> None
       then (endpoint_map t)(PipeHandle pipe \<mapsto> pipe_endpoint pipe dev) else endpoint_map t)"
proof -
  define info where "info = \<lparr>ep_handle = PipeHandle pipe, ep_type = PipeType pipe,
    ep_address = EndpointAddress pipe, ep_device = dev\<rparr>"
  define upd where "upd = (\<lambda>e :: endpoint_info. e\<lparr>ep_type := PipeType pipe,
    ep_address := EndpointAddress pipe, ep_device := dev\<rparr>)"
  obtain t' e new where ins: "rtl_insert alloc USBPcapCompareEndpointInfo info t = (t', e, new)"
    by (metis prod_cases3)
  note m = ep.insert_map [OF assms ins]
  have upd_info: "ep_handle x = PipeHandle pipe \<Longrightarrow> upd x = info" for x
    by (cases x) (simp add: upd_def info_def)
  have add: "USBPcapAddEndpointInfo alloc t pipe dev =
      (if \<not> new \<and> e \<noteq> None then rtl_update USBPcapCompareEndpointInfo info upd t' else t')"
    using ins by (simp add: USBPcapAddEndpointInfo_def info_def upd_def)
  have key: "ep_handle info = PipeHandle pipe" "ep_handle (upd x) = ep_handle x" for x
    by (simp_all add: info_def upd_def)
  have found: "endpoint_map t (PipeHandle pipe) = Some x \<Longrightarrow> ep_handle x = PipeHandle pipe" for x
    by (auto simp: table_map_def dest!: map_of_SomeD)
  have "pipe_endpoint pipe dev = info" by (simp add: info_def pipe_endpoint_def)
  then show ?thesis
    using m ep.update_map [of t upd info] assms key upd_info found
    by (auto simp: add split: option.splits if_splits)
qed

text \<open>
  C39. The endpoint table is a map from pipe handles to endpoint records. Adding a pipe makes
  the handle resolve to exactly the pipe's type, address and device, whether the handle was
  new or known before, and changes no other handle; removing makes it unknown and changes no
  other. When the allocation for a new handle fails, the table is unchanged, and a known
  handle is updated without an allocation. The table stays ordered throughout.
\<close>

theorem endpoint_table_correct:
  assumes "table_sorted ep_handle t"
  shows "USBPcapGetEndpointInfo (USBPcapAddEndpointInfo alloc t pipe dev) h =
      (if h = PipeHandle pipe \<and> (alloc \<or> USBPcapGetEndpointInfo t h \<noteq> None)
       then Some \<lparr>ep_handle = h, ep_type = PipeType pipe, ep_address = EndpointAddress pipe,
              ep_device = dev\<rparr>
       else USBPcapGetEndpointInfo t h) \<and>
    USBPcapGetEndpointInfo (USBPcapRemoveEndpointInfo t h') h =
      (if h = h' then None else USBPcapGetEndpointInfo t h) \<and>
    table_sorted ep_handle (USBPcapAddEndpointInfo alloc t pipe dev) \<and>
    table_sorted ep_handle (USBPcapRemoveEndpointInfo t h')"
  using AddEndpointInfo_map [OF assms, of alloc pipe dev]
    RemoveEndpointInfo_map [OF assms, of h'] assms
  by (auto simp: GetEndpointInfo_map pipe_endpoint_def)

definition example_pipe :: pipe_information where
  "example_pipe = \<lparr>PipeHandle = 5, PipeType = 2, EndpointAddress = 0x81\<rparr>"

theorem endpoint_table_correct_witness:
  "USBPcapGetEndpointInfo (USBPcapAddEndpointInfo True [] example_pipe 3) 5 =
     Some \<lparr>ep_handle = 5, ep_type = 2, ep_address = 0x81, ep_device = 3\<rparr>"
  using endpoint_table_correct [of "[]" True example_pipe 3 5]
  by (simp add: example_pipe_def)

lemma AddURBIRPInfo_map:
  assumes "table_sorted ui_irp t"
  shows "table_sorted ui_irp (USBPcapAddURBIRPInfo alloc t info) \<and>
    irp_map (USBPcapAddURBIRPInfo alloc t info) =
      (if irp_map t (ui_irp info) = None \<and> alloc then (irp_map t)(ui_irp info \<mapsto> info) else irp_map t)"
proof -
  obtain t1 e new where ins: "rtl_insert alloc USBPcapCompareURBIRPInfo info t = (t1, e, new)"
    by (rule prod_cases3)
  then show ?thesis
    using ui.insert_map [OF assms ins]
    by (auto simp: USBPcapAddURBIRPInfo_def split: option.splits if_splits)
qed

lemma ObtainURBIRPInfo_map:
  assumes "table_sorted ui_irp t"
  shows "\<exists>t'. USBPcapObtainURBIRPInfo (Some t) irp = Some (t', irp_map t irp) \<and>
    table_sorted ui_irp t' \<and> irp_map t' = (irp_map t)(irp := None)"
proof -
  have get: "USBPcapGetURBIRPInfo t irp = irp_map t irp"
    by (simp add: USBPcapGetURBIRPInfo_def ui.lookup_map assms)
  have rem: "table_sorted ui_irp (USBPcapRemoveURBIRPInfo t irp)"
    "irp_map (USBPcapRemoveURBIRPInfo t irp) = (irp_map t)(irp := None)"
    using ui.delete_map [OF assms, of "irp_key irp"] by (simp_all add: USBPcapRemoveURBIRPInfo_def)
  show ?thesis
    using rem assms by (cases "irp_map t irp") (auto simp: USBPcapObtainURBIRPInfo_def get fun_upd_idem)
qed

text \<open>
  What is recorded about a request on its way down is obtained exactly once on its way
  up: after adding, obtaining returns the record that was added (or the older record of the
  same request, which an addition does not replace) and removes it, so that obtaining it again
  finds nothing; the records of all other requests stay as they were.
\<close>

theorem urb_irp_obtained_once:
  assumes "table_sorted ui_irp t"
  shows "\<exists>t'. USBPcapObtainURBIRPInfo (Some (USBPcapAddURBIRPInfo alloc t info)) (ui_irp info) =
      Some (t', case irp_map t (ui_irp info) of Some old \<Rightarrow> Some old
                | None \<Rightarrow> if alloc then Some info else None) \<and>
    table_sorted ui_irp t' \<and> irp_map t' = (irp_map t)(ui_irp info := None) \<and>
    USBPcapObtainURBIRPInfo (Some t') (ui_irp info) = Some (t', None)"
proof -
  define t1 where "t1 = USBPcapAddURBIRPInfo alloc t info"
  note add = AddURBIRPInfo_map [OF assms, of alloc info, folded t1_def]
  obtain t' where t': "USBPcapObtainURBIRPInfo (Some t1) (ui_irp info) = Some (t', irp_map t1 (ui_irp info))"
    "table_sorted ui_irp t'" "irp_map t' = (irp_map t1)(ui_irp info := None)"
    using ObtainURBIRPInfo_map [of t1 "ui_irp info"] add by blast
  moreover have "USBPcapObtainURBIRPInfo (Some t') (ui_irp info) = Some (t', None)"
    using t'(2,3)
    by (simp add: USBPcapObtainURBIRPInfo_def USBPcapGetURBIRPInfo_def ui.lookup_map)
  ultimately show ?thesis
    using add unfolding t1_def [symmetric]
    by (intro exI [of _ t']) (auto split: option.splits)
qed

theorem urb_irp_obtained_once_witness:
  "\<exists>t'. USBPcapObtainURBIRPInfo (Some (USBPcapAddURBIRPInfo True [] (irp_key 9))) 9 =
      Some (t', Some (irp_key 9)) \<and>
    USBPcapObtainURBIRPInfo (Some t') 9 = Some (t', None)"
  using urb_irp_obtained_once [of "[]" True "irp_key 9"] by auto

text \<open>
  Freeing either table deletes every element before the table itself is released, and the
  loops that do it end.
\<close>

theorem free_tables_empty:
  "USBPcapFreeEndpointTable t = [] \<and> USBPcapFreeURBIRPInfoTable u = []"
proof
  show "USBPcapFreeEndpointTable t = []"
    by (induction t) (simp_all add: USBPcapFreeEndpointTable.simps)
  show "USBPcapFreeURBIRPInfoTable u = []"
    by (induction u) (simp_all add: USBPcapFreeURBIRPInfoTable.simps)
qed

end
