(* ===== verification/InterfaceParser.thy ===== *)
theory InterfaceParser
  imports Tables
begin

text \<open>
  The scan of the interface information of a select-configuration or select-interface URB
  for pipe handles (USBPcapURB.c, USBPcapParseInterfaceInformation). The interface
  information is a block of bytes laid out as the 64-bit USBD structures: an interface is
  Length (2 bytes at 0), InterfaceNumber (1 at 2), AlternateSetting (1 at 3), class, subclass
  and protocol, the interface handle (8 at 8), NumberOfPipes (4 at 16) and the pipes from 24 on;
  a pipe is 24 bytes, with EndpointAddress (1 at 2), PipeType (4 at 4) and PipeHandle (8 at 8).
  sizeof(USBD_INTERFACE_INFORMATION) is 48, one pipe included. Every read is bounds-checked.

  \<open>pool\<close> says for each position of a pipe in the block whether the allocation of its
  table element succeeds.
\<close>

section \<open>The scan\<close>

primrec parse_pipes ::
  "(nat \<Rightarrow> bool) \<Rightarrow> u16 \<Rightarrow> bytes \<Rightarrow> nat \<Rightarrow> nat \<Rightarrow> endpoint_info list option \<Rightarrow>
   endpoint_info list option option" where
  "parse_pipes pool dev mem 0 = (\<lambda>pos table. Some table)"
| "parse_pipes pool dev mem (Suc n) = (\<lambda>pos table. do {
     addr \<leftarrow> read8 mem (pos + 2);
     type \<leftarrow> read32 mem (pos + 4);
     handle \<leftarrow> read64 mem (pos + 8);
     t \<leftarrow> table;
     parse_pipes pool dev mem n (pos + 24)
       (Some (USBPcapAddEndpointInfo (pool pos) t
          \<lparr>PipeHandle = handle, PipeType = type, EndpointAddress = addr\<rparr> dev)) })"

text \<open>The 32-bit length the pipes need, computed in 64 bits and truncated.\<close>

definition required_length :: "u32 \<Rightarrow> u32" where
  "required_length numberOfPipes = ucast (48 + 24 * ucast (numberOfPipes - 1) :: u64)"

function parse_interfaces ::
  "(nat \<Rightarrow> bool) \<Rightarrow> u16 \<Rightarrow> bytes \<Rightarrow> nat \<Rightarrow> u16 \<Rightarrow> endpoint_info list option \<Rightarrow>
   endpoint_info list option option" where
  "parse_interfaces pool dev mem pos interfaces_len table =
     (if interfaces_len = 0 then Some table
      else do {
        len \<leftarrow> read16 mem pos;
        if len = 0 then Some table
        else if interfaces_len < 48 then Some table
        else if len > interfaces_len then Some table
        else do {
          n \<leftarrow> read32 mem (pos + 16);
          if n > 1 \<and> ucast interfaces_len < required_length n then Some table
          else do {
            table' \<leftarrow> parse_pipes pool dev mem (unat n) (pos + 24) table;
            parse_interfaces pool dev mem (pos + unat len) (interfaces_len - len) table' } } })"
  by pat_completeness auto
termination
proof (relation "measure (\<lambda>(pool, dev, mem, pos, len, table). unat len)", goal_cases)
  case (2 pool dev mem pos interfaces_len table len n table')
  then have "unat len \<le> unat interfaces_len" "0 < unat len"
    by (simp_all add: word_le_nat_alt [symmetric] unat_gt_0 not_less)
  moreover from 2 have "unat (interfaces_len - len) = unat interfaces_len - unat len"
    by (simp add: unat_sub)
  ultimately show ?case by simp
qed simp

declare parse_interfaces.simps [simp del]

definition USBPcapParseInterfaceInformation ::
  "(nat \<Rightarrow> bool) \<Rightarrow> u16 \<Rightarrow> bytes \<Rightarrow> u16 \<Rightarrow> endpoint_info list option \<Rightarrow>
   endpoint_info list option option" where
  "USBPcapParseInterfaceInformation pool dev mem interfaces_len table =
     parse_interfaces pool dev mem 0 interfaces_len table"

section \<open>Encoded interfaces\<close>

text \<open>What the USB stack writes, to state what the scan finds.\<close>

record pipe_layout =
  pl_max_packet :: u16
  pl_address :: u8
  pl_interval :: u8
  pl_type :: u32
  pl_handle :: u64
  pl_max_transfer :: u32
  pl_flags :: u32

record interface_layout =
  il_number :: u8
  il_alternate :: u8
  il_class :: u32
  il_handle :: u64
  il_pipes :: "pipe_layout list"

definition pipe_bytes :: "pipe_layout \<Rightarrow> bytes" where
  "pipe_bytes p = le16 (pl_max_packet p) @ [pl_address p, pl_interval p] @ le32 (pl_type p) @
     le64 (pl_handle p) @ le32 (pl_max_transfer p) @ le32 (pl_flags p)"

definition interface_size :: "interface_layout \<Rightarrow> nat" where
  "interface_size i = 24 + 24 * length (il_pipes i)"

definition interface_bytes :: "interface_layout \<Rightarrow> bytes" where
  "interface_bytes i = le16 (of_nat (interface_size i)) @ [il_number i, il_alternate i] @
     le32 (il_class i) @ le64 (il_handle i) @ le32 (of_nat (length (il_pipes i))) @ le32 0 @
     concat (map pipe_bytes (il_pipes i))"

definition pipe_info :: "pipe_layout \<Rightarrow> pipe_information" where
  "pipe_info p = \<lparr>PipeHandle = pl_handle p, PipeType = pl_type p, EndpointAddress = pl_address p\<rparr>"

definition add_pipes :: "u16 \<Rightarrow> pipe_layout list \<Rightarrow> endpoint_info list \<Rightarrow> endpoint_info list" where
  "add_pipes dev ps t = fold (\<lambda>p t. USBPcapAddEndpointInfo True t (pipe_info p) dev) ps t"

text \<open>The same with the outcome of each allocation, by the position of the pipe.\<close>

fun add_pipes_at ::
  "(nat \<Rightarrow> bool) \<Rightarrow> u16 \<Rightarrow> nat \<Rightarrow> pipe_layout list \<Rightarrow> endpoint_info list \<Rightarrow> endpoint_info list" where
  "add_pipes_at pool dev pos [] t = t"
| "add_pipes_at pool dev pos (p # ps) t =
     add_pipes_at pool dev (pos + 24) ps
       (USBPcapAddEndpointInfo (pool pos) t (pipe_info p) dev)"

fun add_interfaces ::
  "(nat \<Rightarrow> bool) \<Rightarrow> u16 \<Rightarrow> nat \<Rightarrow> interface_layout list \<Rightarrow> endpoint_info list \<Rightarrow>
   endpoint_info list" where
  "add_interfaces pool dev pos [] t = t"
| "add_interfaces pool dev pos (i # is) t =
     add_interfaces pool dev (pos + interface_size i) is
       (add_pipes_at pool dev (pos + 24) (il_pipes i) t)"

lemma length_pipe_bytes [simp]: "length (pipe_bytes p) = 24"
  by (simp add: pipe_bytes_def)

lemma length_pipes [simp]: "length (concat (map pipe_bytes ps)) = 24 * length ps"
  by (induction ps) auto

lemma length_interface_bytes [simp]: "length (interface_bytes i) = interface_size i"
  by (simp add: interface_bytes_def interface_size_def)

lemma read_pipe:
  "read8 (pipe_bytes p @ r) 2 = Some (pl_address p)"
  "read32 (pipe_bytes p @ r) 4 = Some (pl_type p)"
  "read64 (pipe_bytes p @ r) 8 = Some (pl_handle p)"
  by (simp_all add: pipe_bytes_def field_simps_le)

lemma read_at:
  "read8 (pre @ m) (length pre + k) = read8 m k"
  "read16 (pre @ m) (length pre + k) = read16 m k"
  "read32 (pre @ m) (length pre + k) = read32 m k"
  "read64 (pre @ m) (length pre + k) = read64 m k"
  "read16 (pre @ m) (length pre) = read16 m 0"
  "read8 (pre @ m) (Suc (Suc (length pre))) = read8 m 2"
  by (simp_all add: read_skip)

lemma parse_pipes_bytes:
  "parse_pipes pool dev (pre @ concat (map pipe_bytes ps) @ rest) (length ps) (length pre)
     (Some t) = Some (Some (add_pipes_at pool dev (length pre) ps t))"
proof (induction ps arbitrary: pre t)
  case Nil
  then show ?case by simp
next
  case (Cons p ps)
  have "parse_pipes pool dev ((pre @ pipe_bytes p) @ concat (map pipe_bytes ps) @ rest)
      (length ps) (length (pre @ pipe_bytes p))
      (Some (USBPcapAddEndpointInfo (pool (length pre)) t (pipe_info p) dev)) =
    Some (Some (add_pipes_at pool dev (length (pre @ pipe_bytes p)) ps
      (USBPcapAddEndpointInfo (pool (length pre)) t (pipe_info p) dev)))"
    by (rule Cons.IH)
  then show ?case
    by (simp add: read_at read_pipe pipe_info_def)
qed

lemma read_interface:
  "read16 (interface_bytes i @ r) 0 = Some (of_nat (interface_size i))"
  "read32 (interface_bytes i @ r) 16 = Some (of_nat (length (il_pipes i)))"
  by (simp_all add: interface_bytes_def field_simps_le)

lemma required_length_small:
  "1 \<le> n \<Longrightarrow> n < 100000 \<Longrightarrow> unat (required_length (of_nat n)) = 24 + 24 * n"
proof -
  assume n: "1 \<le> n" "n < 100000"
  have "unat (of_nat n - 1 :: u32) = n - 1"
    using n by (subst unat_sub) (simp_all add: unat_of_nat word_le_nat_alt)
  then show ?thesis
    using n by (simp add: required_length_def unsigned_ucast_eq take_bit_nat_def unat_word_ariths
        unat_of_nat)
qed


definition interfaces_bytes :: "interface_layout list \<Rightarrow> bytes" where
  "interfaces_bytes is = concat (map interface_bytes is)"

definition all_pipes :: "interface_layout list \<Rightarrow> pipe_layout list" where
  "all_pipes is = concat (map il_pipes is)"

lemma interface_size_ge: "24 \<le> interface_size i"
  by (simp add: interface_size_def)

lemma parse_interfaces_bytes:
  "length (interfaces_bytes is) < 65536 \<Longrightarrow> unat n = length (interfaces_bytes is) \<Longrightarrow>
   parse_interfaces pool dev (pre @ interfaces_bytes is) (length pre) n (Some t) =
     Some (Some (add_interfaces pool dev (length pre) is t))"
proof (induction "is" arbitrary: pre n t)
  case Nil
  then have "n = 0" by (simp add: interfaces_bytes_def unat_eq_zero)
  then show ?case
    by (subst parse_interfaces.simps) simp
next
  case (Cons i "is")
  define rest where "rest = interfaces_bytes is"
  have bytes: "interfaces_bytes (i # is) = interface_bytes i @ rest"
    by (simp add: interfaces_bytes_def rest_def)
  have n: "unat n = interface_size i + length rest" "interface_size i + length rest < 65536"
    using Cons.prems by (simp_all add: bytes)
  have len: "unat (of_nat (interface_size i) :: u16) = interface_size i"
    using n by (simp add: unat_of_nat)
  have pipes: "unat (of_nat (length (il_pipes i)) :: u32) = length (il_pipes i)"
    using n by (simp add: unat_of_nat interface_size_def)
  have nz: "n \<noteq> 0" using n interface_size_ge [of i] by auto
  have lnz: "(of_nat (interface_size i) :: u16) \<noteq> 0"
    using len interface_size_ge [of i] by (metis not_numeral_le_zero unsigned_0)
  note step = parse_interfaces.simps [of pool dev "pre @ interfaces_bytes (i # is)"
      "length pre" n "Some t"]
  show ?case
  proof (cases "n < 48")
    case True
    then have small: "24 * length (il_pipes i) + length rest < 24"
      using n by (simp add: word_less_nat_alt interface_size_def)
    have "is = []"
    proof (cases "is")
      case (Cons j js)
      then have "24 \<le> length rest"
        using interface_size_ge [of j] by (simp add: rest_def interfaces_bytes_def)
      with small show ?thesis by simp
    qed simp
    moreover from small have "length (il_pipes i) = 0" by linarith
    ultimately show ?thesis
      using True nz lnz unfolding step unfolding bytes
      by (simp add: read_at read_interface)
  next
    case False
    have fits: "\<not> (of_nat (interface_size i) :: u16) > n"
      using n len by (simp add: word_less_nat_alt)
    have req: "\<not> ((of_nat (length (il_pipes i)) :: u32) > 1 \<and>
        ucast n < required_length (of_nat (length (il_pipes i))))"
    proof (cases "1 < length (il_pipes i)")
      case True
      then show ?thesis
        using n required_length_small [of "length (il_pipes i)"]
        by (simp add: word_less_nat_alt interface_size_def)
    next
      case False
      then show ?thesis using pipes by (simp add: word_less_nat_alt)
    qed
    have "interface_bytes i = take 24 (interface_bytes i) @ concat (map pipe_bytes (il_pipes i))"
      by (simp add: interface_bytes_def)
    then obtain h where h: "interface_bytes i = h @ concat (map pipe_bytes (il_pipes i))" "length h = 24"
      by (metis (no_types, lifting) interface_size_ge length_interface_bytes length_take min.absorb2)
    have "parse_pipes pool dev ((pre @ h) @ concat (map pipe_bytes (il_pipes i)) @ rest)
        (length (il_pipes i)) (length (pre @ h)) (Some t) =
        Some (Some (add_pipes_at pool dev (length (pre @ h)) (il_pipes i) t))"
      by (rule parse_pipes_bytes)
    then have run: "parse_pipes pool dev (pre @ interfaces_bytes (i # is))
        (length (il_pipes i)) (length pre + 24) (Some t) =
        Some (Some (add_pipes_at pool dev (length pre + 24) (il_pipes i) t))"
      using h by (simp add: bytes)
    have sub: "unat (n - of_nat (interface_size i)) = length rest"
      using n len by (simp add: unat_sub word_le_nat_alt)
    have ih: "parse_interfaces pool dev ((pre @ interface_bytes i) @ interfaces_bytes is)
        (length (pre @ interface_bytes i)) (n - of_nat (interface_size i))
        (Some (add_pipes_at pool dev (length pre + 24) (il_pipes i) t)) =
      Some (Some (add_interfaces pool dev (length (pre @ interface_bytes i)) is
        (add_pipes_at pool dev (length pre + 24) (il_pipes i) t)))"
      by (rule Cons.IH) (use n sub in \<open>simp_all add: rest_def\<close>)
    show ?thesis
      using nz lnz False fits req run ih unfolding step
      by (simp add: bytes read_at read_interface pipes len rest_def)
         blast
  qed
qed

lemma add_pipes_at_True: "add_pipes_at (\<lambda>_. True) dev pos ps t = add_pipes dev ps t"
  by (induction ps arbitrary: pos t) (simp_all add: add_pipes_def)

lemma add_interfaces_True: "add_interfaces (\<lambda>_. True) dev pos is t = add_pipes dev (all_pipes is) t"
  by (induction "is" arbitrary: pos t) (simp_all add: add_pipes_at_True add_pipes_def all_pipes_def)

lemma add_pipes_at_sorted:
  "table_sorted ep_handle t \<Longrightarrow> table_sorted ep_handle (add_pipes_at pool dev pos ps t)"
  by (induction ps arbitrary: pos t) (simp_all add: AddEndpointInfo_map)

lemma add_interfaces_sorted:
  "table_sorted ep_handle t \<Longrightarrow> table_sorted ep_handle (add_interfaces pool dev pos is t)"
  by (induction "is" arbitrary: pos t) (simp_all add: add_pipes_at_sorted)

lemma parse_interface_information:
  assumes "length (interfaces_bytes is) < 65536" "unat n = length (interfaces_bytes is)"
  shows "USBPcapParseInterfaceInformation pool dev (interfaces_bytes is) n (Some t) =
    Some (Some (add_interfaces pool dev 0 is t))"
  using parse_interfaces_bytes [OF assms, of pool dev "[]" t]
  by (simp add: USBPcapParseInterfaceInformation_def)


definition example_interface :: "u64 \<Rightarrow> interface_layout" where
  "example_interface h = \<lparr>il_number = 0, il_alternate = 0, il_class = 0, il_handle = 1,
     il_pipes = [\<lparr>pl_max_packet = 64, pl_address = 0x81, pl_interval = 0, pl_type = 2,
       pl_handle = h, pl_max_transfer = 0, pl_flags = 0\<rparr>]\<rparr>"


section \<open>Two gaps in the checks\<close>

definition wrapping_interface :: bytes where
  "wrapping_interface = le16 56 @ replicate 14 0 @ le32 178956972 @ replicate 36 0"

text \<open>
  The check that the pipes fit is made with a length truncated to 32 bits. With 178956972
  pipes announced the required length wraps to 56, so a block of 56 bytes passes the check
  and the scan reads beyond it.
\<close>

theorem pipe_count_check_wraps:
  "required_length 178956972 = 56 \<and> length wrapping_interface = 56 \<and>
   USBPcapParseInterfaceInformation pool dev wrapping_interface 56 (Some t) = None"
proof -
  have len: "length wrapping_interface = 56" by (simp add: wrapping_interface_def)
  have req: "required_length 178956972 = 56" by (simp add: required_length_def)
  have reads: "read16 wrapping_interface 0 = Some 56"
    "read32 wrapping_interface 16 = Some 178956972"
    by (simp_all add: wrapping_interface_def field_simps_le)
  have fault: "read64 wrapping_interface 56 = None"
    by (simp add: read64_def mem_read_def len)
  have "parse_pipes pool dev wrapping_interface (Suc (Suc n)) 24 (Some t) = None" for n
    by (simp add: fault split: Option.bind_split)
  from this [of 178956970] have "parse_pipes pool dev wrapping_interface 178956972 24 (Some t) = None"
    by simp
  then show ?thesis
    using len req reads
    by (simp add: USBPcapParseInterfaceInformation_def parse_interfaces.simps)
qed

text \<open>
  The scan reads the two bytes of the next interface's length before it checks how many
  bytes are left: when one byte is left, the read leaves the block.
\<close>

theorem length_read_before_check:
  "USBPcapParseInterfaceInformation pool dev (interface_bytes (example_interface 5) @ [0]) 49
     (Some t) = None"
proof -
  have reads: "read16 (interface_bytes (example_interface 5) @ [0]) 0 = Some 48"
    "read32 (interface_bytes (example_interface 5) @ [0]) 16 = Some 1"
    by (simp_all add: read_interface example_interface_def interface_size_def)
  have fault: "read16 (interface_bytes (example_interface 5) @ [0]) 48 = None"
    by (simp add: read16_def mem_read_def example_interface_def interface_size_def)
  have "parse_interfaces pool dev (interface_bytes (example_interface 5) @ [0]) 48 1 u = None" for u
    by (subst parse_interfaces.simps) (simp add: fault)
  then show ?thesis
    using reads
    by (simp add: USBPcapParseInterfaceInformation_def parse_interfaces.simps [of _ _ _ 0]
        split: Option.bind_split)
qed

end
