(* ===== verification/UrbControl.thy ===== *)
theory UrbControl
  imports Channel InterfaceParser
begin

text \<open>
  Requests on control endpoints (USBPcapURB.c): the data buffer of a URB, the analysis of a
  control transfer, and the set-up packets the driver builds for the requests that the USB
  stack represents by a URB function of their own.

  A URB is its header and a body, one constructor per structure the code casts the URB to;
  reading a URB as a structure it does not hold is a fault. A pointer to a data buffer is the
  block behind it. The environment of a call holds what the kernel decides: the time, and the
  outcome of each pool allocation.
\<close>

section \<open>The URB\<close>

record urb_header =
  uh_Length :: u16
  uh_Function :: u16
  uh_Status :: u32

text \<open>An MDL: the block it maps to, None when the mapping fails.\<close>

type_synonym mdl = "bytes option"

record control_transfer =
  ct_PipeHandle :: u64
  ct_TransferFlags :: u32
  ct_TransferBufferLength :: u32
  ct_TransferBuffer :: "bytes option"
  ct_TransferBufferMDL :: "mdl option"
  ct_SetupPacket :: bytes

record descriptor_request =
  dr_TransferBufferLength :: u32
  dr_TransferBuffer :: "bytes option"
  dr_TransferBufferMDL :: "mdl option"
  dr_Index :: u8
  dr_DescriptorType :: u8
  dr_LanguageId :: u16

record status_request =
  sr_TransferBufferLength :: u32
  sr_TransferBuffer :: "bytes option"
  sr_TransferBufferMDL :: "mdl option"
  sr_Index :: u16

record class_request =
  cr_TransferFlags :: u32
  cr_TransferBufferLength :: u32
  cr_TransferBuffer :: "bytes option"
  cr_TransferBufferMDL :: "mdl option"
  cr_Request :: u8
  cr_Value :: u16
  cr_Index :: u16

record device_data =
  deviceAddress :: u16
  endpointTable :: "endpoint_info list option"
  URBIrpTable :: "urb_irp_info list option"
  descriptor :: "bytes option"

abbreviation (input) URB_FUNCTION_SELECT_CONFIGURATION :: u16
  where "URB_FUNCTION_SELECT_CONFIGURATION \<equiv> 0"
abbreviation (input) URB_FUNCTION_SELECT_INTERFACE :: u16 where "URB_FUNCTION_SELECT_INTERFACE \<equiv> 1"
abbreviation (input) URB_FUNCTION_ABORT_PIPE :: u16 where "URB_FUNCTION_ABORT_PIPE \<equiv> 2"
abbreviation (input) URB_FUNCTION_GET_CURRENT_FRAME_NUMBER :: u16
  where "URB_FUNCTION_GET_CURRENT_FRAME_NUMBER \<equiv> 7"
abbreviation (input) URB_FUNCTION_CONTROL_TRANSFER :: u16 where "URB_FUNCTION_CONTROL_TRANSFER \<equiv> 8"
abbreviation (input) URB_FUNCTION_BULK_OR_INTERRUPT_TRANSFER :: u16
  where "URB_FUNCTION_BULK_OR_INTERRUPT_TRANSFER \<equiv> 9"
abbreviation (input) URB_FUNCTION_ISOCH_TRANSFER :: u16 where "URB_FUNCTION_ISOCH_TRANSFER \<equiv> 0xA"
abbreviation (input) URB_FUNCTION_GET_DESCRIPTOR_FROM_DEVICE :: u16
  where "URB_FUNCTION_GET_DESCRIPTOR_FROM_DEVICE \<equiv> 0xB"
abbreviation (input) URB_FUNCTION_SET_DESCRIPTOR_TO_DEVICE :: u16
  where "URB_FUNCTION_SET_DESCRIPTOR_TO_DEVICE \<equiv> 0xC"
abbreviation (input) URB_FUNCTION_GET_STATUS_FROM_DEVICE :: u16
  where "URB_FUNCTION_GET_STATUS_FROM_DEVICE \<equiv> 0x13"
abbreviation (input) URB_FUNCTION_GET_STATUS_FROM_INTERFACE :: u16
  where "URB_FUNCTION_GET_STATUS_FROM_INTERFACE \<equiv> 0x14"
abbreviation (input) URB_FUNCTION_GET_STATUS_FROM_ENDPOINT :: u16
  where "URB_FUNCTION_GET_STATUS_FROM_ENDPOINT \<equiv> 0x15"
abbreviation (input) URB_FUNCTION_VENDOR_DEVICE :: u16 where "URB_FUNCTION_VENDOR_DEVICE \<equiv> 0x17"
abbreviation (input) URB_FUNCTION_VENDOR_INTERFACE :: u16
  where "URB_FUNCTION_VENDOR_INTERFACE \<equiv> 0x18"
abbreviation (input) URB_FUNCTION_VENDOR_ENDPOINT :: u16
  where "URB_FUNCTION_VENDOR_ENDPOINT \<equiv> 0x19"
abbreviation (input) URB_FUNCTION_CLASS_DEVICE :: u16 where "URB_FUNCTION_CLASS_DEVICE \<equiv> 0x1A"
abbreviation (input) URB_FUNCTION_CLASS_INTERFACE :: u16 where "URB_FUNCTION_CLASS_INTERFACE \<equiv> 0x1B"
abbreviation (input) URB_FUNCTION_CLASS_ENDPOINT :: u16 where "URB_FUNCTION_CLASS_ENDPOINT \<equiv> 0x1C"
abbreviation (input) URB_FUNCTION_SYNC_RESET_PIPE_AND_CLEAR_STALL :: u16
  where "URB_FUNCTION_SYNC_RESET_PIPE_AND_CLEAR_STALL \<equiv> 0x1E"
abbreviation (input) URB_FUNCTION_CLASS_OTHER :: u16 where "URB_FUNCTION_CLASS_OTHER \<equiv> 0x1F"
abbreviation (input) URB_FUNCTION_VENDOR_OTHER :: u16 where "URB_FUNCTION_VENDOR_OTHER \<equiv> 0x20"
abbreviation (input) URB_FUNCTION_GET_STATUS_FROM_OTHER :: u16
  where "URB_FUNCTION_GET_STATUS_FROM_OTHER \<equiv> 0x21"
abbreviation (input) URB_FUNCTION_GET_DESCRIPTOR_FROM_ENDPOINT :: u16
  where "URB_FUNCTION_GET_DESCRIPTOR_FROM_ENDPOINT \<equiv> 0x24"
abbreviation (input) URB_FUNCTION_SET_DESCRIPTOR_TO_ENDPOINT :: u16
  where "URB_FUNCTION_SET_DESCRIPTOR_TO_ENDPOINT \<equiv> 0x25"
abbreviation (input) URB_FUNCTION_GET_DESCRIPTOR_FROM_INTERFACE :: u16
  where "URB_FUNCTION_GET_DESCRIPTOR_FROM_INTERFACE \<equiv> 0x28"
abbreviation (input) URB_FUNCTION_SET_DESCRIPTOR_TO_INTERFACE :: u16
  where "URB_FUNCTION_SET_DESCRIPTOR_TO_INTERFACE \<equiv> 0x29"
abbreviation (input) URB_FUNCTION_SYNC_RESET_PIPE :: u16 where "URB_FUNCTION_SYNC_RESET_PIPE \<equiv> 0x30"
abbreviation (input) URB_FUNCTION_SYNC_CLEAR_STALL :: u16
  where "URB_FUNCTION_SYNC_CLEAR_STALL \<equiv> 0x31"
abbreviation (input) URB_FUNCTION_CONTROL_TRANSFER_EX :: u16
  where "URB_FUNCTION_CONTROL_TRANSFER_EX \<equiv> 0x32"
abbreviation (input) URB_FUNCTION_CLOSE_STATIC_STREAMS :: u16
  where "URB_FUNCTION_CLOSE_STATIC_STREAMS \<equiv> 0x36"

text \<open>Bit 0 of the transfer flags is the direction, bit 3 marks the default pipe.\<close>

abbreviation (input) USBD_TRANSFER_DIRECTION_IN :: u32 where "USBD_TRANSFER_DIRECTION_IN \<equiv> 1"
abbreviation (input) USBD_TRANSFER_DIRECTION_OUT :: u32 where "USBD_TRANSFER_DIRECTION_OUT \<equiv> 0"
abbreviation (input) USBD_DEFAULT_PIPE_TRANSFER :: u32 where "USBD_DEFAULT_PIPE_TRANSFER \<equiv> 8"

section \<open>Control transfers\<close>

definition USBPcapURBGetBufferPointer :: "u32 \<Rightarrow> bytes option \<Rightarrow> mdl option \<Rightarrow> bytes option" where
  "USBPcapURBGetBufferPointer len buf bufferMDL =
     (if len = 0 then None
      else if buf \<noteq> None then buf
      else case bufferMDL of Some address \<Rightarrow> address | None \<Rightarrow> None)"

definition control_endpoint :: "control_transfer \<Rightarrow> device_data \<Rightarrow> u8 option" where
  "control_endpoint transfer dd =
     (if ct_TransferFlags transfer AND USBD_DEFAULT_PIPE_TRANSFER \<noteq> 0 \<or> ct_PipeHandle transfer = 0
      then Some 0
      else do {
        r \<leftarrow> USBPcapRetrieveEndpointInfo (endpointTable dd) (ct_PipeHandle transfer);
        Some (case r of Some info \<Rightarrow> ep_address info | None \<Rightarrow> 0) })"

definition USBPcapAnalyzeControlTransfer ::
  "int \<Rightarrow> control_transfer \<Rightarrow> urb_header \<Rightarrow> device_data \<Rightarrow> u64 \<Rightarrow> bool \<Rightarrow> channel \<Rightarrow> channel option"
where
  "USBPcapAnalyzeControlTransfer now transfer header dd pIrp post ch = do {
     let transferFromDevice = (ct_TransferFlags transfer AND USBD_TRANSFER_DIRECTION_IN \<noteq> 0);
     endpoint \<leftarrow> control_endpoint transfer dd;
     let packetHeader =
       \<lparr>ph_headerLen = 28, ph_irpId = pIrp, ph_status = uh_Status header,
        ph_function = uh_Function header,
        ph_info = (if post then USBPCAP_INFO_PDO_TO_FDO else 0),
        ph_bus = busId (root ch), ph_device = deviceAddress dd,
        ph_endpoint = (if transferFromDevice then endpoint OR 0x80 else endpoint),
        ph_transfer = USBPCAP_TRANSFER_CONTROL, ph_dataLength = 0\<rparr>;
     let dataBuffer = (if ct_TransferBufferLength transfer \<noteq> 0
       then USBPcapURBGetBufferPointer (ct_TransferBufferLength transfer)
         (ct_TransferBuffer transfer) (ct_TransferBufferMDL transfer) else None);
     let dataBufferLength = ct_TransferBufferLength transfer;
     let terminator = \<lparr>pe_size = 0, pe_buffer = None\<rparr>;
     if \<not> post then
       (let setup = \<lparr>pe_size = 8, pe_buffer = Some (ct_SetupPacket transfer)\<rparr> in
        if transferFromDevice
        then map_option fst (USBPcapBufferWritePayload now ch
          (ControlHeader (packetHeader\<lparr>ph_dataLength := 8\<rparr>) USBPCAP_CONTROL_STAGE_SETUP)
          [setup, terminator, terminator])
        else map_option fst (USBPcapBufferWritePayload now ch
          (ControlHeader (packetHeader\<lparr>ph_dataLength := 8 + dataBufferLength\<rparr>)
             USBPCAP_CONTROL_STAGE_SETUP)
          [setup, \<lparr>pe_size = dataBufferLength, pe_buffer = dataBuffer\<rparr>, terminator]))
     else
       (if transferFromDevice
        then map_option fst (USBPcapBufferWritePayload now ch
          (ControlHeader (packetHeader\<lparr>ph_dataLength := dataBufferLength\<rparr>)
             USBPCAP_CONTROL_STAGE_COMPLETE)
          [\<lparr>pe_size = dataBufferLength, pe_buffer = dataBuffer\<rparr>, terminator])
        else map_option fst (USBPcapBufferWritePayload now ch
          (ControlHeader packetHeader USBPCAP_CONTROL_STAGE_COMPLETE)
          [terminator, terminator])) }"

section \<open>Set-up packets\<close>

text \<open>The two bytes of a 16-bit field, as the code masks and shifts them.\<close>

definition lo_byte :: "u16 \<Rightarrow> u8" where "lo_byte w = ucast (w AND 0x00FF)"
definition hi_byte :: "u16 \<Rightarrow> u8" where "hi_byte w = ucast (drop_bit 8 (w AND 0xFF00))"
definition lo_byte32 :: "u32 \<Rightarrow> u8" where "lo_byte32 w = ucast (w AND 0x00FF)"
definition hi_byte32 :: "u32 \<Rightarrow> u8" where "hi_byte32 w = ucast (drop_bit 8 (w AND 0xFF00))"

definition wrap_out :: "bytes \<Rightarrow> control_transfer" where
  "wrap_out setup = \<lparr>ct_PipeHandle = 0, ct_TransferFlags = USBD_TRANSFER_DIRECTION_OUT,
     ct_TransferBufferLength = 0, ct_TransferBuffer = None, ct_TransferBufferMDL = None,
     ct_SetupPacket = setup\<rparr>"

text \<open>
  The wrapped transfer of a select-configuration URB: the value is byte 5 of the
  configuration descriptor.
\<close>

definition select_configuration_transfer :: "bytes option \<Rightarrow> control_transfer option" where
  "select_configuration_transfer cfg = do {
     value \<leftarrow> (case cfg of None \<Rightarrow> Some 0 | Some d \<Rightarrow> read8 d 5);
     Some (wrap_out [0x00, 0x09, value, 0, 0, 0, 0, 0]) }"

definition select_interface_transfer :: "u8 \<Rightarrow> u8 \<Rightarrow> control_transfer" where
  "select_interface_transfer alternateSetting interfaceNumber =
     wrap_out [0x00, 0x0B, alternateSetting, 0, interfaceNumber, 0, 0, 0]"

definition descriptor_function :: "u16 \<Rightarrow> (u32 \<times> u8 \<times> u8) option" where
  "descriptor_function f =
     (if f = URB_FUNCTION_GET_DESCRIPTOR_FROM_DEVICE then Some (USBD_TRANSFER_DIRECTION_IN, 0x80, 0x06)
      else if f = URB_FUNCTION_GET_DESCRIPTOR_FROM_ENDPOINT
      then Some (USBD_TRANSFER_DIRECTION_IN, 0x82, 0x06)
      else if f = URB_FUNCTION_GET_DESCRIPTOR_FROM_INTERFACE
      then Some (USBD_TRANSFER_DIRECTION_IN, 0x81, 0x06)
      else if f = URB_FUNCTION_SET_DESCRIPTOR_TO_DEVICE
      then Some (USBD_TRANSFER_DIRECTION_OUT, 0x00, 0x07)
      else if f = URB_FUNCTION_SET_DESCRIPTOR_TO_ENDPOINT
      then Some (USBD_TRANSFER_DIRECTION_OUT, 0x02, 0x07)
      else if f = URB_FUNCTION_SET_DESCRIPTOR_TO_INTERFACE
      then Some (USBD_TRANSFER_DIRECTION_OUT, 0x01, 0x07)
      else None)"

definition descriptor_transfer :: "u16 \<Rightarrow> descriptor_request \<Rightarrow> control_transfer option" where
  "descriptor_transfer f request = do {
     (flags, requestType, req) \<leftarrow> descriptor_function f;
     Some \<lparr>ct_PipeHandle = 0, ct_TransferFlags = flags,
       ct_TransferBufferLength = dr_TransferBufferLength request,
       ct_TransferBuffer = dr_TransferBuffer request,
       ct_TransferBufferMDL = dr_TransferBufferMDL request,
       ct_SetupPacket = [requestType, req, dr_Index request, dr_DescriptorType request,
         lo_byte (dr_LanguageId request), hi_byte (dr_LanguageId request),
         lo_byte32 (dr_TransferBufferLength request), hi_byte32 (dr_TransferBufferLength request)]\<rparr> }"

definition status_function :: "u16 \<Rightarrow> u8 option" where
  "status_function f =
     (if f = URB_FUNCTION_GET_STATUS_FROM_DEVICE then Some 0x80
      else if f = URB_FUNCTION_GET_STATUS_FROM_INTERFACE then Some 0x81
      else if f = URB_FUNCTION_GET_STATUS_FROM_ENDPOINT then Some 0x82
      else if f = URB_FUNCTION_GET_STATUS_FROM_OTHER then Some 0x83
      else None)"

definition status_transfer :: "u16 \<Rightarrow> status_request \<Rightarrow> control_transfer option" where
  "status_transfer f request = do {
     requestType \<leftarrow> status_function f;
     Some \<lparr>ct_PipeHandle = 0, ct_TransferFlags = USBD_TRANSFER_DIRECTION_IN,
       ct_TransferBufferLength = sr_TransferBufferLength request,
       ct_TransferBuffer = sr_TransferBuffer request,
       ct_TransferBufferMDL = sr_TransferBufferMDL request,
       ct_SetupPacket = [requestType, 0x00, 0, 0,
         lo_byte (sr_Index request), hi_byte (sr_Index request),
         lo_byte32 (sr_TransferBufferLength request), hi_byte32 (sr_TransferBufferLength request)]\<rparr> }"

definition class_function :: "u16 \<Rightarrow> u8 option" where
  "class_function f =
     (if f = URB_FUNCTION_VENDOR_DEVICE then Some 0x40
      else if f = URB_FUNCTION_VENDOR_INTERFACE then Some 0x41
      else if f = URB_FUNCTION_VENDOR_ENDPOINT then Some 0x42
      else if f = URB_FUNCTION_VENDOR_OTHER then Some 0x43
      else if f = URB_FUNCTION_CLASS_DEVICE then Some 0x20
      else if f = URB_FUNCTION_CLASS_INTERFACE then Some 0x21
      else if f = URB_FUNCTION_CLASS_ENDPOINT then Some 0x22
      else if f = URB_FUNCTION_CLASS_OTHER then Some 0x23
      else None)"

definition class_transfer :: "u16 \<Rightarrow> class_request \<Rightarrow> control_transfer option" where
  "class_transfer f request = do {
     requestType \<leftarrow> class_function f;
     Some \<lparr>ct_PipeHandle = 0, ct_TransferFlags = cr_TransferFlags request,
       ct_TransferBufferLength = cr_TransferBufferLength request,
       ct_TransferBuffer = cr_TransferBuffer request,
       ct_TransferBufferMDL = cr_TransferBufferMDL request,
       ct_SetupPacket =
         [if cr_TransferFlags request AND USBD_TRANSFER_DIRECTION_IN \<noteq> 0
          then requestType OR 0x80 else requestType,
          cr_Request request, lo_byte (cr_Value request), hi_byte (cr_Value request),
          lo_byte (cr_Index request), hi_byte (cr_Index request),
          lo_byte32 (cr_TransferBufferLength request), hi_byte32 (cr_TransferBufferLength request)]\<rparr> }"


section \<open>Correctness\<close>

text \<open>The data behind a transfer: the first bytes of its buffer, none when it has no mapping.\<close>

definition transfer_data :: "control_transfer \<Rightarrow> bytes" where
  "transfer_data t =
     (case USBPcapURBGetBufferPointer (ct_TransferBufferLength t) (ct_TransferBuffer t)
        (ct_TransferBufferMDL t) of
        None \<Rightarrow> []
      | Some b \<Rightarrow> take (unat (ct_TransferBufferLength t)) b)"

text \<open>A buffer is as long as the length that goes with it.\<close>

definition block_ok :: "u32 \<Rightarrow> bytes option \<Rightarrow> bool" where
  "block_ok n b \<longleftrightarrow> (case b of None \<Rightarrow> True | Some m \<Rightarrow> unat n \<le> length m)"

definition buffer_ok :: "u32 \<Rightarrow> bytes option \<Rightarrow> mdl option \<Rightarrow> bool" where
  "buffer_ok n b mdl \<longleftrightarrow> block_ok n b \<and> (case mdl of None \<Rightarrow> True | Some m \<Rightarrow> block_ok n m)"

definition transfer_ok :: "control_transfer \<Rightarrow> bool" where
  "transfer_ok t \<longleftrightarrow> length (ct_SetupPacket t) = 8 \<and>
     buffer_ok (ct_TransferBufferLength t) (ct_TransferBuffer t) (ct_TransferBufferMDL t)"

lemma GetBufferPointer_ok:
  "buffer_ok n b mdl \<Longrightarrow> USBPcapURBGetBufferPointer n b mdl = Some m \<Longrightarrow> unat n \<le> length m"
  by (auto simp: USBPcapURBGetBufferPointer_def buffer_ok_def block_ok_def split: if_splits option.splits)

lemma payload_entry_ok:
  "buffer_ok n b mdl \<Longrightarrow>
   payload_ok (\<lparr>pe_size = n, pe_buffer = USBPcapURBGetBufferPointer n b mdl\<rparr> #
     \<lparr>pe_size = 0, pe_buffer = None\<rparr> # ps)"
  by (auto simp: GetBufferPointer_ok split: option.splits)

lemma WritePayload_Some:
  assumes "channel_wf ch" "header_ok m" "payload_ok ps"
  shows "\<exists>ch'. map_option fst (USBPcapBufferWritePayload now ch m ps) = Some ch' \<and>
    logs ch now m ps ch'"
  using WritePayload_logs [OF assms, of now] by (auto simp: USBPcapBufferWritePayload_def)

lemma header_ok_control: "ph_headerLen h = 28 \<Longrightarrow> header_ok (ControlHeader h s)"
  by (simp add: header_ok_def)

text \<open>What a control transfer contributes to the log on each of its two passes.\<close>

definition control_payload :: "control_transfer \<Rightarrow> bool \<Rightarrow> bytes" where
  "control_payload t post =
     (let fromDevice = (ct_TransferFlags t AND 1 \<noteq> 0) in
      if post then (if fromDevice then transfer_data t else [])
      else ct_SetupPacket t @ (if fromDevice then [] else transfer_data t))"

lemma AnalyzeControlTransfer_logs:
  assumes wf: "channel_wf ch" and t: "transfer_ok t" and table: "endpointTable dd \<noteq> None"
  shows "\<exists>ch' h ps. USBPcapAnalyzeControlTransfer now t header dd irp post ch = Some ch' \<and>
    logs ch now (ControlHeader h (if post then USBPCAP_CONTROL_STAGE_COMPLETE
                                  else USBPCAP_CONTROL_STAGE_SETUP)) ps ch' \<and>
    payload_stream ps = control_payload t post \<and> ph_irpId h = irp \<and>
    ph_function h = uh_Function header \<and> ph_status h = uh_Status header \<and>
    ph_transfer h = USBPCAP_TRANSFER_CONTROL \<and> ph_info h = (if post then 1 else 0) \<and>
    (ct_TransferFlags t AND 1 \<noteq> 0 \<longrightarrow> bit (ph_endpoint h) 7) \<and>
    ph_dataLength h = (if post then 0 else 8) +
      (if (ct_TransferFlags t AND 1 \<noteq> 0) = post then ct_TransferBufferLength t else 0)"
proof -
  define dev where "dev = (ct_TransferFlags t AND 1 \<noteq> 0)"
  have "control_endpoint t dd \<noteq> None"
    using table by (auto simp: control_endpoint_def USBPcapRetrieveEndpointInfo_def)
  then obtain ep where ep: "control_endpoint t dd = Some ep" by auto
  define buf where "buf = USBPcapURBGetBufferPointer (ct_TransferBufferLength t)
    (ct_TransferBuffer t) (ct_TransferBufferMDL t)"
  define data where "data = \<lparr>pe_size = ct_TransferBufferLength t, pe_buffer = buf\<rparr>"
  define nil where "nil = \<lparr>pe_size = 0 :: u32, pe_buffer = None :: bytes option\<rparr>"
  define stp where "stp = \<lparr>pe_size = 8 :: u32, pe_buffer = Some (ct_SetupPacket t)\<rparr>"
  have buf0: "(if ct_TransferBufferLength t \<noteq> 0 then buf else None) = buf"
    by (simp add: buf_def USBPcapURBGetBufferPointer_def)
  define h where "h = \<lparr>ph_headerLen = 28, ph_irpId = irp, ph_status = uh_Status header,
    ph_function = uh_Function header, ph_info = (if post then 1 else 0), ph_bus = busId (root ch),
    ph_device = deviceAddress dd, ph_endpoint = (if dev then ep OR 0x80 else ep),
    ph_transfer = USBPCAP_TRANSFER_CONTROL, ph_dataLength = (if post then 0 else 8) +
      (if dev = post then ct_TransferBufferLength t else 0)\<rparr>"
  define ps where "ps = (if post then (if dev then [data, nil] else [nil, nil])
    else if dev then [stp, nil, nil] else [stp, data, nil])"
  have run: "USBPcapAnalyzeControlTransfer now t header dd irp post ch =
      map_option fst (USBPcapBufferWritePayload now ch (ControlHeader h (if post then 3 else 0)) ps)"
    unfolding USBPcapAnalyzeControlTransfer_def ep dev_def [symmetric] buf_def [symmetric] Let_def buf0
    by (simp add: h_def ps_def data_def nil_def stp_def)
  have "payload_ok [data, nil]"
    using payload_entry_ok [of "ct_TransferBufferLength t" "ct_TransferBuffer t"
        "ct_TransferBufferMDL t" "[]"] t
    by (simp add: transfer_ok_def data_def nil_def buf_def)
  then have ok: "payload_ok ps"
    using t by (simp add: ps_def stp_def transfer_ok_def) (simp add: nil_def)
  have stream: "payload_stream ps = control_payload t post"
    using t by (auto simp: ps_def control_payload_def stp_def nil_def data_def transfer_ok_def
        dev_def [symmetric] transfer_data_def buf_def [symmetric] split: option.split)
  have "ph_headerLen h = 28" by (simp add: h_def)
  then obtain ch' where ch': "map_option fst (USBPcapBufferWritePayload now ch
      (ControlHeader h (if post then 3 else 0)) ps) = Some ch'"
    "logs ch now (ControlHeader h (if post then 3 else 0)) ps ch'"
    using WritePayload_Some [OF wf header_ok_control ok] by blast
  have "dev \<Longrightarrow> bit (ph_endpoint h) 7" by (simp add: h_def bit_simps)
  then show ?thesis
    unfolding run using ch' stream
    by (intro exI [of _ ch'] exI [of _ h] exI [of _ ps]) (simp add: dev_def h_def)
qed


text \<open>
  C12. A control transfer is logged as one packet per pass. On the way to the device the packet
  is the set-up stage: the eight set-up bytes, followed by the data when it goes to the device.
  On the way back it is the complete stage, with the data when it comes from the device. So the
  data is logged exactly once, on the pass on which it is valid, the announced length is that
  of the payload's parts, an IN transfer has the direction bit of its endpoint set, and the
  packet is lost only when the buffer has no room or the data cannot be mapped.
\<close>

theorem control_transfer_logged:
  assumes wf: "channel_wf ch" and t: "transfer_ok t" and table: "endpointTable dd \<noteq> None"
  shows "\<exists>ch' h ps. USBPcapAnalyzeControlTransfer now t header dd irp post ch = Some ch' \<and>
    logs ch now (ControlHeader h (if post then USBPCAP_CONTROL_STAGE_COMPLETE
                                  else USBPCAP_CONTROL_STAGE_SETUP)) ps ch' \<and>
    payload_stream ps = control_payload t post \<and> ph_irpId h = irp \<and>
    ph_function h = uh_Function header \<and> ph_status h = uh_Status header \<and>
    ph_transfer h = USBPCAP_TRANSFER_CONTROL \<and> ph_info h = (if post then 1 else 0) \<and>
    (ct_TransferFlags t AND 1 \<noteq> 0 \<longrightarrow> bit (ph_endpoint h) 7) \<and>
    ph_dataLength h = (if post then 0 else 8) +
      (if (ct_TransferFlags t AND 1 \<noteq> 0) = post then ct_TransferBufferLength t else 0)"
  using assms by (rule AnalyzeControlTransfer_logs)

definition example_device :: device_data where
  "example_device = \<lparr>deviceAddress = 3, endpointTable = Some [], URBIrpTable = Some [],
     descriptor = None\<rparr>"

definition example_transfer :: control_transfer where
  "example_transfer = \<lparr>ct_PipeHandle = 0, ct_TransferFlags = 1, ct_TransferBufferLength = 2,
     ct_TransferBuffer = Some [17, 18], ct_TransferBufferMDL = None,
     ct_SetupPacket = [0x80, 6, 0, 1, 0, 0, 2, 0]\<rparr>"

theorem control_transfer_logged_witness:
  "\<exists>ch' h ps. USBPcapAnalyzeControlTransfer 0 example_transfer
      \<lparr>uh_Length = 136, uh_Function = 8, uh_Status = 0\<rparr> example_device 9 True example_channel = Some ch' \<and>
    logs example_channel 0 (ControlHeader h USBPCAP_CONTROL_STAGE_COMPLETE) ps ch' \<and>
    payload_stream ps = [17, 18] \<and> bit (ph_endpoint h) 7 \<and> ph_dataLength h = 2"
proof -
  have "transfer_ok example_transfer" "endpointTable example_device \<noteq> None"
    "ct_TransferFlags example_transfer AND 1 \<noteq> 0" "ct_TransferBufferLength example_transfer = 2"
    "control_payload example_transfer True = [17, 18]"
    by (simp_all add: transfer_ok_def example_transfer_def buffer_ok_def block_ok_def
        example_device_def control_payload_def transfer_data_def USBPcapURBGetBufferPointer_def)
  then show ?thesis
    using control_transfer_logged [OF channel_wf_example, of example_transfer example_device 0
        "\<lparr>uh_Length = 136, uh_Function = 8, uh_Status = 0\<rparr>" 9 True]
    by (auto simp del: example_transfer_def)
qed

section \<open>The set-up packets decode to the requests\<close>

lemma and255: "(w :: 'a::len word) AND 255 = take_bit 8 w"
  by (simp add: take_bit_eq_mask mask_eq_exp_minus_1)

lemma low_byte_bits:
  "(ucast (take_bit 8 w) :: u8) = ucast (w :: u16)"
  "(ucast (take_bit 8 v) :: u8) = ucast (ucast (v :: u32) :: u16)"
  "(ucast (ucast (drop_bit 8 v) :: u16) :: u8) = ucast (drop_bit 8 (ucast v :: u16))"
  by (intro bit_eqI, auto simp: bit_simps)+

lemma byte_pairs:
  "[lo_byte w, hi_byte w] = le16 w" "[lo_byte32 v, hi_byte32 v] = le16 (ucast v)"
  by (simp_all add: lo_byte_def hi_byte_def lo_byte32_def hi_byte32_def le16_def drop_bit_and
      and255 low_byte_bits)

lemma read_pairs:
  "read16 [a, b, c, d, lo_byte w, hi_byte w, f, g] 4 = Some w"
  "read16 [a, b, lo_byte w, hi_byte w, c, d, f, g] 2 = Some w"
  "read16 [a, b, c, d, f, g, lo_byte32 v, hi_byte32 v] 6 = Some (ucast v)"
  using byte_pairs(1) [of w] byte_pairs(2) [of v] un16_le16 [of w] un16_le16 [of "ucast v"]
  by (simp_all add: read16_def mem_read_def)

text \<open>
  The set-up packets built for the USB stack's own requests decode to those requests: for
  descriptor, status and vendor or class requests alike, wIndex and wLength are the request's
  fields in little-endian order (wLength its low 16 bits), wValue carries the value or the
  descriptor type and index, and bit 7 of bmRequestType is the direction of the transfer that
  is then logged.
\<close>

theorem setup_packets_decode:
  "(case descriptor_transfer f d of None \<Rightarrow> descriptor_function f = None
    | Some t \<Rightarrow> length (ct_SetupPacket t) = 8 \<and>
        (bit (ct_SetupPacket t ! 0) 7 \<longleftrightarrow> ct_TransferFlags t AND 1 \<noteq> 0) \<and>
        ct_SetupPacket t ! 2 = dr_Index d \<and> ct_SetupPacket t ! 3 = dr_DescriptorType d \<and>
        read16 (ct_SetupPacket t) 4 = Some (dr_LanguageId d) \<and>
        read16 (ct_SetupPacket t) 6 = Some (ucast (dr_TransferBufferLength d))) \<and>
   (case status_transfer f s of None \<Rightarrow> status_function f = None
    | Some t \<Rightarrow> length (ct_SetupPacket t) = 8 \<and>
        (bit (ct_SetupPacket t ! 0) 7 \<longleftrightarrow> ct_TransferFlags t AND 1 \<noteq> 0) \<and>
        read16 (ct_SetupPacket t) 2 = Some 0 \<and> read16 (ct_SetupPacket t) 4 = Some (sr_Index s) \<and>
        read16 (ct_SetupPacket t) 6 = Some (ucast (sr_TransferBufferLength s))) \<and>
   (case class_transfer f c of None \<Rightarrow> class_function f = None
    | Some t \<Rightarrow> length (ct_SetupPacket t) = 8 \<and>
        (bit (ct_SetupPacket t ! 0) 7 \<longleftrightarrow> ct_TransferFlags t AND 1 \<noteq> 0) \<and>
        ct_SetupPacket t ! 1 = cr_Request c \<and> read16 (ct_SetupPacket t) 2 = Some (cr_Value c) \<and>
        read16 (ct_SetupPacket t) 4 = Some (cr_Index c) \<and>
        read16 (ct_SetupPacket t) 6 = Some (ucast (cr_TransferBufferLength c)))"
proof (intro conjI)
  have zero: "read16 [a, b, 0, 0, c, d, e, g] 2 = Some 0" for a b c d e g
    by (simp add: read16_def mem_read_def)
  show "case status_transfer f s of None \<Rightarrow> status_function f = None
    | Some t \<Rightarrow> length (ct_SetupPacket t) = 8 \<and>
        (bit (ct_SetupPacket t ! 0) 7 \<longleftrightarrow> ct_TransferFlags t AND 1 \<noteq> 0) \<and>
        read16 (ct_SetupPacket t) 2 = Some 0 \<and> read16 (ct_SetupPacket t) 4 = Some (sr_Index s) \<and>
        read16 (ct_SetupPacket t) 6 = Some (ucast (sr_TransferBufferLength s))"
    by (simp add: status_transfer_def status_function_def read_pairs zero split: option.split)
  show "case descriptor_transfer f d of None \<Rightarrow> descriptor_function f = None
    | Some t \<Rightarrow> length (ct_SetupPacket t) = 8 \<and>
        (bit (ct_SetupPacket t ! 0) 7 \<longleftrightarrow> ct_TransferFlags t AND 1 \<noteq> 0) \<and>
        ct_SetupPacket t ! 2 = dr_Index d \<and> ct_SetupPacket t ! 3 = dr_DescriptorType d \<and>
        read16 (ct_SetupPacket t) 4 = Some (dr_LanguageId d) \<and>
        read16 (ct_SetupPacket t) 6 = Some (ucast (dr_TransferBufferLength d))"
    by (simp add: descriptor_transfer_def descriptor_function_def read_pairs split: option.split)
  have bits: "class_function f = Some r \<Longrightarrow> \<not> bit r 7 \<and> bit (r OR 0x80) 7" for r
    by (auto simp: class_function_def bit_simps split: if_splits)
  show "case class_transfer f c of None \<Rightarrow> class_function f = None
    | Some t \<Rightarrow> length (ct_SetupPacket t) = 8 \<and>
        (bit (ct_SetupPacket t ! 0) 7 \<longleftrightarrow> ct_TransferFlags t AND 1 \<noteq> 0) \<and>
        ct_SetupPacket t ! 1 = cr_Request c \<and> read16 (ct_SetupPacket t) 2 = Some (cr_Value c) \<and>
        read16 (ct_SetupPacket t) 4 = Some (cr_Index c) \<and>
        read16 (ct_SetupPacket t) 6 = Some (ucast (cr_TransferBufferLength c))"
    by (cases "class_function f") (simp_all add: class_transfer_def read_pairs bits)
qed

end
