(* ===== verification/UrbData.thy ===== *)
theory UrbData
  imports UrbControl
begin

text \<open>
  The data transfers and pipe requests of USBPcapAnalyzeURB (USBPcapURB.c): bulk and interrupt
  transfers, isochronous transfers with the compaction of inbound data, pipe requests and the
  frame number request. Each definition is one case of the switch.
\<close>

section \<open>Structures\<close>

record bulk_transfer =
  bt_PipeHandle :: u64
  bt_TransferBufferLength :: u32
  bt_TransferBuffer :: "bytes option"
  bt_TransferBufferMDL :: "mdl option"

record isoch_descriptor =
  id_Offset :: u32
  id_Length :: u32
  id_Status :: u32

text \<open>The IsoPacket array is the list of its elements; reading past its end is a fault.\<close>

record isoch_transfer =
  it_PipeHandle :: u64
  it_TransferFlags :: u32
  it_TransferBufferLength :: u32
  it_TransferBuffer :: "bytes option"
  it_TransferBufferMDL :: "mdl option"
  it_StartFrame :: u32
  it_NumberOfPackets :: u32
  it_ErrorCount :: u32
  it_IsoPacket :: "isoch_descriptor list"

section \<open>Bulk and interrupt transfers\<close>

definition UsbdPipeTypeBulk :: u32 where "UsbdPipeTypeBulk = 2"
definition UsbdPipeTypeInterrupt :: u32 where "UsbdPipeTypeInterrupt = 3"

definition analyze_bulk ::
  "int \<Rightarrow> bulk_transfer \<Rightarrow> urb_header \<Rightarrow> device_data \<Rightarrow> u64 \<Rightarrow> bool \<Rightarrow> channel \<Rightarrow> channel option"
where
  "analyze_bulk now transfer header dd pIrp post ch = do {
     ep \<leftarrow> USBPcapRetrieveEndpointInfo (endpointTable dd) (bt_PipeHandle transfer);
     let (device, endpoint, type) =
       (case ep of
          Some info \<Rightarrow> (ep_device info, ep_address info,
            if ep_type info = UsbdPipeTypeInterrupt then USBPCAP_TRANSFER_INTERRUPT
            else USBPCAP_TRANSFER_BULK)
        | None \<Rightarrow> (deviceAddress dd, 0xFF, USBPCAP_TRANSFER_BULK));
     let attach = (endpoint AND 0x80 \<noteq> 0 \<and> post \<or> \<not> (endpoint AND 0x80 \<noteq> 0) \<and> \<not> post);
     let packetHeader =
       \<lparr>ph_headerLen = 27, ph_irpId = pIrp, ph_status = uh_Status header,
        ph_function = uh_Function header,
        ph_info = (if post then USBPCAP_INFO_PDO_TO_FDO else 0),
        ph_bus = busId (root ch), ph_device = device, ph_endpoint = endpoint,
        ph_transfer = type,
        ph_dataLength = (if attach then bt_TransferBufferLength transfer else 0)\<rparr>;
     let transferBuffer =
       (if attach then USBPcapURBGetBufferPointer (bt_TransferBufferLength transfer)
          (bt_TransferBuffer transfer) (bt_TransferBufferMDL transfer) else None);
     map_option fst (USBPcapBufferWritePacket now ch (PlainHeader packetHeader) transferBuffer) }"

section \<open>Isochronous transfers\<close>

text \<open>The first NumberOfPackets elements of the array, None when the array is shorter.\<close>

definition iso_packets :: "isoch_transfer \<Rightarrow> isoch_descriptor list option" where
  "iso_packets t = mem_read (it_IsoPacket t) 0 (unat (it_NumberOfPackets t))"

definition iso_header_len :: "u32 \<Rightarrow> u16" where
  "iso_header_len numberOfPackets = 51 + ucast (12 * ucast (numberOfPackets - 1) :: u64)"

definition copy_iso :: "isoch_descriptor \<Rightarrow> iso_packet" where
  "copy_iso p = \<lparr>iso_offset = id_Offset p, iso_length = id_Length p, iso_status = id_Status p\<rparr>"

text \<open>The sum of the packet lengths, in 32 bits.\<close>

definition compacted_length :: "isoch_descriptor list \<Rightarrow> u32" where
  "compacted_length ps = fold (\<lambda>p acc. acc + id_Length p) ps 0"

text \<open>
  The compaction loop from a given running offset: the adjusted packets and the payload
  entries. The entry's pointer is the transfer buffer plus the packet's offset; from a NULL
  transfer buffer that is NULL at offset 0 and otherwise an invalid pointer, modelled as an
  empty block.
\<close>

definition entry_pointer :: "bytes option \<Rightarrow> u32 \<Rightarrow> bytes option" where
  "entry_pointer buf offset =
     (case buf of Some b \<Rightarrow> Some (drop (unat offset) b)
      | None \<Rightarrow> if offset = 0 then None else Some [])"

fun compact_loop ::
  "bytes option \<Rightarrow> u32 \<Rightarrow> isoch_descriptor list \<Rightarrow> iso_packet list \<times> payload_entry list" where
  "compact_loop buf off [] = ([], [\<lparr>pe_size = 0, pe_buffer = None\<rparr>])"
| "compact_loop buf off (p # ps) =
     (case compact_loop buf (off + id_Length p) ps of (isos, entries) \<Rightarrow>
        ((copy_iso p)\<lparr>iso_offset := off\<rparr> # isos,
         \<lparr>pe_size = id_Length p, pe_buffer = entry_pointer buf (id_Offset p)\<rparr> # entries))"

text \<open>What is attached to the packet, decided from direction and pass.\<close>

datatype iso_payload =
    IsoNothing
  | IsoBuffer u32 "bytes option"
  | IsoCompacted u32 "iso_packet list" "payload_entry list"
  | IsoGiveUp

definition iso_attach :: "bool \<Rightarrow> isoch_transfer \<Rightarrow> bool \<Rightarrow> isoch_descriptor list \<Rightarrow> iso_payload" where
  "iso_attach pool t post ps =
     (if it_TransferBufferLength t \<noteq> 0 then
        (let transferBuffer = USBPcapURBGetBufferPointer (it_TransferBufferLength t)
               (it_TransferBuffer t) (it_TransferBufferMDL t);
             isIn = (it_TransferFlags t AND USBD_TRANSFER_DIRECTION_IN = USBD_TRANSFER_DIRECTION_IN)
         in if isIn \<and> post then
              (if compacted_length ps > it_TransferBufferLength t then IsoGiveUp
               else if \<not> pool then IsoGiveUp
               else case compact_loop transferBuffer 0 ps of (isos, entries) \<Rightarrow>
                 IsoCompacted (compacted_length ps) isos entries)
            else if \<not> isIn \<and> \<not> post then IsoBuffer (it_TransferBufferLength t) transferBuffer
            else IsoNothing)
      else IsoNothing)"

text \<open>
  \<open>pool_header\<close> and \<open>pool_entries\<close> are the outcomes of the two allocations. Every exit
  before the write leaves the channel as it is.
\<close>

definition analyze_isoch ::
  "int \<Rightarrow> bool \<Rightarrow> bool \<Rightarrow> isoch_transfer \<Rightarrow> urb_header \<Rightarrow> device_data \<Rightarrow> u64 \<Rightarrow> bool \<Rightarrow> channel \<Rightarrow>
   channel option" where
  "analyze_isoch now pool_header pool_entries transfer header dd pIrp post ch =
     (if it_NumberOfPackets transfer > 1024 then Some ch
      else if \<not> pool_header then Some ch
      else do {
        ep \<leftarrow> USBPcapRetrieveEndpointInfo (endpointTable dd) (it_PipeHandle transfer);
        ps \<leftarrow> iso_packets transfer;
        let (device, endpoint) = (case ep of Some info \<Rightarrow> (ep_device info, ep_address info)
          | None \<Rightarrow> (deviceAddress dd, 0xFF));
        let packetHeader =
          \<lparr>ph_headerLen = iso_header_len (it_NumberOfPackets transfer), ph_irpId = pIrp,
           ph_status = uh_Status header, ph_function = uh_Function header,
           ph_info = (if post then USBPCAP_INFO_PDO_TO_FDO else 0),
           ph_bus = busId (root ch), ph_device = device, ph_endpoint = endpoint,
           ph_transfer = USBPCAP_TRANSFER_ISOCHRONOUS, ph_dataLength = 0\<rparr>;
        let isoch = (\<lambda>dataLength isos. IsochHeader (packetHeader\<lparr>ph_dataLength := dataLength\<rparr>)
          (it_StartFrame transfer) (it_NumberOfPackets transfer) (it_ErrorCount transfer) isos);
        (case iso_attach pool_entries transfer post ps of
           IsoGiveUp \<Rightarrow> Some ch
         | IsoNothing \<Rightarrow> map_option fst
             (USBPcapBufferWritePacket now ch (isoch 0 (map copy_iso ps)) None)
         | IsoBuffer n buf \<Rightarrow> map_option fst
             (USBPcapBufferWritePacket now ch (isoch n (map copy_iso ps)) buf)
         | IsoCompacted n isos entries \<Rightarrow> map_option fst
             (USBPcapBufferWritePayload now ch (isoch n isos) entries)) })"

section \<open>Pipe requests and the frame number\<close>

definition analyze_pipe_request ::
  "int \<Rightarrow> u64 \<Rightarrow> urb_header \<Rightarrow> device_data \<Rightarrow> u64 \<Rightarrow> bool \<Rightarrow> channel \<Rightarrow> channel option" where
  "analyze_pipe_request now pipeHandle header dd pIrp post ch = do {
     ep \<leftarrow> USBPcapRetrieveEndpointInfo (endpointTable dd) pipeHandle;
     let (device, endpoint, type) = (case ep of
         Some info \<Rightarrow> (ep_device info, ep_address info, USBPCAP_TRANSFER_IRP_INFO)
       | None \<Rightarrow> (deviceAddress dd, 0xFF, USBPCAP_TRANSFER_UNKNOWN));
     map_option fst (USBPcapBufferWritePacket now ch (PlainHeader
       \<lparr>ph_headerLen = 27, ph_irpId = pIrp, ph_status = uh_Status header,
        ph_function = uh_Function header,
        ph_info = (if post then USBPCAP_INFO_PDO_TO_FDO else 0),
        ph_bus = busId (root ch), ph_device = device, ph_endpoint = endpoint,
        ph_transfer = type, ph_dataLength = 0\<rparr>) None) }"

text \<open>
  The frame number is a local variable of the code, set only on the way back: \<open>stack\<close> is its
  initial, arbitrary value.
\<close>

definition analyze_frame_number ::
  "int \<Rightarrow> u32 \<Rightarrow> u32 \<Rightarrow> urb_header \<Rightarrow> device_data \<Rightarrow> u64 \<Rightarrow> bool \<Rightarrow> channel \<Rightarrow> channel option"
where
  "analyze_frame_number now stack frameNumber header dd pIrp post ch =
     map_option fst (USBPcapBufferWritePacket now ch (PlainHeader
       \<lparr>ph_headerLen = 27, ph_irpId = pIrp, ph_status = uh_Status header,
        ph_function = uh_Function header,
        ph_info = (if post then USBPCAP_INFO_PDO_TO_FDO else 0),
        ph_bus = busId (root ch), ph_device = deviceAddress dd, ph_endpoint = 0x80,
        ph_transfer = USBPCAP_TRANSFER_IRP_INFO,
        ph_dataLength = (if post then 4 else 0)\<rparr>)
       (Some (le32 (if post then frameNumber else stack))))"


section \<open>Correctness\<close>

lemma WritePacket_logs:
  assumes "channel_wf ch" "header_ok m" "block_ok (ph_dataLength (base_header m)) buf"
  shows "\<exists>ch'. map_option fst (USBPcapBufferWritePacket now ch m buf) = Some ch' \<and>
    logs ch now m [\<lparr>pe_size = ph_dataLength (base_header m), pe_buffer = buf\<rparr>,
                   \<lparr>pe_size = 0, pe_buffer = None\<rparr>] ch'"
proof -
  have "payload_ok [\<lparr>pe_size = ph_dataLength (base_header m), pe_buffer = buf\<rparr>,
      \<lparr>pe_size = 0, pe_buffer = None\<rparr>]"
    using assms(3) by (auto simp: block_ok_def split: option.splits)
  from WritePayload_logs [OF assms(1,2) this, of now] show ?thesis
    by (auto simp: USBPcapBufferWritePacket_def USBPcapBufferWriteTimestampedPacket_def)
qed

lemma header_ok_plain: "ph_headerLen h = 27 \<Longrightarrow> header_ok (PlainHeader h)"
  by (simp add: header_ok_def)

lemma bit7: "(w :: u8) AND 0x80 \<noteq> 0 \<longleftrightarrow> bit w 7"
  using and_exp_eq_0_iff_not_bit [of w 7] by simp

lemma block_ok_pointer: "buffer_ok n b mdl \<Longrightarrow> block_ok n (USBPcapURBGetBufferPointer n b mdl)"
  by (auto simp: block_ok_def GetBufferPointer_ok split: option.split)

lemma block_ok_None [simp]: "block_ok n None" "block_ok 0 b"
  by (simp_all add: block_ok_def split: option.split)

definition bulk_endpoint :: "device_data \<Rightarrow> bulk_transfer \<Rightarrow> u16 \<times> u8" where
  "bulk_endpoint dd t =
     (case Option.bind (endpointTable dd) (\<lambda>e. USBPcapGetEndpointInfo e (bt_PipeHandle t)) of
        Some info \<Rightarrow> (ep_device info, ep_address info)
      | None \<Rightarrow> (deviceAddress dd, 0xFF))"

definition bulk_data :: "bulk_transfer \<Rightarrow> bytes" where
  "bulk_data t =
     (case USBPcapURBGetBufferPointer (bt_TransferBufferLength t) (bt_TransferBuffer t)
        (bt_TransferBufferMDL t) of
        None \<Rightarrow> []
      | Some b \<Rightarrow> take (unat (bt_TransferBufferLength t)) b)"

lemma analyze_bulk_logs:
  assumes wf: "channel_wf ch" and table: "endpointTable dd \<noteq> None"
    and t: "buffer_ok (bt_TransferBufferLength t) (bt_TransferBuffer t) (bt_TransferBufferMDL t)"
  shows "\<exists>ch' h ps. analyze_bulk now t header dd irp post ch = Some ch' \<and>
    logs ch now (PlainHeader h) ps ch' \<and>
    (ph_device h, ph_endpoint h) = bulk_endpoint dd t \<and> ph_irpId h = irp \<and>
    (ph_dataLength h, payload_stream ps) =
      (if bit (snd (bulk_endpoint dd t)) 7 = post then (bt_TransferBufferLength t, bulk_data t)
       else (0, []))"
proof -
  obtain table where tb: "endpointTable dd = Some table" using table by auto
  obtain dev ep ty where r: "(case USBPcapGetEndpointInfo table (bt_PipeHandle t) of
        Some info \<Rightarrow> (ep_device info, ep_address info,
          if ep_type info = UsbdPipeTypeInterrupt then USBPCAP_TRANSFER_INTERRUPT
          else USBPCAP_TRANSFER_BULK)
      | None \<Rightarrow> (deviceAddress dd, 0xFF, USBPCAP_TRANSFER_BULK)) = (dev, ep, ty)"
    by (rule prod_cases3)
  have be: "bulk_endpoint dd t = (dev, ep)"
    using r by (auto simp: bulk_endpoint_def tb split: option.splits)
  define attach where "attach = (ep AND 0x80 \<noteq> 0 \<and> post \<or> \<not> (ep AND 0x80 \<noteq> 0) \<and> \<not> post)"
  have attach: "attach \<longleftrightarrow> bit ep 7 = post"
    by (auto simp: attach_def bit7)
  define h where "h = \<lparr>ph_headerLen = 27, ph_irpId = irp, ph_status = uh_Status header,
    ph_function = uh_Function header, ph_info = (if post then 1 else 0), ph_bus = busId (root ch),
    ph_device = dev, ph_endpoint = ep, ph_transfer = ty,
    ph_dataLength = (if attach then bt_TransferBufferLength t else 0)\<rparr>"
  define buf where "buf = (if attach then USBPcapURBGetBufferPointer (bt_TransferBufferLength t)
    (bt_TransferBuffer t) (bt_TransferBufferMDL t) else None)"
  have "analyze_bulk now t header dd irp post ch =
      map_option fst (USBPcapBufferWritePacket now ch (PlainHeader h) buf)"
    unfolding analyze_bulk_def USBPcapRetrieveEndpointInfo_def tb
    by (simp add: r Let_def attach_def h_def buf_def)
  moreover have "header_ok (PlainHeader h)" by (simp add: h_def header_ok_plain)
  moreover have "block_ok (ph_dataLength h) buf"
    by (simp add: h_def buf_def block_ok_pointer [OF t])
  ultimately obtain ch' where "analyze_bulk now t header dd irp post ch = Some ch'"
    "logs ch now (PlainHeader h) [\<lparr>pe_size = ph_dataLength h, pe_buffer = buf\<rparr>,
       \<lparr>pe_size = 0, pe_buffer = None\<rparr>] ch'"
    using WritePacket_logs [OF wf, of "PlainHeader h" buf now] by auto
  then show ?thesis
    by (intro exI [of _ ch'] exI [of _ h] exI conjI)
       (auto simp: be h_def buf_def attach bulk_data_def split: option.split)
qed

text \<open>
  C33. A bulk or interrupt transfer is logged once per pass, under the device and endpoint
  that its pipe handle resolves to (the device's own address and endpoint 0xFF for an unknown
  handle). Its data is attached on exactly one of the two passes: on the way back for an IN
  endpoint, on the way down for an OUT endpoint; the other packet announces no data.
\<close>

theorem bulk_transfer_logged:
  assumes wf: "channel_wf ch" and table: "endpointTable dd \<noteq> None"
    and t: "buffer_ok (bt_TransferBufferLength t) (bt_TransferBuffer t) (bt_TransferBufferMDL t)"
  shows "\<exists>ch' h ps. analyze_bulk now t header dd irp post ch = Some ch' \<and>
    logs ch now (PlainHeader h) ps ch' \<and>
    (ph_device h, ph_endpoint h) = bulk_endpoint dd t \<and> ph_irpId h = irp \<and>
    (ph_dataLength h, payload_stream ps) =
      (if bit (snd (bulk_endpoint dd t)) 7 = post then (bt_TransferBufferLength t, bulk_data t)
       else (0, []))"
  using assms by (rule analyze_bulk_logs)

definition example_bulk :: bulk_transfer where
  "example_bulk = \<lparr>bt_PipeHandle = 5, bt_TransferBufferLength = 2,
     bt_TransferBuffer = Some [1, 2], bt_TransferBufferMDL = None\<rparr>"

theorem bulk_transfer_logged_witness:
  "\<exists>ch' h ps. analyze_bulk 0 example_bulk \<lparr>uh_Length = 128, uh_Function = 9, uh_Status = 0\<rparr>
      example_device 77 True example_channel = Some ch' \<and>
    ph_endpoint h = 0xFF \<and> logs example_channel 0 (PlainHeader h) ps ch' \<and>
    payload_stream ps = [1, 2]"
proof -
  have "buffer_ok (bt_TransferBufferLength example_bulk) (bt_TransferBuffer example_bulk)
      (bt_TransferBufferMDL example_bulk)" "endpointTable example_device \<noteq> None"
    "bulk_endpoint example_device example_bulk = (3, 0xFF)" "bulk_data example_bulk = [1, 2]"
    by (simp_all add: example_bulk_def buffer_ok_def block_ok_def example_device_def
        bulk_endpoint_def bulk_data_def USBPcapURBGetBufferPointer_def USBPcapGetEndpointInfo_def)
  then show ?thesis
    using bulk_transfer_logged [OF channel_wf_example, of example_device example_bulk 0
        "\<lparr>uh_Length = 128, uh_Function = 9, uh_Status = 0\<rparr>" 77 True]
    by auto
qed


section \<open>Isochronous transfers: the compaction\<close>

lemma iso_header_len_exact: "unat n \<le> 1024 \<Longrightarrow> unat (iso_header_len n) = 39 + 12 * unat n"
proof (cases "n = 0")
  case True
  then show ?thesis
    by (simp add: iso_header_len_def unsigned_minus_1_eq_mask mask_eq_exp_minus_1)
next
  case False
  assume n: "unat n \<le> 1024"
  have "unat (n - 1) = unat n - 1"
    using False by (simp add: unat_sub word_le_nat_alt unat_gt_0 Suc_leI)
  then have "unat (12 * ucast (n - 1) :: u64) = 12 * (unat n - 1)"
    using n by (simp add: unat_word_ariths unsigned_ucast_eq take_bit_nat_eq_self)
  then have "unat (ucast (12 * ucast (n - 1) :: u64) :: u16) = 12 * (unat n - 1)"
    using n by (simp add: unsigned_ucast_eq take_bit_nat_eq_self)
  moreover have "unat n > 0" using False by (simp add: unat_gt_0)
  ultimately show ?thesis using n by (simp add: iso_header_len_def unat_word_ariths)
qed

text \<open>The bytes of one inbound packet, and the sum of the lengths as a natural number.\<close>

definition iso_slice :: "bytes \<Rightarrow> isoch_descriptor \<Rightarrow> bytes" where
  "iso_slice b p = take (unat (id_Length p)) (drop (unat (id_Offset p)) b)"

definition lengths_sum :: "isoch_descriptor list \<Rightarrow> nat" where
  "lengths_sum ps = sum_list (map (\<lambda>p. unat (id_Length p)) ps)"

lemma lengths_sum_simps [simp]:
  "lengths_sum [] = 0" "lengths_sum (p # ps) = unat (id_Length p) + lengths_sum ps"
  by (simp_all add: lengths_sum_def)

lemma fold_lengths: "fold (\<lambda>p acc. acc + id_Length p) ps a = a + of_nat (lengths_sum ps)"
  by (induction ps arbitrary: a) (simp_all add: add.assoc)

lemma compacted_length_eq: "compacted_length ps = of_nat (lengths_sum ps)"
  by (simp add: compacted_length_def fold_lengths)

lemma compact_loop_packets:
  "compact_loop buf off ps = (isos, es) \<Longrightarrow>
   length isos = length ps \<and>
   map iso_length isos = map id_Length ps \<and> map iso_status isos = map id_Status ps \<and>
   (unat off + lengths_sum ps < 4294967296 \<longrightarrow>
    (\<forall>i<length ps. unat (iso_offset (isos ! i)) = unat off + lengths_sum (take i ps)))"
proof (induction ps arbitrary: off isos es)
  case Nil
  then show ?case by auto
next
  case (Cons p ps)
  obtain isos' es' where r: "compact_loop buf (off + id_Length p) ps = (isos', es')" by fastforce
  note ih = Cons.IH [OF r]
  have isos: "isos = (copy_iso p)\<lparr>iso_offset := off\<rparr> # isos'" using Cons.prems r by simp
  have "unat off + lengths_sum (p # ps) < 4294967296 \<Longrightarrow>
      unat (off + id_Length p) = unat off + unat (id_Length p)"
    by (rule unat_add_lt) simp
  then show ?case
    using ih by (auto simp: isos copy_iso_def nth_Cons split: nat.split)
qed

lemma compact_loop_entries:
  "compact_loop (Some b) off ps = (isos, es) \<Longrightarrow>
   (\<forall>p\<in>set ps. unat (id_Offset p) + unat (id_Length p) \<le> length b) \<Longrightarrow>
   payload_ok es \<and> payload_stream es = concat (map (iso_slice b) ps)"
proof (induction ps arbitrary: off isos es)
  case Nil
  then show ?case by auto
next
  case (Cons p ps)
  obtain isos' es' where r: "compact_loop (Some b) (off + id_Length p) ps = (isos', es')"
    by fastforce
  then show ?case
    using Cons.IH [OF r] Cons.prems by (auto simp: entry_pointer_def iso_slice_def)
qed

lemma concat_slice:
  "i < length xss \<Longrightarrow>
   take (length (xss ! i)) (drop (length (concat (take i xss))) (concat xss)) = xss ! i"
proof (induction xss arbitrary: i)
  case (Cons x xss)
  then show ?case by (cases i) auto
qed simp

lemma iso_slice_length:
  "unat (id_Offset p) + unat (id_Length p) \<le> length b \<Longrightarrow> length (iso_slice b p) = unat (id_Length p)"
  by (simp add: iso_slice_def)

text \<open>
  C13. Compacting an inbound isochronous transfer loses nothing. When every packet lies inside
  the transfer buffer and the lengths sum up below 4 GiB, the payload is the packets' data
  without the gaps; each packet keeps its length and status, and at its adjusted offset in the
  compacted payload the reader finds exactly the bytes that were at its original offset in the
  buffer.
\<close>

theorem isoch_compaction_faithful:
  assumes "compact_loop (Some b) 0 ps = (isos, es)"
    and "\<forall>p\<in>set ps. unat (id_Offset p) + unat (id_Length p) \<le> length b"
    and "lengths_sum ps < 4294967296"
  shows "payload_ok es \<and> length isos = length ps \<and>
    unat (compacted_length ps) = length (payload_stream es) \<and>
    (\<forall>i<length ps. iso_status (isos ! i) = id_Status (ps ! i) \<and>
       take (unat (iso_length (isos ! i)))
         (drop (unat (iso_offset (isos ! i))) (payload_stream es)) =
       take (unat (id_Length (ps ! i))) (drop (unat (id_Offset (ps ! i))) b))"
proof -
  note P = compact_loop_packets [OF assms(1)] and E = compact_loop_entries [OF assms(1,2)]
  have sums: "length (concat (map (iso_slice b) qs)) = lengths_sum qs" if "set qs \<subseteq> set ps" for qs
    using that assms(2) by (induction qs) (auto simp: iso_slice_length)
  have slice: "take (unat (iso_length (isos ! i)))
      (drop (unat (iso_offset (isos ! i))) (payload_stream es)) = iso_slice b (ps ! i)"
    if i: "i < length ps" for i
  proof -
    have "iso_length (isos ! i) = id_Length (ps ! i)"
      using P i by (metis nth_map)
    moreover have "unat (iso_offset (isos ! i)) = length (concat (take i (map (iso_slice b) ps)))"
      using P i assms(3) sums [of "take i ps"] set_take_subset [of i ps] by (simp add: take_map)
    moreover have "length (map (iso_slice b) ps ! i) = unat (id_Length (ps ! i))"
      using i assms(2) by (simp add: iso_slice_length)
    ultimately show ?thesis
      using concat_slice [of i "map (iso_slice b) ps"] E i by simp
  qed
  moreover have "\<forall>i<length ps. iso_status (isos ! i) = id_Status (ps ! i)"
    using P by (metis nth_map)
  moreover have "unat (compacted_length ps) = length (payload_stream es)"
    using E sums [of ps] assms(3) by (simp add: compacted_length_eq unat_of_nat)
  ultimately show ?thesis using P E by (simp add: iso_slice_def)
qed

definition example_iso_packets :: "isoch_descriptor list" where
  "example_iso_packets = [\<lparr>id_Offset = 0, id_Length = 2, id_Status = 0\<rparr>,
     \<lparr>id_Offset = 4, id_Length = 1, id_Status = 9\<rparr>]"

theorem isoch_compaction_faithful_witness:
  "\<exists>isos es. compact_loop (Some [1, 2, 3, 4, 5, 6]) 0 example_iso_packets = (isos, es) \<and>
     payload_stream es = [1, 2, 5] \<and> map iso_offset isos = [0, 2] \<and>
     take 1 (drop 2 (payload_stream es)) = [5]"
proof -
  define isos where "isos = fst (compact_loop (Some [1, 2, 3, 4, 5, 6]) 0 example_iso_packets)"
  define es where "es = snd (compact_loop (Some [1, 2, 3, 4, 5, 6]) 0 example_iso_packets)"
  have run: "compact_loop (Some [1, 2, 3, 4, 5, 6]) 0 example_iso_packets = (isos, es)"
    by (simp add: isos_def es_def)
  have "map iso_offset isos = [0, 2]" "payload_stream es = [1, 2, 5]"
    by (simp_all add: isos_def es_def example_iso_packets_def entry_pointer_def copy_iso_def)
  moreover from this have "take (unat (iso_length (isos ! 1))) (drop 2 (payload_stream es)) = [5]"
    using isoch_compaction_faithful [OF run]
    by (simp add: example_iso_packets_def isos_def entry_pointer_def copy_iso_def)
  ultimately show ?thesis using run by simp
qed


section \<open>Every case extends the log\<close>

definition extends :: "channel \<Rightarrow> channel \<Rightarrow> bool" where
  "extends ch ch' \<longleftrightarrow> channel_wf ch' \<and> root_config (root ch') = root_config (root ch) \<and>
     (\<exists>xs. stream ch' = stream ch @ xs)"

lemma extends_refl: "channel_wf ch \<Longrightarrow> extends ch ch"
  by (simp add: extends_def)

lemma extends_trans: "extends a b \<Longrightarrow> extends b c \<Longrightarrow> extends a c"
  by (auto simp: extends_def)

lemma logs_extends: "logs ch ts m ps ch' \<Longrightarrow> extends ch ch'"
  using logs_stream [of ch ts m ps ch'] by (auto simp: extends_def logs_def)

definition iso_ok :: "isoch_transfer \<Rightarrow> bool" where
  "iso_ok t \<longleftrightarrow> unat (it_NumberOfPackets t) \<le> length (it_IsoPacket t) \<and>
     buffer_ok (it_TransferBufferLength t) (it_TransferBuffer t) (it_TransferBufferMDL t) \<and>
     (let ps = take (unat (it_NumberOfPackets t)) (it_IsoPacket t) in
      case USBPcapURBGetBufferPointer (it_TransferBufferLength t) (it_TransferBuffer t)
        (it_TransferBufferMDL t) of
        Some b \<Rightarrow> \<forall>p\<in>set ps. unat (id_Offset p) + unat (id_Length p) \<le> length b
      | None \<Rightarrow> ps = [] \<or> id_Offset (hd ps) = 0)"

lemma compact_loop_length: "compact_loop buf off ps = (isos, es) \<Longrightarrow> length isos = length ps"
  using compact_loop_packets by blast

lemma compact_loop_NULL:
  "compact_loop None off ps = (isos, es) \<Longrightarrow> ps = [] \<or> id_Offset (hd ps) = 0 \<Longrightarrow> payload_ok es"
  by (cases ps) (auto simp: entry_pointer_def split: prod.splits)

lemma header_ok_isoch:
  assumes "unat n \<le> 1024" "ph_headerLen h = iso_header_len n" "length isos = unat n"
  shows "header_ok (IsochHeader h a b c isos)"
  using assms by (simp add: header_ok_def iso_header_len_exact)

lemma analyze_isoch_extends:
  assumes wf: "channel_wf ch" and table: "endpointTable dd \<noteq> None" and t: "iso_ok t"
  shows "\<exists>ch'. analyze_isoch now p1 p2 t header dd irp post ch = Some ch' \<and> extends ch ch'"
proof (cases "it_NumberOfPackets t > 1024 \<or> \<not> p1")
  case True
  then show ?thesis using wf by (auto simp: analyze_isoch_def extends_refl)
next
  case False
  then have n: "unat (it_NumberOfPackets t) \<le> 1024" by (simp add: word_less_nat_alt)
  obtain table where tb: "endpointTable dd = Some table" using table by auto
  define ps where "ps = take (unat (it_NumberOfPackets t)) (it_IsoPacket t)"
  have ps: "iso_packets t = Some ps" "length ps = unat (it_NumberOfPackets t)"
    using t by (simp_all add: iso_packets_def iso_ok_def mem_read_def ps_def)
  obtain dev ep where r: "(case USBPcapGetEndpointInfo table (it_PipeHandle t) of
      Some info \<Rightarrow> (ep_device info, ep_address info)
    | None \<Rightarrow> (deviceAddress dd, 0xFF)) = (dev, ep)" by (rule prod.exhaust)
  define h where "h = \<lparr>ph_headerLen = iso_header_len (it_NumberOfPackets t), ph_irpId = irp,
    ph_status = uh_Status header, ph_function = uh_Function header,
    ph_info = (if post then USBPCAP_INFO_PDO_TO_FDO else 0), ph_bus = busId (root ch),
    ph_device = dev, ph_endpoint = ep, ph_transfer = USBPCAP_TRANSFER_ISOCHRONOUS,
    ph_dataLength = 0\<rparr>"
  define isoch where "isoch = (\<lambda>n isos. IsochHeader (h\<lparr>ph_dataLength := n\<rparr>) (it_StartFrame t)
    (it_NumberOfPackets t) (it_ErrorCount t) isos)"
  have run: "analyze_isoch now p1 p2 t header dd irp post ch =
      (case iso_attach p2 t post ps of
         IsoGiveUp \<Rightarrow> Some ch
       | IsoNothing \<Rightarrow> map_option fst (USBPcapBufferWritePacket now ch (isoch 0 (map copy_iso ps)) None)
       | IsoBuffer n buf \<Rightarrow> map_option fst
           (USBPcapBufferWritePacket now ch (isoch n (map copy_iso ps)) buf)
       | IsoCompacted n isos entries \<Rightarrow> map_option fst
           (USBPcapBufferWritePayload now ch (isoch n isos) entries))"
    unfolding analyze_isoch_def USBPcapRetrieveEndpointInfo_def tb ps option.map Option.bind.bind_lunit
      isoch_def h_def Let_def r
    using False by simp
  have hdr: "header_ok (isoch n isos)" if "length isos = length ps" for n isos
    using that ps n by (auto simp: isoch_def h_def intro!: header_ok_isoch)
  have base: "ph_dataLength (base_header (isoch n isos)) = n" for n isos by (simp add: isoch_def)
  have packet: "\<exists>ch'. map_option fst (USBPcapBufferWritePacket now ch (isoch n (map copy_iso ps)) buf)
      = Some ch' \<and> extends ch ch'" if "block_ok n buf" for n buf
    using WritePacket_logs [OF wf hdr, of "map copy_iso ps" n buf now] that base
    by (auto dest: logs_extends)
  show ?thesis
  proof (cases "iso_attach p2 t post ps")
    case IsoNothing
    then show ?thesis using packet [of 0 None] by (simp add: run)
  next
    case IsoGiveUp
    then show ?thesis using wf by (simp add: run extends_refl)
  next
    case (IsoBuffer n buf)
    then have "block_ok n buf"
      using t by (auto simp: iso_attach_def iso_ok_def Let_def intro!: block_ok_pointer
          split: if_splits prod.splits)
    then show ?thesis using packet [of n buf] IsoBuffer by (simp add: run)
  next
    case (IsoCompacted n isos es)
    define buf where "buf = USBPcapURBGetBufferPointer (it_TransferBufferLength t)
      (it_TransferBuffer t) (it_TransferBufferMDL t)"
    have loop: "compact_loop buf 0 ps = (isos, es)"
      using IsoCompacted by (auto simp: iso_attach_def buf_def Let_def split: if_splits prod.splits)
    have "payload_ok es"
      using t loop compact_loop_NULL [of 0 ps isos es] compact_loop_entries [of _ 0 ps isos es]
      by (auto simp: iso_ok_def ps_def [symmetric] buf_def [symmetric] Let_def split: option.splits)
    with WritePayload_Some [OF wf hdr [OF compact_loop_length [OF loop]]] show ?thesis
      using IsoCompacted by (fastforce simp: run dest: logs_extends)
  qed
qed

end
