(* ===== verification/AnalyzeURB.thy ===== *)
theory AnalyzeURB
  imports UrbData
begin

text \<open>
  USBPcapAnalyzeURB as a whole (USBPcapURB.c, lines 306 to 1288): what is done for every URB,
  the filter, the log entry of a request whose function was unknown on its way down, and the
  switch over the URB functions. The state is the device data and the channel of its root hub.
\<close>

section \<open>URBs and the environment of a call\<close>

text \<open>
  One constructor per structure the code casts the URB to. The interface information of the
  select requests is the block that starts at their Interface member. A configuration
  descriptor is its bytes; NULL is None.
\<close>

datatype urb_body =
    SelectConfiguration "bytes option" bytes
  | SelectInterface bytes
  | ControlTransfer control_transfer
  | ControlTransferEx control_transfer
  | DescriptorRequest descriptor_request
  | StatusRequest status_request
  | ClassRequest class_request
  | BulkTransfer bulk_transfer
  | IsochTransfer isoch_transfer
  | PipeRequest u64
  | FrameNumberRequest u32
  | OtherRequest

text \<open>
  The time, the pool allocations, the uninitialised stack word, and the search of the USB
  library for an interface descriptor (the alternate setting and number of the one it finds).
\<close>

record urb_env =
  env_now :: int
  pool_pipe :: "nat \<Rightarrow> bool"
  pool_descriptor :: bool
  pool_urb_info :: bool
  pool_iso_header :: bool
  pool_iso_entries :: bool
  stack_word :: u32
  parse_descriptor :: "bytes \<Rightarrow> u8 \<Rightarrow> u8 \<Rightarrow> (u8 \<times> u8) option"

section \<open>What is done for every URB\<close>

text \<open>
  Keeping a copy of the active configuration descriptor: wTotalLength is the 16-bit field at
  offset 2. The allocation is not checked, and copying to NULL is a fault.
\<close>

definition keep_descriptor :: "bool \<Rightarrow> bytes option \<Rightarrow> bytes option option" where
  "keep_descriptor pool cfg =
     (case cfg of
        None \<Rightarrow> Some None
      | Some c \<Rightarrow> do {
          descSize \<leftarrow> read16 c 2;
          src \<leftarrow> mem_read c 0 (unat descSize);
          if pool then Some (Some src) else if descSize = 0 then Some None else None })"

definition analyze_always ::
  "urb_env \<Rightarrow> urb_header \<Rightarrow> urb_body \<Rightarrow> bool \<Rightarrow> device_data \<Rightarrow> device_data option" where
  "analyze_always env header body post dd =
     (if uh_Function header = URB_FUNCTION_SELECT_CONFIGURATION then
        (if \<not> post then Some dd
         else case body of
           SelectConfiguration cfg mem \<Rightarrow> do {
             t \<leftarrow> (if uh_Length header > 40
                   then USBPcapParseInterfaceInformation (pool_pipe env) (deviceAddress dd) mem
                     (uh_Length header - 40) (endpointTable dd)
                   else Some (endpointTable dd));
             d \<leftarrow> keep_descriptor (pool_descriptor env) cfg;
             Some (dd\<lparr>endpointTable := t, descriptor := d\<rparr>) }
         | _ \<Rightarrow> None)
      else if uh_Function header = URB_FUNCTION_SELECT_INTERFACE then
        (if \<not> post then Some dd
         else case body of
           SelectInterface mem \<Rightarrow> do {
             t \<leftarrow> (if uh_Length header > 32
                   then USBPcapParseInterfaceInformation (pool_pipe env) (deviceAddress dd) mem
                     (uh_Length header - 32) (endpointTable dd)
                   else Some (endpointTable dd));
             Some (dd\<lparr>endpointTable := t\<rparr>) }
         | _ \<Rightarrow> None)
      else Some dd)"

section \<open>Unknown functions\<close>

definition log_unknown :: "u64 \<Rightarrow> urb_irp_info option \<Rightarrow> channel \<Rightarrow> channel option" where
  "log_unknown pIrp unknown ch =
     (case unknown of
        None \<Rightarrow> Some ch
      | Some info \<Rightarrow> map_option fst (USBPcapBufferWriteTimestampedPacket ch (ui_timestamp info)
          (PlainHeader \<lparr>ph_headerLen = 27, ph_irpId = pIrp, ph_status = ui_status info,
             ph_function = ui_function info, ph_info = ui_info info, ph_bus = ui_bus info,
             ph_device = ui_device info, ph_endpoint = 0, ph_transfer = USBPCAP_TRANSFER_UNKNOWN,
             ph_dataLength = 0\<rparr>) None))"

definition analyze_default ::
  "urb_env \<Rightarrow> urb_header \<Rightarrow> u64 \<Rightarrow> bool \<Rightarrow> device_data \<Rightarrow> channel \<Rightarrow>
   (device_data \<times> channel) option" where
  "analyze_default env header pIrp post dd ch =
     (if \<not> post then do {
        t \<leftarrow> URBIrpTable dd;
        let info = \<lparr>ui_irp = pIrp, ui_timestamp = env_now env, ui_status = uh_Status header,
          ui_function = uh_Function header, ui_info = 0, ui_bus = busId (root ch),
          ui_device = deviceAddress dd\<rparr>;
        Some (dd\<lparr>URBIrpTable := Some (USBPcapAddURBIRPInfo (pool_urb_info env) t info)\<rparr>, ch) }
      else do {
        ch' \<leftarrow> map_option fst (USBPcapBufferWritePacket (env_now env) ch (PlainHeader
          \<lparr>ph_headerLen = 27, ph_irpId = pIrp, ph_status = uh_Status header,
           ph_function = uh_Function header, ph_info = USBPCAP_INFO_PDO_TO_FDO,
           ph_bus = busId (root ch), ph_device = deviceAddress dd, ph_endpoint = 0,
           ph_transfer = USBPCAP_TRANSFER_UNKNOWN, ph_dataLength = 0\<rparr>) None);
        Some (dd, ch') })"

section \<open>The switch\<close>

definition log_select_interface ::
  "urb_env \<Rightarrow> bytes \<Rightarrow> urb_header \<Rightarrow> device_data \<Rightarrow> u64 \<Rightarrow> bool \<Rightarrow> channel \<Rightarrow> channel option" where
  "log_select_interface env mem header dd pIrp post ch =
     (case descriptor dd of
        None \<Rightarrow> Some ch
      | Some d \<Rightarrow> do {
          number \<leftarrow> read8 mem 2;
          alternate \<leftarrow> read8 mem 3;
          (case parse_descriptor env d number alternate of
             None \<Rightarrow> Some ch
           | Some (bAlternateSetting, bInterfaceNumber) \<Rightarrow>
               USBPcapAnalyzeControlTransfer (env_now env)
                 (select_interface_transfer bAlternateSetting bInterfaceNumber) header dd pIrp post ch)
        })"

text \<open>A wrapped control request: no wrapped transfer means the code leaves the switch.\<close>

definition log_wrapped ::
  "urb_env \<Rightarrow> control_transfer option \<Rightarrow> urb_header \<Rightarrow> device_data \<Rightarrow> u64 \<Rightarrow> bool \<Rightarrow> channel \<Rightarrow>
   channel option" where
  "log_wrapped env wrapped header dd pIrp post ch =
     (case wrapped of
        None \<Rightarrow> Some ch
      | Some t \<Rightarrow> USBPcapAnalyzeControlTransfer (env_now env) t header dd pIrp post ch)"

definition is_pipe_request :: "u16 \<Rightarrow> bool" where
  "is_pipe_request f \<longleftrightarrow> f = URB_FUNCTION_SYNC_RESET_PIPE_AND_CLEAR_STALL \<or>
     f = URB_FUNCTION_SYNC_RESET_PIPE \<or> f = URB_FUNCTION_SYNC_CLEAR_STALL \<or>
     f = URB_FUNCTION_ABORT_PIPE \<or> f = URB_FUNCTION_CLOSE_STATIC_STREAMS"

text \<open>The logged functions: the result is None on a fault; a body that does not fit faults.\<close>

definition log_known ::
  "urb_env \<Rightarrow> urb_header \<Rightarrow> urb_body \<Rightarrow> u64 \<Rightarrow> bool \<Rightarrow> device_data \<Rightarrow> channel \<Rightarrow> channel option"
where
  "log_known env header body pIrp post dd ch =
     (let f = uh_Function header; now = env_now env in
      if f = URB_FUNCTION_SELECT_CONFIGURATION then
        (case body of SelectConfiguration cfg _ \<Rightarrow> do {
             t \<leftarrow> select_configuration_transfer cfg;
             USBPcapAnalyzeControlTransfer now t header dd pIrp post ch }
         | _ \<Rightarrow> None)
      else if f = URB_FUNCTION_SELECT_INTERFACE then
        (case body of SelectInterface mem \<Rightarrow> log_select_interface env mem header dd pIrp post ch
         | _ \<Rightarrow> None)
      else if f = URB_FUNCTION_CONTROL_TRANSFER then
        (case body of ControlTransfer t \<Rightarrow> USBPcapAnalyzeControlTransfer now t header dd pIrp post ch
         | _ \<Rightarrow> None)
      else if f = URB_FUNCTION_CONTROL_TRANSFER_EX then
        (case body of ControlTransferEx t \<Rightarrow> USBPcapAnalyzeControlTransfer now t header dd pIrp post ch
         | _ \<Rightarrow> None)
      else if descriptor_function f \<noteq> None then
        (case body of DescriptorRequest r \<Rightarrow>
             log_wrapped env (descriptor_transfer f r) header dd pIrp post ch
         | _ \<Rightarrow> None)
      else if status_function f \<noteq> None then
        (case body of StatusRequest r \<Rightarrow>
             log_wrapped env (status_transfer f r) header dd pIrp post ch
         | _ \<Rightarrow> None)
      else if class_function f \<noteq> None then
        (case body of ClassRequest r \<Rightarrow>
             log_wrapped env (class_transfer f r) header dd pIrp post ch
         | _ \<Rightarrow> None)
      else if f = URB_FUNCTION_BULK_OR_INTERRUPT_TRANSFER then
        (case body of BulkTransfer t \<Rightarrow> analyze_bulk now t header dd pIrp post ch | _ \<Rightarrow> None)
      else if f = URB_FUNCTION_ISOCH_TRANSFER then
        (case body of IsochTransfer t \<Rightarrow>
             analyze_isoch now (pool_iso_header env) (pool_iso_entries env) t header dd pIrp post ch
         | _ \<Rightarrow> None)
      else if is_pipe_request f then
        (case body of PipeRequest h \<Rightarrow> analyze_pipe_request now h header dd pIrp post ch | _ \<Rightarrow> None)
      else if f = URB_FUNCTION_GET_CURRENT_FRAME_NUMBER then
        (case body of FrameNumberRequest n \<Rightarrow>
             analyze_frame_number now (stack_word env) n header dd pIrp post ch
         | _ \<Rightarrow> None)
      else None)"

definition known_function :: "u16 \<Rightarrow> bool" where
  "known_function f \<longleftrightarrow> f = URB_FUNCTION_SELECT_CONFIGURATION \<or> f = URB_FUNCTION_SELECT_INTERFACE \<or>
     f = URB_FUNCTION_CONTROL_TRANSFER \<or> f = URB_FUNCTION_CONTROL_TRANSFER_EX \<or>
     descriptor_function f \<noteq> None \<or> status_function f \<noteq> None \<or> class_function f \<noteq> None \<or>
     f = URB_FUNCTION_BULK_OR_INTERRUPT_TRANSFER \<or> f = URB_FUNCTION_ISOCH_TRANSFER \<or>
     is_pipe_request f \<or> f = URB_FUNCTION_GET_CURRENT_FRAME_NUMBER"

definition analyze_switch ::
  "urb_env \<Rightarrow> urb_header \<Rightarrow> urb_body \<Rightarrow> u64 \<Rightarrow> bool \<Rightarrow> device_data \<Rightarrow> channel \<Rightarrow>
   (device_data \<times> channel) option" where
  "analyze_switch env header body pIrp post dd ch =
     (if known_function (uh_Function header)
      then map_option (\<lambda>ch'. (dd, ch')) (log_known env header body pIrp post dd ch)
      else analyze_default env header pIrp post dd ch)"

definition USBPcapAnalyzeURB ::
  "urb_env \<Rightarrow> u64 \<Rightarrow> urb_header \<Rightarrow> urb_body \<Rightarrow> bool \<Rightarrow> device_data \<Rightarrow> channel \<Rightarrow>
   (device_data \<times> channel) option" where
  "USBPcapAnalyzeURB env pIrp header body post dd ch = do {
     (dd0, unknown) \<leftarrow>
       (if post
        then map_option (\<lambda>(t, u). (dd\<lparr>URBIrpTable := Some t\<rparr>, u))
          (USBPcapObtainURBIRPInfo (URBIrpTable dd) pIrp)
        else Some (dd, None));
     dd1 \<leftarrow> analyze_always env header body post dd0;
     if \<not> USBPcapIsDeviceFiltered (addr_filter (root ch)) (uint (deviceAddress dd1))
     then Some (dd1, ch)
     else do {
       ch1 \<leftarrow> log_unknown pIrp unknown ch;
       analyze_switch env header body pIrp post dd1 ch1 } }"


section \<open>Well-formed requests and devices\<close>

definition descriptor_ok :: "bytes option \<Rightarrow> bool" where
  "descriptor_ok cfg \<longleftrightarrow>
     (case cfg of None \<Rightarrow> True
      | Some c \<Rightarrow> 6 \<le> length c \<and>
          (case read16 c 2 of None \<Rightarrow> False | Some n \<Rightarrow> unat n \<le> length c))"

definition interface_block :: "bytes \<Rightarrow> bool" where
  "interface_block mem \<longleftrightarrow> (\<exists>is. mem = interfaces_bytes is)"

text \<open>
  A well-formed URB: the body fits the function, buffers are as long as they say, and the
  interface information ends with the URB.
\<close>

definition urb_ok :: "urb_header \<Rightarrow> urb_body \<Rightarrow> bool" where
  "urb_ok header body \<longleftrightarrow>
     (let f = uh_Function header in
      case body of
        SelectConfiguration cfg mem \<Rightarrow> f = URB_FUNCTION_SELECT_CONFIGURATION \<and>
          descriptor_ok cfg \<and> interface_block mem \<and> unat (uh_Length header) = 40 + length mem
      | SelectInterface mem \<Rightarrow> f = URB_FUNCTION_SELECT_INTERFACE \<and> interface_block mem \<and>
          mem \<noteq> [] \<and> unat (uh_Length header) = 32 + length mem
      | ControlTransfer t \<Rightarrow> f = URB_FUNCTION_CONTROL_TRANSFER \<and> transfer_ok t
      | ControlTransferEx t \<Rightarrow> f = URB_FUNCTION_CONTROL_TRANSFER_EX \<and> transfer_ok t
      | DescriptorRequest r \<Rightarrow> descriptor_function f \<noteq> None \<and>
          buffer_ok (dr_TransferBufferLength r) (dr_TransferBuffer r) (dr_TransferBufferMDL r)
      | StatusRequest r \<Rightarrow> status_function f \<noteq> None \<and>
          buffer_ok (sr_TransferBufferLength r) (sr_TransferBuffer r) (sr_TransferBufferMDL r)
      | ClassRequest r \<Rightarrow> class_function f \<noteq> None \<and>
          buffer_ok (cr_TransferBufferLength r) (cr_TransferBuffer r) (cr_TransferBufferMDL r)
      | BulkTransfer t \<Rightarrow> f = URB_FUNCTION_BULK_OR_INTERRUPT_TRANSFER \<and>
          buffer_ok (bt_TransferBufferLength t) (bt_TransferBuffer t) (bt_TransferBufferMDL t)
      | IsochTransfer t \<Rightarrow> f = URB_FUNCTION_ISOCH_TRANSFER \<and> iso_ok t
      | PipeRequest _ \<Rightarrow> is_pipe_request f
      | FrameNumberRequest _ \<Rightarrow> f = URB_FUNCTION_GET_CURRENT_FRAME_NUMBER
      | OtherRequest \<Rightarrow> \<not> known_function f)"

definition dd_ok :: "device_data \<Rightarrow> bool" where
  "dd_ok dd \<longleftrightarrow>
     (case endpointTable dd of None \<Rightarrow> False | Some t \<Rightarrow> table_sorted ep_handle t) \<and>
     (case URBIrpTable dd of None \<Rightarrow> False | Some t \<Rightarrow> table_sorted ui_irp t)"

lemma dd_ok_tables: "dd_ok dd \<Longrightarrow> endpointTable dd \<noteq> None" "dd_ok dd \<Longrightarrow> URBIrpTable dd \<noteq> None"
  by (auto simp: dd_ok_def split: option.splits)

lemma dd_ok_update: "dd_ok dd \<Longrightarrow> table_sorted ui_irp t \<Longrightarrow> dd_ok (dd\<lparr>URBIrpTable := Some t\<rparr>)"
  by (simp add: dd_ok_def)

lemma dd_ok_URBIrpTable: "dd_ok dd \<Longrightarrow> \<exists>t. URBIrpTable dd = Some t \<and> table_sorted ui_irp t"
  by (auto simp: dd_ok_def split: option.splits)

section \<open>Every known function\<close>

lemma control_extends:
  "channel_wf ch \<Longrightarrow> transfer_ok t \<Longrightarrow> dd_ok dd \<Longrightarrow>
   \<exists>ch'. USBPcapAnalyzeControlTransfer now t header dd irp post ch = Some ch' \<and> extends ch ch'"
  using AnalyzeControlTransfer_logs [of ch t dd now header irp post] dd_ok_tables(1) [of dd]
  by (auto dest: logs_extends)

lemma transfer_ok_wrap: "length setup = 8 \<Longrightarrow> transfer_ok (wrap_out setup)"
  by (simp add: transfer_ok_def wrap_out_def buffer_ok_def block_ok_def)

lemma wrapped_ok:
  "descriptor_transfer f d = Some t \<Longrightarrow>
   buffer_ok (dr_TransferBufferLength d) (dr_TransferBuffer d) (dr_TransferBufferMDL d) \<Longrightarrow> transfer_ok t"
  "status_transfer f s = Some t \<Longrightarrow>
   buffer_ok (sr_TransferBufferLength s) (sr_TransferBuffer s) (sr_TransferBufferMDL s) \<Longrightarrow> transfer_ok t"
  "class_transfer f c = Some t \<Longrightarrow>
   buffer_ok (cr_TransferBufferLength c) (cr_TransferBuffer c) (cr_TransferBufferMDL c) \<Longrightarrow> transfer_ok t"
  by (auto simp: descriptor_transfer_def status_transfer_def class_transfer_def transfer_ok_def
      bind_eq_Some_conv)

lemma log_wrapped_extends:
  assumes "channel_wf ch" "dd_ok dd" "\<And>t. w = Some t \<Longrightarrow> transfer_ok t"
  shows "\<exists>ch'. log_wrapped env w header dd irp post ch = Some ch' \<and> extends ch ch'"
  using assms control_extends [OF assms(1) _ assms(2)]
  by (cases w) (auto simp: log_wrapped_def extends_refl)

lemma functions_distinct:
  "descriptor_function f \<noteq> None \<Longrightarrow> f \<noteq> 0 \<and> f \<noteq> 1 \<and> f \<noteq> 8 \<and> f \<noteq> 0x32"
  "status_function f \<noteq> None \<Longrightarrow> f \<noteq> 0 \<and> f \<noteq> 1 \<and> f \<noteq> 8 \<and> f \<noteq> 0x32 \<and> descriptor_function f = None"
  "class_function f \<noteq> None \<Longrightarrow> f \<noteq> 0 \<and> f \<noteq> 1 \<and> f \<noteq> 8 \<and> f \<noteq> 0x32 \<and> descriptor_function f = None \<and>
     status_function f = None"
  "is_pipe_request f \<Longrightarrow> f \<noteq> 0 \<and> f \<noteq> 1 \<and> f \<noteq> 8 \<and> f \<noteq> 0x32 \<and> f \<noteq> 9 \<and> f \<noteq> 0xA \<and>
     descriptor_function f = None \<and> status_function f = None \<and> class_function f = None"
  by (auto simp: descriptor_function_def status_function_def class_function_def
      is_pipe_request_def split: if_splits)

lemma plain_functions:
  "descriptor_function 9 = None" "status_function 9 = None" "class_function 9 = None"
  "descriptor_function 10 = None" "status_function 10 = None" "class_function 10 = None"
  "descriptor_function 7 = None" "status_function 7 = None" "class_function 7 = None"
  "\<not> is_pipe_request 7"
  by (simp_all add: descriptor_function_def status_function_def class_function_def is_pipe_request_def)

lemma select_interface_extends:
  assumes wf: "channel_wf ch" and dd: "dd_ok dd" and mem: "interface_block mem" "mem \<noteq> []"
  shows "\<exists>ch'. log_select_interface env mem header dd irp post ch = Some ch' \<and> extends ch ch'"
proof -
  obtain i "is" where "mem = interface_bytes i @ interfaces_bytes is"
    using mem by (auto simp: interface_block_def interfaces_bytes_def neq_Nil_conv)
      (metis concat.simps(1) concat.simps(2) list.exhaust list.simps(8,9) mem(2))
  then have "24 \<le> length mem" using interface_size_ge [of i] by simp
  then have reads: "read8 mem 2 = Some (mem ! 2)" "read8 mem 3 = Some (mem ! 3)"
    by (simp_all add: read8_def)
  show ?thesis
    using control_extends [OF wf _ dd] wf
    by (auto simp: log_select_interface_def reads select_interface_transfer_def transfer_ok_wrap
        extends_refl split: option.splits)
qed

lemma packet_none_extends:
  assumes "channel_wf ch" "ph_headerLen h = 27" "block_ok (ph_dataLength h) buf"
  shows "\<exists>ch'. map_option fst (USBPcapBufferWritePacket now ch (PlainHeader h) buf) = Some ch' \<and>
    extends ch ch'"
  using WritePacket_logs [OF assms(1) header_ok_plain [OF assms(2)], of buf now] assms(3)
  by (auto dest: logs_extends)

lemma pipe_request_extends:
  assumes wf: "channel_wf ch" and dd: "dd_ok dd"
  shows "\<exists>ch'. analyze_pipe_request now h header dd irp post ch = Some ch' \<and> extends ch ch'"
proof -
  obtain table where tb: "endpointTable dd = Some table" using dd_ok_tables(1) [OF dd] by auto
  obtain dev ep ty where r: "(case USBPcapGetEndpointInfo table h of
         Some info \<Rightarrow> (ep_device info, ep_address info, USBPCAP_TRANSFER_IRP_INFO)
       | None \<Rightarrow> (deviceAddress dd, 0xFF, USBPCAP_TRANSFER_UNKNOWN)) = (dev, ep, ty)"
    by (rule prod_cases3)
  show ?thesis
    unfolding analyze_pipe_request_def USBPcapRetrieveEndpointInfo_def tb option.map
      Option.bind.bind_lunit Let_def r prod.case
    by (rule packet_none_extends [OF wf]) simp_all
qed

lemma frame_number_extends:
  "channel_wf ch \<Longrightarrow>
   \<exists>ch'. analyze_frame_number now stack n header dd irp post ch = Some ch' \<and> extends ch ch'"
  unfolding analyze_frame_number_def
  by (rule packet_none_extends) (simp_all add: block_ok_def)

lemma log_known_extends:
  assumes wf: "channel_wf ch" and dd: "dd_ok dd" and urb: "urb_ok header body"
    and known: "known_function (uh_Function header)"
  shows "\<exists>ch'. log_known env header body irp post dd ch = Some ch' \<and> extends ch ch'"
proof (cases body)
  case (SelectConfiguration cfg mem)
  then have "\<exists>v. select_configuration_transfer cfg = Some (wrap_out [0, 9, v, 0, 0, 0, 0, 0])"
    using urb by (auto simp: urb_ok_def descriptor_ok_def select_configuration_transfer_def
        read8_def split: option.splits)
  then show ?thesis
    using SelectConfiguration urb control_extends [OF wf _ dd]
    by (auto simp: urb_ok_def log_known_def transfer_ok_wrap)
next
  case (SelectInterface mem)
  then show ?thesis
    using urb select_interface_extends [OF wf dd, of mem] by (simp add: urb_ok_def log_known_def)
next
  case (DescriptorRequest r)
  then show ?thesis
    using urb functions_distinct(1) [of "uh_Function header"]
      log_wrapped_extends [OF wf dd, of "descriptor_transfer (uh_Function header) r"] wrapped_ok(1)
    by (simp add: urb_ok_def log_known_def)
next
  case (StatusRequest r)
  then show ?thesis
    using urb functions_distinct(2) [of "uh_Function header"]
      log_wrapped_extends [OF wf dd, of "status_transfer (uh_Function header) r"] wrapped_ok(2)
    by (simp add: urb_ok_def log_known_def)
next
  case (ClassRequest r)
  then show ?thesis
    using urb functions_distinct(3) [of "uh_Function header"]
      log_wrapped_extends [OF wf dd, of "class_transfer (uh_Function header) r"] wrapped_ok(3)
    by (simp add: urb_ok_def log_known_def)
next
  case (BulkTransfer t)
  then show ?thesis
    using urb analyze_bulk_logs [OF wf dd_ok_tables(1) [OF dd], of t "env_now env" header irp post]
    by (auto simp: urb_ok_def log_known_def plain_functions dest: logs_extends)
next
  case (IsochTransfer t)
  then show ?thesis
    using urb analyze_isoch_extends [OF wf dd_ok_tables(1) [OF dd]]
    by (simp add: urb_ok_def log_known_def plain_functions)
next
  case (PipeRequest h)
  then show ?thesis
    using urb functions_distinct(4) [of "uh_Function header"] pipe_request_extends [OF wf dd]
    by (simp add: urb_ok_def log_known_def)
next
  case (FrameNumberRequest n)
  then show ?thesis
    using urb frame_number_extends [OF wf] by (simp add: urb_ok_def log_known_def plain_functions)
next
  case OtherRequest
  then show ?thesis using urb known by (simp add: urb_ok_def)
qed (use urb control_extends [OF wf _ dd] in \<open>simp_all add: urb_ok_def log_known_def\<close>)


section \<open>The whole analysis\<close>

lemma interface_scan_ok:
  assumes "interface_block mem" "unat len = k + length mem" "k < 65536"
    and "table_sorted ep_handle t" "len > of_nat k"
  shows "\<exists>t'. USBPcapParseInterfaceInformation pool dev mem (len - of_nat k) (Some t) = Some (Some t') \<and>
    table_sorted ep_handle t'"
proof -
  obtain "is" where i: "mem = interfaces_bytes is" using assms(1) by (auto simp: interface_block_def)
  have k: "unat (of_nat k :: u16) = k" using assms(3) by (simp add: unat_of_nat)
  have "unat len < 65536" using unsigned_less [of len, where 'a = nat] by simp
  then have "length (interfaces_bytes is) < 65536" using assms(2) i by simp
  moreover have "unat (len - of_nat k) = length (interfaces_bytes is)"
    using assms(2,5) k i by (simp add: unat_sub)
  ultimately show ?thesis
    using parse_interface_information [of "is" "len - of_nat k"] add_interfaces_sorted [OF assms(4)]
    by (auto simp: i)
qed

lemma keep_descriptor_ok: "descriptor_ok cfg \<Longrightarrow> \<exists>d. keep_descriptor True cfg = Some d"
  by (auto simp: descriptor_ok_def keep_descriptor_def mem_read_def split: option.splits)

lemma analyze_always_ok:
  assumes dd: "dd_ok dd" and urb: "urb_ok header body" and pool: "pool_descriptor env"
  shows "\<exists>dd'. analyze_always env header body post dd = Some dd' \<and> dd_ok dd' \<and>
    deviceAddress dd' = deviceAddress dd \<and> URBIrpTable dd' = URBIrpTable dd"
proof -
  obtain t where t: "endpointTable dd = Some t" "table_sorted ep_handle t"
    using dd by (auto simp: dd_ok_def split: option.splits)
  have scan: "\<exists>t'. (if uh_Length header > of_nat k
      then USBPcapParseInterfaceInformation (pool_pipe env) (deviceAddress dd) mem
        (uh_Length header - of_nat k) (endpointTable dd)
      else Some (endpointTable dd)) = Some (Some t') \<and> table_sorted ep_handle t'"
    if "interface_block mem" "unat (uh_Length header) = k + length mem" "k < 65536" for mem k
    using interface_scan_ok [OF that t(2)] t by simp
  show ?thesis
  proof (cases body)
    case (SelectConfiguration cfg mem)
    then have b: "descriptor_ok cfg" "interface_block mem"
      "unat (uh_Length header) = 40 + length mem" "uh_Function header = 0"
      using urb by (simp_all add: urb_ok_def)
    show ?thesis
      using scan [OF b(2,3)] keep_descriptor_ok [OF b(1)] pool dd SelectConfiguration b(4)
      by (auto simp: analyze_always_def dd_ok_def)
  next
    case (SelectInterface mem)
    then have b: "interface_block mem" "unat (uh_Length header) = 32 + length mem"
      "uh_Function header = 1"
      using urb by (simp_all add: urb_ok_def)
    show ?thesis
      using scan [OF b(1,2)] dd SelectInterface b(3) by (auto simp: analyze_always_def dd_ok_def)
  qed (use urb dd functions_distinct [of "uh_Function header"] in
        \<open>auto simp: urb_ok_def analyze_always_def known_function_def\<close>)
qed

lemma log_unknown_extends:
  "channel_wf ch \<Longrightarrow> \<exists>ch'. log_unknown irp u ch = Some ch' \<and> extends ch ch'"
  using WritePacket_logs [of ch "PlainHeader \<lparr>ph_headerLen = 27, ph_irpId = irp,
      ph_status = ui_status (the u), ph_function = ui_function (the u), ph_info = ui_info (the u),
      ph_bus = ui_bus (the u), ph_device = ui_device (the u), ph_endpoint = 0,
      ph_transfer = USBPCAP_TRANSFER_UNKNOWN, ph_dataLength = 0\<rparr>" None "ui_timestamp (the u)"]
  by (auto simp: log_unknown_def extends_refl header_ok_plain USBPcapBufferWritePacket_def
      dest: logs_extends split: option.split)

lemma analyze_default_extends:
  assumes "channel_wf ch" "dd_ok dd"
  shows "\<exists>dd' ch'. analyze_default env header irp post dd ch = Some (dd', ch') \<and> dd_ok dd' \<and> extends ch ch'"
proof (cases post)
  case True
  then show ?thesis
    using packet_none_extends [OF assms(1), of "\<lparr>ph_headerLen = 27, ph_irpId = irp,
        ph_status = uh_Status header, ph_function = uh_Function header, ph_info = 1,
        ph_bus = busId (root ch), ph_device = deviceAddress dd, ph_endpoint = 0,
        ph_transfer = USBPCAP_TRANSFER_UNKNOWN, ph_dataLength = 0\<rparr>" None "env_now env"] assms(2)
    by (auto simp: analyze_default_def)
next
  case False
  obtain t where t: "URBIrpTable dd = Some t" "table_sorted ui_irp t"
    using dd_ok_URBIrpTable [OF assms(2)] by blast
  with False show ?thesis
    using assms AddURBIRPInfo_map [OF t(2)]
    by (simp add: analyze_default_def extends_refl dd_ok_update)
qed

lemma AnalyzeURB_ok:
  assumes wf: "channel_wf ch" and dd: "dd_ok dd" and urb: "urb_ok header body"
    and pool: "pool_descriptor env"
  shows "\<exists>dd' ch'. USBPcapAnalyzeURB env irp header body post dd ch = Some (dd', ch') \<and>
    dd_ok dd' \<and> extends ch ch' \<and>
    (\<not> USBPcapIsDeviceFiltered (addr_filter (root ch)) (uint (deviceAddress dd)) \<longrightarrow> ch' = ch)"
proof -
  obtain u where u: "URBIrpTable dd = Some u" "table_sorted ui_irp u"
    using dd_ok_URBIrpTable [OF dd] by blast
  obtain u' v where u': "USBPcapObtainURBIRPInfo (Some u) irp = Some (u', v)" "table_sorted ui_irp u'"
    using ObtainURBIRPInfo_map [OF u(2), of irp] by blast
  obtain dd0 unknown where dd0: "(if post
      then map_option (\<lambda>(t, u). (dd\<lparr>URBIrpTable := Some t\<rparr>, u))
        (USBPcapObtainURBIRPInfo (URBIrpTable dd) irp)
      else Some (dd, None)) = Some (dd0, unknown)" "dd_ok dd0" "deviceAddress dd0 = deviceAddress dd"
  proof (cases post)
    case True
    then show ?thesis
      using that [of "dd\<lparr>URBIrpTable := Some u'\<rparr>" v] u u' dd by (simp add: dd_ok_update)
  next
    case False
    then show ?thesis using that [of dd None] dd by simp
  qed
  obtain dd1 where dd1: "analyze_always env header body post dd0 = Some dd1" "dd_ok dd1"
    "deviceAddress dd1 = deviceAddress dd"
    using analyze_always_ok [OF dd0(2) urb pool] dd0(3) by auto
  have run: "USBPcapAnalyzeURB env irp header body post dd ch =
      (if \<not> USBPcapIsDeviceFiltered (addr_filter (root ch)) (uint (deviceAddress dd)) then Some (dd1, ch)
       else log_unknown irp unknown ch \<bind> analyze_switch env header body irp post dd1)"
    unfolding USBPcapAnalyzeURB_def dd0(1) by (simp add: dd1)
  show ?thesis
  proof (cases "USBPcapIsDeviceFiltered (addr_filter (root ch)) (uint (deviceAddress dd))")
    case False
    then show ?thesis using run wf dd1(2) by (auto simp: extends_refl)
  next
    case True
    obtain ch1 where ch1: "log_unknown irp unknown ch = Some ch1" "extends ch ch1"
      using log_unknown_extends [OF wf] by blast
    then have wf1: "channel_wf ch1" by (simp add: extends_def)
    obtain dd' ch' where "analyze_switch env header body irp post dd1 ch1 = Some (dd', ch')"
      "dd_ok dd'" "extends ch1 ch'"
      using log_known_extends [OF wf1 dd1(2) urb] analyze_default_extends [OF wf1 dd1(2)] dd1(2)
      by (cases "known_function (uh_Function header)") (fastforce simp: analyze_switch_def)+
    then show ?thesis
      using run True ch1 extends_trans by (intro exI [of _ dd'] exI [of _ ch']) auto
  qed
qed


definition example_env :: urb_env where
  "example_env = \<lparr>env_now = 0, pool_pipe = (\<lambda>_. True), pool_descriptor = True,
     pool_urb_info = True, pool_iso_header = True, pool_iso_entries = True, stack_word = 0,
     parse_descriptor = (\<lambda>_ n a. Some (a, n))\<rparr>"



section \<open>Requests with an unknown function\<close>

definition unknown_header :: "u64 \<Rightarrow> urb_header \<Rightarrow> u8 \<Rightarrow> u16 \<Rightarrow> u16 \<Rightarrow> packet_header" where
  "unknown_header irp h info bus dev =
     \<lparr>ph_headerLen = 27, ph_irpId = irp, ph_status = uh_Status h, ph_function = uh_Function h,
      ph_info = info, ph_bus = bus, ph_device = dev, ph_endpoint = 0,
      ph_transfer = USBPCAP_TRANSFER_UNKNOWN, ph_dataLength = 0\<rparr>"

definition no_payload :: "payload_entry list" where
  "no_payload = [\<lparr>pe_size = 0, pe_buffer = None\<rparr>, \<lparr>pe_size = 0, pe_buffer = None\<rparr>]"

lemma unknown_packet_logs:
  assumes "channel_wf ch"
  shows "\<exists>ch'. map_option fst (USBPcapBufferWritePacket now ch
      (PlainHeader (unknown_header irp h info bus dev)) None) = Some ch' \<and>
    logs ch now (PlainHeader (unknown_header irp h info bus dev)) no_payload ch'"
  using WritePacket_logs [OF assms header_ok_plain, of "unknown_header irp h info bus dev" None now]
  by (simp add: unknown_header_def no_payload_def)

text \<open>
  A request whose function the driver does not know is logged as a pair. On its way down
  nothing is written; it is remembered. When it comes back, still unknown, the remembered
  request is logged first, with the time, status and function it had on its way down, and then
  the response; and the request is forgotten, so its pointer can be reused.
\<close>

theorem unknown_request_logged:
  assumes wf: "channel_wf ch" and dd: "dd_ok dd"
    and unknown: "\<not> known_function (uh_Function h1)" "\<not> known_function (uh_Function h2)"
    and filtered: "USBPcapIsDeviceFiltered (addr_filter (root ch)) (uint (deviceAddress dd))"
    and fresh: "irp_map (the (URBIrpTable dd)) irp = None" and pool: "pool_urb_info env1"
  shows "\<exists>dd1 dd2 ch1 ch2.
    USBPcapAnalyzeURB env1 irp h1 OtherRequest False dd ch = Some (dd1, ch) \<and>
    USBPcapAnalyzeURB env2 irp h2 OtherRequest True dd1 ch = Some (dd2, ch2) \<and>
    logs ch (env_now env1) (PlainHeader (unknown_header irp h1 0 (busId (root ch)) (deviceAddress dd)))
      no_payload ch1 \<and>
    logs ch1 (env_now env2) (PlainHeader (unknown_header irp h2 1 (busId (root ch1)) (deviceAddress dd)))
      no_payload ch2 \<and>
    irp_map (the (URBIrpTable dd2)) = irp_map (the (URBIrpTable dd))"
proof -
  have fns: "uh_Function h \<noteq> 0 \<and> uh_Function h \<noteq> 1" if "\<not> known_function (uh_Function h)" for h
    using that by (auto simp: known_function_def)
  obtain t where t: "URBIrpTable dd = Some t" "table_sorted ui_irp t"
    using dd_ok_URBIrpTable [OF dd] by blast
  define info where "info = \<lparr>ui_irp = irp, ui_timestamp = env_now env1, ui_status = uh_Status h1,
    ui_function = uh_Function h1, ui_info = 0, ui_bus = busId (root ch), ui_device = deviceAddress dd\<rparr>"
  define t1 where "t1 = USBPcapAddURBIRPInfo True t info"
  define dd1 where "dd1 = dd\<lparr>URBIrpTable := Some t1\<rparr>"
  have t1: "table_sorted ui_irp t1" "irp_map t1 = (irp_map t)(irp \<mapsto> info)"
    using AddURBIRPInfo_map [OF t(2), of True info] fresh t(1) by (simp_all add: t1_def info_def)
  have down: "USBPcapAnalyzeURB env1 irp h1 OtherRequest False dd ch = Some (dd1, ch)"
    using fns [OF unknown(1)] filtered unknown(1) t(1) pool
    by (simp add: USBPcapAnalyzeURB_def analyze_always_def log_unknown_def analyze_switch_def
        analyze_default_def dd1_def t1_def info_def)
  obtain t2 where t2: "USBPcapObtainURBIRPInfo (Some t1) irp = Some (t2, Some info)"
    "irp_map t2 = (irp_map t1)(irp := None)"
    using ObtainURBIRPInfo_map [OF t1(1), of irp] t1(2) by auto
  define dd2 where "dd2 = dd1\<lparr>URBIrpTable := Some t2\<rparr>"
  obtain ch1 where ch1: "map_option fst (USBPcapBufferWritePacket (env_now env1) ch
      (PlainHeader (unknown_header irp h1 0 (busId (root ch)) (deviceAddress dd))) None) = Some ch1"
    "logs ch (env_now env1) (PlainHeader (unknown_header irp h1 0 (busId (root ch)) (deviceAddress dd)))
      no_payload ch1"
    using unknown_packet_logs [OF wf] by blast
  have "channel_wf ch1" using ch1(2) by (simp add: logs_def)
  then obtain ch2 where ch2: "map_option fst (USBPcapBufferWritePacket (env_now env2) ch1
      (PlainHeader (unknown_header irp h2 1 (busId (root ch1)) (deviceAddress dd))) None) = Some ch2"
    "logs ch1 (env_now env2) (PlainHeader (unknown_header irp h2 1 (busId (root ch1)) (deviceAddress dd)))
      no_payload ch2"
    using unknown_packet_logs by blast
  have "log_unknown irp (Some info) ch = Some ch1"
    using ch1(1) by (simp add: log_unknown_def info_def unknown_header_def USBPcapBufferWritePacket_def)
  moreover have "analyze_default env2 h2 irp True dd2 ch1 = Some (dd2, ch2)"
    using ch2(1) by (auto simp: analyze_default_def unknown_header_def dd2_def dd1_def)
  ultimately have "USBPcapAnalyzeURB env2 irp h2 OtherRequest True dd1 ch = Some (dd2, ch2)"
    using fns [OF unknown(2)] filtered unknown(2) t2(1)
    by (simp add: USBPcapAnalyzeURB_def analyze_always_def analyze_switch_def dd2_def dd1_def)
  moreover have "irp_map t2 = irp_map t"
    using t2(2) t1(2) fresh t(1) by (auto simp: fun_eq_iff)
  ultimately show ?thesis
    using down ch1(2) ch2(2) t(1)
    by (intro exI [of _ dd1] exI [of _ dd2] exI [of _ ch1] exI [of _ ch2]) (simp add: dd2_def)
qed

definition capturing_channel :: channel where
  "capturing_channel = example_channel\<lparr>root := example_buffer\<lparr>addr_filter := filter_zero\<lparr>filterAll := 1\<rparr>\<rparr>\<rparr>"

theorem unknown_request_logged_witness:
  "\<exists>dd1 dd2 ch2.
    USBPcapAnalyzeURB example_env 9 \<lparr>uh_Length = 40, uh_Function = 3, uh_Status = 0\<rparr> OtherRequest
      False example_device capturing_channel = Some (dd1, capturing_channel) \<and>
    USBPcapAnalyzeURB example_env 9 \<lparr>uh_Length = 40, uh_Function = 3, uh_Status = 5\<rparr> OtherRequest
      True dd1 capturing_channel = Some (dd2, ch2)"
proof -
  have "rb_wf (example_buffer\<lparr>addr_filter := f\<rparr>)" for f
    using rb_wf_example by (simp add: rb_wf_def example_buffer_def)
  then have "channel_wf capturing_channel"
    using channel_wf_example by (simp add: channel_wf_def capturing_channel_def)
  moreover have "dd_ok example_device" "irp_map (the (URBIrpTable example_device)) 9 = None"
    "pool_urb_info example_env"
    by (simp_all add: dd_ok_def example_device_def example_env_def)
  moreover have "\<not> known_function 3"
    by (simp add: known_function_def descriptor_function_def status_function_def class_function_def
        is_pipe_request_def)
  moreover have "USBPcapIsDeviceFiltered (addr_filter (root capturing_channel))
      (uint (deviceAddress example_device))"
    by (simp add: capturing_channel_def USBPcapIsDeviceFiltered_def)
  ultimately show ?thesis
    using unknown_request_logged [of capturing_channel example_device
        "\<lparr>uh_Length = 40, uh_Function = 3, uh_Status = 0\<rparr>"
        "\<lparr>uh_Length = 40, uh_Function = 3, uh_Status = 5\<rparr>" 9 example_env example_env]
    by auto
qed

section \<open>The unchecked allocation\<close>

text \<open>
  The copy of the configuration descriptor is allocated and used without a check: for a
  select-configuration URB with a non-empty descriptor the analysis faults on its way back
  whenever the pool is exhausted.
\<close>

theorem descriptor_allocation_unchecked:
  "USBPcapAnalyzeURB (example_env\<lparr>pool_descriptor := False\<rparr>) 9
     \<lparr>uh_Length = 40, uh_Function = 0, uh_Status = 0\<rparr>
     (SelectConfiguration (Some [9, 2, 9, 0, 1, 1, 0, 0x80, 50]) []) True example_device
     example_channel = None"
  by (simp add: USBPcapAnalyzeURB_def analyze_always_def keep_descriptor_def read16_def mem_read_def
      example_device_def example_env_def USBPcapObtainURBIRPInfo_def USBPcapGetURBIRPInfo_def)

end
