(* ===== verification/RemoveLock.thy ===== *)
theory RemoveLock
  imports Prelude
begin

text \<open>
  The kernel's remove locks, with which every routine of the driver keeps its device object
  alive, and the magic numbers that tell the driver's device objects apart.
\<close>

section \<open>Remove locks\<close>

text \<open>
  The kernel's remove lock as documented: acquiring fails once removal has begun and
  otherwise counts up; every release counts down, and one too many is a bug check.
\<close>

record remove_lock =
  lock_count :: nat
  lock_removed :: bool

definition IoAcquireRemoveLock :: "remove_lock \<Rightarrow> remove_lock \<times> ntstatus" where
  "IoAcquireRemoveLock l =
     (if lock_removed l then (l, STATUS_DELETE_PENDING)
      else (l\<lparr>lock_count := lock_count l + 1\<rparr>, STATUS_SUCCESS))"

definition IoReleaseRemoveLock :: "remove_lock \<Rightarrow> remove_lock option" where
  "IoReleaseRemoveLock l =
     (if lock_count l = 0 then None else Some (l\<lparr>lock_count := lock_count l - 1\<rparr>))"

abbreviation (input) USBPCAP_MAGIC_CONTROL :: u32 where "USBPCAP_MAGIC_CONTROL \<equiv> 0xBAD51571"
abbreviation (input) USBPCAP_MAGIC_ROOTHUB :: u32 where "USBPCAP_MAGIC_ROOTHUB \<equiv> 0xBAD51572"
abbreviation (input) USBPCAP_MAGIC_DEVICE :: u32 where "USBPCAP_MAGIC_DEVICE \<equiv> 0xBAD51573"

section \<open>Removal\<close>

text \<open>
  IoReleaseRemoveLockAndWait marks the lock removed, releases it and waits until nobody holds
  it; the flag says that there is nothing to wait for.
\<close>

definition IoReleaseRemoveLockAndWait :: "remove_lock \<Rightarrow> (remove_lock \<times> bool) option" where
  "IoReleaseRemoveLockAndWait l =
     (if lock_count l = 0 then None
      else Some (l\<lparr>lock_count := lock_count l - 1, lock_removed := True\<rparr>, lock_count l = 1))"

lemma STATUS_DELETE_PENDING_error [simp]: "\<not> NT_SUCCESS STATUS_DELETE_PENDING"
  by (simp add: NT_SUCCESS_def)

definition acquired :: "remove_lock \<Rightarrow> remove_lock" where
  "acquired l = l\<lparr>lock_count := lock_count l + 1\<rparr>"

lemma Acquire_eq:
  "IoAcquireRemoveLock l =
     (if lock_removed l then (l, STATUS_DELETE_PENDING) else (acquired l, STATUS_SUCCESS))"
  by (simp add: IoAcquireRemoveLock_def acquired_def)

lemma Release_acquired [simp]: "IoReleaseRemoveLock (acquired l) = Some l"
  by (simp add: IoReleaseRemoveLock_def acquired_def)

end
