(* ===== verification/Dispatch.thy ===== *)
theory Dispatch
  imports AnalyzeURB RemoveLock
begin

text \<open>
  The dispatch routines of the driver's device objects (USBPcapGenReq.c,
  USBPcapDeviceControl.c, USBPcapPower.c, DkDefault of USBPcapMain.c): create, clean-up and
  close, read and write, device control, internal device control with its completion, power
  and everything else. Each takes the device object and returns it updated, with the status
  and what became of the request; None is a fault. The status of a lower driver is an argument.
\<close>

section \<open>Device objects and requests\<close>

text \<open>
  A device object with its extension: the magic number, whether there is a lower device, the
  remove lock, for a control device the capture handle (0 is NULL), for a filter its device
  data, and the channel of the root hub it belongs to.
\<close>

record device_object =
  deviceMagic :: u32
  hasNextDevObj :: bool
  removeLock :: remove_lock
  pCaptureObject :: u64
  pDeviceData :: device_data
  channel_of :: channel

datatype irp_fate =
    IrpCompleted ntstatus nat
  | IrpForwarded
  | IrpForwardedWithCompletion
  | IrpPended
  | IrpNotCompleted

type_synonym 'a dispatch = "(device_object \<times> ntstatus \<times> 'a) option"

text \<open>
  Every dispatch routine is bracketed by the remove lock: when it cannot be acquired, the
  request is completed with the error, otherwise the lock is released at the end.
\<close>

definition with_remove_lock ::
  "device_object \<Rightarrow> (device_object \<Rightarrow> irp_fate dispatch) \<Rightarrow> irp_fate dispatch" where
  "with_remove_lock d body =
     (case IoAcquireRemoveLock (removeLock d) of (l, st) \<Rightarrow>
        if \<not> NT_SUCCESS st then Some (d, st, IrpCompleted st 0)
        else do {
          (d', ntStat, fate) \<leftarrow> body (d\<lparr>removeLock := l\<rparr>);
          l' \<leftarrow> IoReleaseRemoveLock (removeLock d');
          Some (d'\<lparr>removeLock := l'\<rparr>, ntStat, fate) })"

section \<open>Create, clean-up, close\<close>

datatype create_close = IrpCreate u32 | IrpCleanup | IrpClose | IrpOtherMajor

definition cleanup_capture :: "device_object \<Rightarrow> u64 \<Rightarrow> device_object" where
  "cleanup_capture d fileObject =
     (let ch = channel_of d;
          (q, cs) = DkCsqCleanUpQueue (pending ch) fileObject;
          rd = USBPcapBufferRemoveBuffer ((root ch)\<lparr>addr_filter := filter_zero\<rparr>)
      in d\<lparr>channel_of := ch\<lparr>root := rd, pending := q, completed := completed ch @ cs\<rparr>\<rparr>)"

definition control_create_close :: "create_close \<Rightarrow> u64 \<Rightarrow> device_object \<Rightarrow> device_object \<times> ntstatus" where
  "control_create_close major fileObject d =
     (case major of
        IrpCreate desiredAccess \<Rightarrow>
          if desiredAccess AND 0x20001 \<noteq> 0 then
            (if pCaptureObject d = 0 then (d\<lparr>pCaptureObject := fileObject\<rparr>, STATUS_SUCCESS)
             else (d, STATUS_ACCESS_DENIED))
          else (d, STATUS_SUCCESS)
      | IrpCleanup \<Rightarrow>
          if pCaptureObject d = fileObject then (cleanup_capture d fileObject, STATUS_SUCCESS)
          else (d, STATUS_SUCCESS)
      | IrpClose \<Rightarrow>
          (if pCaptureObject d = fileObject then d\<lparr>pCaptureObject := 0\<rparr> else d, STATUS_SUCCESS)
      | IrpOtherMajor \<Rightarrow> (d, STATUS_INVALID_DEVICE_REQUEST))"

definition is_filter_device :: "device_object \<Rightarrow> bool" where
  "is_filter_device d \<longleftrightarrow> deviceMagic d = USBPCAP_MAGIC_ROOTHUB \<or> deviceMagic d = USBPCAP_MAGIC_DEVICE"

definition DkCreateClose :: "ntstatus \<Rightarrow> create_close \<Rightarrow> u64 \<Rightarrow> device_object \<Rightarrow> irp_fate dispatch" where
  "DkCreateClose lower major fileObject d0 = with_remove_lock d0 (\<lambda>d.
     if is_filter_device d then Some (d, lower, IrpForwarded)
     else if deviceMagic d = USBPCAP_MAGIC_CONTROL then
       (case control_create_close major fileObject d of (d', ntStat) \<Rightarrow>
          Some (d', ntStat, IrpCompleted ntStat 0))
     else Some (d, STATUS_SUCCESS, IrpNotCompleted))"

section \<open>Read and write\<close>

datatype read_write = IrpRead read_irp | IrpWrite | IrpOtherTransfer

definition control_read_write :: "read_write \<Rightarrow> u64 \<Rightarrow> device_object \<Rightarrow> u32 dispatch" where
  "control_read_write major fileObject d =
     (case major of
        IrpRead irp \<Rightarrow>
          if fileObject = pCaptureObject d then do {
            (ch, irp', st, n) \<leftarrow> USBPcapBufferHandleReadIrp (channel_of d) irp;
            (if st = STATUS_PENDING then Some (d\<lparr>channel_of := ch\<rparr>, st, n)
             else Some (d\<lparr>channel_of := ch\<lparr>completed := completed ch @
               [\<lparr>done_irp = irp', done_status = st, done_information = n\<rparr>]\<rparr>\<rparr>, st, n)) }
          else Some (d, STATUS_ACCESS_DENIED, 0)
      | IrpWrite \<Rightarrow> Some (d, STATUS_NOT_SUPPORTED, 0)
      | IrpOtherTransfer \<Rightarrow> Some (d, STATUS_INVALID_DEVICE_REQUEST, 0))"

definition DkReadWrite :: "ntstatus \<Rightarrow> read_write \<Rightarrow> u64 \<Rightarrow> device_object \<Rightarrow> irp_fate dispatch" where
  "DkReadWrite lower major fileObject d0 = with_remove_lock d0 (\<lambda>d.
     if is_filter_device d then Some (d, lower, IrpForwarded)
     else if deviceMagic d = USBPCAP_MAGIC_CONTROL then do {
       (d', ntStat, bytesRead) \<leftarrow> control_read_write major fileObject d;
       Some (d', ntStat, if ntStat \<noteq> STATUS_PENDING then IrpCompleted ntStat (unat bytesRead)
                         else IrpPended) }
     else Some (d, STATUS_SUCCESS, IrpNotCompleted))"

section \<open>Device control\<close>

definition CTL_CODE :: "u32 \<Rightarrow> u32 \<Rightarrow> u32 \<Rightarrow> u32 \<Rightarrow> u32" where
  "CTL_CODE type func meth access =
     push_bit 16 type OR push_bit 14 access OR push_bit 2 func OR meth"

definition IOCTL_USBPCAP_SETUP_BUFFER :: u32
  where "IOCTL_USBPCAP_SETUP_BUFFER = CTL_CODE 0x22 0x800 0 1"
definition IOCTL_USBPCAP_START_FILTERING :: u32
  where "IOCTL_USBPCAP_START_FILTERING = CTL_CODE 0x22 0x801 0 3"
definition IOCTL_USBPCAP_STOP_FILTERING :: u32
  where "IOCTL_USBPCAP_STOP_FILTERING = CTL_CODE 0x22 0x802 0 3"
definition IOCTL_USBPCAP_GET_HUB_SYMLINK :: u32
  where "IOCTL_USBPCAP_GET_HUB_SYMLINK = CTL_CODE 0x22 0x803 0 0"
definition IOCTL_USBPCAP_SET_SNAPLEN_SIZE :: u32
  where "IOCTL_USBPCAP_SET_SNAPLEN_SIZE = CTL_CODE 0x22 0x804 0 1"

text \<open>A control request: its code, the two lengths, and the system buffer.\<close>

record ioctl_request =
  io_code :: u32
  io_input_length :: u32
  io_output_length :: u32
  io_buffer :: bytes

definition filter_bytes :: "address_filter \<Rightarrow> bytes" where
  "filter_bytes f = concat (map le32 (addresses f)) @ [filterAll f]"

definition read_filter :: "bytes \<Rightarrow> address_filter option" where
  "read_filter m = do {
     a \<leftarrow> read32 m 0; b \<leftarrow> read32 m 4; c \<leftarrow> read32 m 8; d \<leftarrow> read32 m 12; fa \<leftarrow> read8 m 16;
     Some \<lparr>addresses = [a, b, c, d], filterAll = fa\<rparr> }"

text \<open>
  The hub's symbolic link is what USBPcapGetHubInterfaces returns: None for NULL, otherwise
  the characters before the terminator. The result is the root hub data, the system buffer,
  the status and the length to report. \<open>pool\<close> is the block allocated for a capture buffer.
\<close>

definition symlink_bytes :: "u16 list \<Rightarrow> bytes" where
  "symlink_bytes s = concat (map le16 s) @ [0, 0]"

definition HandleUSBPcapControlIOCTL ::
  "u16 list option \<Rightarrow> bytes option \<Rightarrow> ioctl_request \<Rightarrow> bool \<Rightarrow> root_data \<Rightarrow>
   (root_data \<times> bytes \<times> ntstatus \<times> nat) option" where
  "HandleUSBPcapControlIOCTL hub pool req allowCapture d =
     (if io_code req = IOCTL_USBPCAP_GET_HUB_SYMLINK then
        (case hub of
           None \<Rightarrow> Some (d, io_buffer req, STATUS_NOT_FOUND, 0)
         | Some interfaces \<Rightarrow>
             let len = (length interfaces + 1) * 2 in
             if unat (io_output_length req) < len
             then Some (d, io_buffer req, STATUS_BUFFER_TOO_SMALL, 0)
             else do {
               buf \<leftarrow> mem_copy (io_buffer req) 0 (symlink_bytes interfaces) 0 len;
               Some (d, buf, STATUS_SUCCESS, len) })
      else if \<not> allowCapture then Some (d, io_buffer req, STATUS_ACCESS_DENIED, 0)
      else if io_code req = IOCTL_USBPCAP_SETUP_BUFFER then
        (if io_input_length req \<noteq> 4 then Some (d, io_buffer req, STATUS_INVALID_PARAMETER, 0)
         else do {
           size \<leftarrow> read32 (io_buffer req) 0;
           (d', st) \<leftarrow> USBPcapSetUpBuffer pool d size;
           Some (d', io_buffer req, st, 0) })
      else if io_code req = IOCTL_USBPCAP_START_FILTERING then
        (if io_input_length req \<noteq> 17 then Some (d, io_buffer req, STATUS_INVALID_PARAMETER, 0)
         else do {
           f \<leftarrow> read_filter (io_buffer req);
           Some (d\<lparr>addr_filter := f\<rparr>, io_buffer req, STATUS_SUCCESS, 0) })
      else if io_code req = IOCTL_USBPCAP_STOP_FILTERING then
        Some (d\<lparr>addr_filter := filter_zero\<rparr>, io_buffer req, STATUS_SUCCESS, 0)
      else if io_code req = IOCTL_USBPCAP_SET_SNAPLEN_SIZE then
        (if io_input_length req \<noteq> 4 then Some (d, io_buffer req, STATUS_INVALID_PARAMETER, 0)
         else do {
           size \<leftarrow> read32 (io_buffer req) 0;
           let (d', st) = USBPcapSetSnaplenSize d size;
           Some (d', io_buffer req, st, 0) })
      else Some (d, io_buffer req, STATUS_INVALID_DEVICE_REQUEST, 0))"

definition DkDevCtl ::
  "ntstatus \<Rightarrow> u16 list option \<Rightarrow> bytes option \<Rightarrow> ioctl_request \<Rightarrow> u64 \<Rightarrow> device_object \<Rightarrow>
   irp_fate dispatch" where
  "DkDevCtl lower hub pool req fileObject d0 = with_remove_lock d0 (\<lambda>d.
     if is_filter_device d then Some (d, lower, IrpForwarded)
     else if deviceMagic d = USBPCAP_MAGIC_CONTROL then do {
       (rd, _, ntStat, info) \<leftarrow> HandleUSBPcapControlIOCTL hub pool req
         (pCaptureObject d = fileObject) (root (channel_of d));
       Some (d\<lparr>channel_of := (channel_of d)\<lparr>root := rd\<rparr>\<rparr>, ntStat, IrpCompleted ntStat info) }
     else Some (d, STATUS_SUCCESS, IrpNotCompleted))"

section \<open>Internal device control\<close>

definition IOCTL_INTERNAL_USB_SUBMIT_URB :: u32
  where "IOCTL_INTERNAL_USB_SUBMIT_URB = CTL_CODE 0x22 0 3 0"

text \<open>A submitted URB; None is a NULL pointer.\<close>

type_synonym submitted_urb = "(urb_header \<times> urb_body) option"

definition analyze_submitted ::
  "urb_env \<Rightarrow> u64 \<Rightarrow> submitted_urb \<Rightarrow> bool \<Rightarrow> device_object \<Rightarrow> device_object option" where
  "analyze_submitted env pIrp urb post d =
     (case urb of
        None \<Rightarrow> Some d
      | Some (header, body) \<Rightarrow> do {
          (dd, ch) \<leftarrow> USBPcapAnalyzeURB env pIrp header body post (pDeviceData d) (channel_of d);
          Some (d\<lparr>pDeviceData := dd, channel_of := ch\<rparr>) })"

definition DkTgtInDevCtl ::
  "urb_env \<Rightarrow> ntstatus \<Rightarrow> u32 \<Rightarrow> u64 \<Rightarrow> submitted_urb \<Rightarrow> device_object \<Rightarrow> irp_fate dispatch" where
  "DkTgtInDevCtl env lower code pIrp urb d =
     (case IoAcquireRemoveLock (removeLock d) of (l, st) \<Rightarrow>
        if \<not> NT_SUCCESS st then Some (d, st, IrpCompleted st 0)
        else if code = IOCTL_INTERNAL_USB_SUBMIT_URB then do {
          d' \<leftarrow> analyze_submitted env pIrp urb False (d\<lparr>removeLock := l\<rparr>);
          Some (d', lower, IrpForwardedWithCompletion) }
        else do {
          l' \<leftarrow> IoReleaseRemoveLock l;
          Some (d\<lparr>removeLock := l'\<rparr>, lower, IrpForwarded) })"

definition DkTgtInDevCtlCompletion ::
  "urb_env \<Rightarrow> u64 \<Rightarrow> submitted_urb \<Rightarrow> device_object \<Rightarrow> device_object option" where
  "DkTgtInDevCtlCompletion env pIrp urb d = do {
     d' \<leftarrow> analyze_submitted env pIrp urb True d;
     l \<leftarrow> IoReleaseRemoveLock (removeLock d');
     Some (d'\<lparr>removeLock := l\<rparr>) }"

definition DkInDevCtl ::
  "urb_env \<Rightarrow> ntstatus \<Rightarrow> u32 \<Rightarrow> u64 \<Rightarrow> submitted_urb \<Rightarrow> device_object \<Rightarrow> irp_fate dispatch" where
  "DkInDevCtl env lower code pIrp urb d0 = with_remove_lock d0 (\<lambda>d.
     if deviceMagic d = USBPCAP_MAGIC_DEVICE then DkTgtInDevCtl env lower code pIrp urb d
     else if \<not> hasNextDevObj d
     then Some (d, STATUS_INVALID_DEVICE_REQUEST, IrpCompleted STATUS_INVALID_DEVICE_REQUEST 0)
     else Some (d, lower, IrpForwarded))"

section \<open>Everything else, and power\<close>

definition DkDefault :: "ntstatus \<Rightarrow> device_object \<Rightarrow> irp_fate dispatch" where
  "DkDefault lower d0 = with_remove_lock d0 (\<lambda>d.
     if \<not> hasNextDevObj d
     then Some (d, STATUS_INVALID_DEVICE_REQUEST, IrpCompleted STATUS_INVALID_DEVICE_REQUEST 0)
     else Some (d, lower, IrpForwarded))"

text \<open>The early return of the power routine skips the release.\<close>

definition DkPower :: "ntstatus \<Rightarrow> device_object \<Rightarrow> irp_fate dispatch" where
  "DkPower lower d =
     (case IoAcquireRemoveLock (removeLock d) of (l, st) \<Rightarrow>
        if \<not> NT_SUCCESS st then Some (d, st, IrpCompleted st 0)
        else if \<not> hasNextDevObj d
        then Some (d\<lparr>removeLock := l\<rparr>, STATUS_INVALID_DEVICE_REQUEST,
          IrpCompleted STATUS_INVALID_DEVICE_REQUEST 0)
        else do {
          l' \<leftarrow> IoReleaseRemoveLock l;
          Some (d\<lparr>removeLock := l'\<rparr>, lower, IrpForwarded) })"


section \<open>Remove lock balance\<close>

lemma with_remove_lock_cases:
  assumes "with_remove_lock d body = Some (d', st, fate)"
  shows "(lock_removed (removeLock d) \<and> d' = d \<and> fate = IrpCompleted st 0) \<or>
    (\<exists>d1 l. body (d\<lparr>removeLock := acquired (removeLock d)\<rparr>) = Some (d1, st, fate) \<and>
       IoReleaseRemoveLock (removeLock d1) = Some l \<and> d' = d1\<lparr>removeLock := l\<rparr>)"
  using assms
  by (cases "lock_removed (removeLock d)")
     (auto simp: with_remove_lock_def Acquire_eq bind_eq_Some_conv)

lemma with_remove_lock_balanced:
  assumes run: "with_remove_lock d body = Some (d', st, fate)"
    and keeps: "\<And>d0 d1 st fate. body d0 = Some (d1, st, fate) \<Longrightarrow> removeLock d1 = removeLock d0"
  shows "removeLock d' = removeLock d"
  using with_remove_lock_cases [OF run]
proof
  assume "\<exists>d1 l. body (d\<lparr>removeLock := acquired (removeLock d)\<rparr>) = Some (d1, st, fate) \<and>
    IoReleaseRemoveLock (removeLock d1) = Some l \<and> d' = d1\<lparr>removeLock := l\<rparr>"
  then obtain d1 l where b: "body (d\<lparr>removeLock := acquired (removeLock d)\<rparr>) = Some (d1, st, fate)"
    "IoReleaseRemoveLock (removeLock d1) = Some l" "d' = d1\<lparr>removeLock := l\<rparr>" by blast
  from keeps [OF b(1)] b(2,3) show ?thesis by simp
qed simp

lemma control_create_close_lock:
  "control_create_close major f d = (d', st) \<Longrightarrow> removeLock d' = removeLock d"
  by (auto simp: control_create_close_def cleanup_capture_def Let_def
      split: create_close.splits if_splits prod.splits)

lemma control_read_write_lock:
  "control_read_write major f d = Some (d', st, n) \<Longrightarrow> removeLock d' = removeLock d"
  by (auto simp: control_read_write_def bind_eq_Some_conv split: read_write.splits if_splits)

lemma analyze_submitted_lock:
  "analyze_submitted env irp urb post d = Some d' \<Longrightarrow> removeLock d' = removeLock d"
  by (auto simp: analyze_submitted_def bind_eq_Some_conv split: option.splits)

lemma DkTgtInDevCtl_lock:
  assumes "DkTgtInDevCtl env lower code irp urb d = Some (d', st, fate)"
  shows "removeLock d' =
    (if fate = IrpForwardedWithCompletion then acquired (removeLock d) else removeLock d)"
  using assms
  by (cases "lock_removed (removeLock d)")
     (auto simp: DkTgtInDevCtl_def Acquire_eq bind_eq_Some_conv dest!: analyze_submitted_lock
       split: if_splits)

lemma DkInDevCtl_lock:
  assumes run: "DkInDevCtl env lower code irp urb d = Some (d', st, fate)"
  shows "removeLock d' =
    (if fate = IrpForwardedWithCompletion then acquired (removeLock d) else removeLock d)"
  using with_remove_lock_cases [OF run [unfolded DkInDevCtl_def]]
  by (auto dest!: DkTgtInDevCtl_lock split: if_splits)

lemma completion_lock:
  "DkTgtInDevCtlCompletion env irp urb d = Some d' \<Longrightarrow> removeLock d = acquired l \<Longrightarrow>
   removeLock d' = l"
  by (auto simp: DkTgtInDevCtlCompletion_def bind_eq_Some_conv dest!: analyze_submitted_lock)



definition example_filter_device :: device_object where
  "example_filter_device = \<lparr>deviceMagic = USBPCAP_MAGIC_DEVICE, hasNextDevObj = True,
     removeLock = \<lparr>lock_count = 0, lock_removed = False\<rparr>, pCaptureObject = 0,
     pDeviceData = example_device, channel_of = example_channel\<rparr>"


text \<open>
  The power routine does not: for a device without a lower device it completes the request
  and returns with the remove lock still held, so the count grows with every such request and
  a later removal, which waits for the count to drop, never ends. The default routine returns
  the lock in the same situation.
\<close>

theorem power_leaks_remove_lock:
  "(\<exists>d'. DkPower lower (d\<lparr>hasNextDevObj := False, removeLock := \<lparr>lock_count = n, lock_removed = False\<rparr>\<rparr>) =
      Some (d', STATUS_INVALID_DEVICE_REQUEST, IrpCompleted STATUS_INVALID_DEVICE_REQUEST 0) \<and>
      lock_count (removeLock d') = n + 1) \<and>
   (\<exists>d'. DkDefault lower (d\<lparr>hasNextDevObj := False, removeLock := \<lparr>lock_count = n, lock_removed = False\<rparr>\<rparr>) =
      Some (d', STATUS_INVALID_DEVICE_REQUEST, IrpCompleted STATUS_INVALID_DEVICE_REQUEST 0) \<and>
      lock_count (removeLock d') = n)"
  by (simp add: DkPower_def DkDefault_def with_remove_lock_def Acquire_eq acquired_def
      IoReleaseRemoveLock_def)

section \<open>The filter on its way through the control request\<close>

lemma read_filter_bytes:
  assumes "length (addresses f) = 4"
  shows "read_filter (filter_bytes f) = Some f"
proof -
  obtain a b c d where "addresses f = [a, b, c, d]"
    using assms by (auto simp: numeral_eq_Suc length_Suc_conv)
  then show ?thesis by (simp add: read_filter_def filter_bytes_def field_simps_le)
qed

lemma length_concat_le32: "length (concat (map le32 xs)) = 4 * length xs"
  by (induction xs) auto

lemma length_filter_bytes: "length (addresses f) = 4 \<Longrightarrow> length (filter_bytes f) = 17"
  by (simp add: filter_bytes_def length_concat_le32)

lemma ioctl_codes:
  "IOCTL_USBPCAP_SETUP_BUFFER = 0x226000" "IOCTL_USBPCAP_START_FILTERING = 0x22E004"
  "IOCTL_USBPCAP_STOP_FILTERING = 0x22E008" "IOCTL_USBPCAP_GET_HUB_SYMLINK = 0x22200C"
  "IOCTL_USBPCAP_SET_SNAPLEN_SIZE = 0x226010"
  by (simp_all add: IOCTL_USBPCAP_SETUP_BUFFER_def IOCTL_USBPCAP_START_FILTERING_def
      IOCTL_USBPCAP_STOP_FILTERING_def IOCTL_USBPCAP_GET_HUB_SYMLINK_def
      IOCTL_USBPCAP_SET_SNAPLEN_SIZE_def CTL_CODE_def)

end
