(* ===== verification/Session.thy ===== *)
theory Session
  imports Dispatch
begin

text \<open>
  Sessions on a control device: any interleaving of opening, using and closing handles with
  packets being captured, as a step relation over the dispatch routines. A handle goes from
  open to cleaned up (its last user is gone) to closed, the order in which the I/O manager
  sends the requests; the two sets record where each handle is. Every step is one dispatch
  routine or one packet, so a sequence of steps is an order of the critical sections.
\<close>

section \<open>States and steps\<close>

record session =
  dev :: device_object
  opened :: "u64 set"
  cleaned :: "u64 set"

definition initial_device :: "u16 \<Rightarrow> device_data \<Rightarrow> device_object" where
  "initial_device bus dd = \<lparr>deviceMagic = USBPCAP_MAGIC_CONTROL, hasNextDevObj = False,
     removeLock = \<lparr>lock_count = 0, lock_removed = False\<rparr>, pCaptureObject = 0, pDeviceData = dd,
     channel_of = \<lparr>root = root_data_init bus, pending = [], completed = []\<rparr>\<rparr>"

definition initial_session :: "u16 \<Rightarrow> device_data \<Rightarrow> session" where
  "initial_session bus dd = \<lparr>dev = initial_device bus dd, opened = {}, cleaned = {}\<rparr>"

text \<open>
  What the I/O manager guarantees of a control request: the system buffer is as long as the
  input, and a pool block is as long as was asked for.
\<close>

definition ioctl_ok :: "bytes option \<Rightarrow> ioctl_request \<Rightarrow> bool" where
  "ioctl_ok pool req \<longleftrightarrow>
     unat (io_input_length req) \<le> length (io_buffer req) \<and>
     unat (io_output_length req) \<le> length (io_buffer req) \<and>
     (case pool of None \<Rightarrow> True
      | Some b \<Rightarrow> (case read32 (io_buffer req) 0 of None \<Rightarrow> True | Some n \<Rightarrow> length b = unat n))"

definition read_ok :: "read_irp \<Rightarrow> u64 \<Rightarrow> channel \<Rightarrow> bool" where
  "read_ok irp f ch \<longleftrightarrow> irp_ok irp \<and> irp_file irp = f \<and> irp_ptr irp \<notin> irp_ptr ` set (pending ch)"

inductive session_step :: "session \<Rightarrow> session \<Rightarrow> bool" where
  step_open:
    "f \<noteq> 0 \<Longrightarrow> f \<notin> opened s \<union> cleaned s \<Longrightarrow>
     DkCreateClose lower (IrpCreate access) f (dev s) = Some (d', st, fate) \<Longrightarrow>
     session_step s (s\<lparr>dev := d',
       opened := if NT_SUCCESS st then insert f (opened s) else opened s\<rparr>)"
| step_cleanup:
    "f \<in> opened s \<Longrightarrow> DkCreateClose lower IrpCleanup f (dev s) = Some (d', st, fate) \<Longrightarrow>
     session_step s (s\<lparr>dev := d', opened := opened s - {f}, cleaned := insert f (cleaned s)\<rparr>)"
| step_close:
    "f \<in> cleaned s \<Longrightarrow> DkCreateClose lower IrpClose f (dev s) = Some (d', st, fate) \<Longrightarrow>
     session_step s (s\<lparr>dev := d', cleaned := cleaned s - {f}\<rparr>)"
| step_read:
    "f \<in> opened s \<Longrightarrow> read_ok irp f (channel_of (dev s)) \<Longrightarrow>
     DkReadWrite lower (IrpRead irp) f (dev s) = Some (d', st, fate) \<Longrightarrow>
     session_step s (s\<lparr>dev := d'\<rparr>)"
| step_write:
    "f \<in> opened s \<Longrightarrow> DkReadWrite lower IrpWrite f (dev s) = Some (d', st, fate) \<Longrightarrow>
     session_step s (s\<lparr>dev := d'\<rparr>)"
| step_ioctl:
    "f \<in> opened s \<Longrightarrow> ioctl_ok pool req \<Longrightarrow>
     DkDevCtl lower hub pool req f (dev s) = Some (d', st, fate) \<Longrightarrow>
     session_step s (s\<lparr>dev := d'\<rparr>)"
| step_packet:
    "header_ok m \<Longrightarrow> payload_ok ps \<Longrightarrow>
     USBPcapBufferWriteTimestampedPayload (channel_of (dev s)) ts m ps = Some (ch', st) \<Longrightarrow>
     session_step s (s\<lparr>dev := (dev s)\<lparr>channel_of := ch'\<rparr>\<rparr>)"

definition reachable :: "u16 \<Rightarrow> device_data \<Rightarrow> session \<Rightarrow> bool" where
  "reachable bus dd s \<longleftrightarrow> session_step\<^sup>*\<^sup>* (initial_session bus dd) s"

section \<open>The invariant\<close>

definition quiet :: "channel \<Rightarrow> bool" where
  "quiet ch \<longleftrightarrow> addr_filter (root ch) = filter_zero \<and> buffer (root ch) = None \<and> pending ch = []"

definition device_inv :: "device_object \<Rightarrow> bool" where
  "device_inv d \<longleftrightarrow> deviceMagic d = USBPCAP_MAGIC_CONTROL \<and>
     removeLock d = \<lparr>lock_count = 0, lock_removed = False\<rparr> \<and> channel_wf (channel_of d) \<and>
     (\<forall>irp\<in>set (pending (channel_of d)). irp_file irp = pCaptureObject d)"

definition session_inv :: "session \<Rightarrow> bool" where
  "session_inv s \<longleftrightarrow> device_inv (dev s) \<and> 0 \<notin> opened s \<and> 0 \<notin> cleaned s \<and>
     opened s \<inter> cleaned s = {} \<and>
     pCaptureObject (dev s) \<in> insert 0 (opened s \<union> cleaned s) \<and>
     (pCaptureObject (dev s) \<notin> opened s \<longrightarrow> quiet (channel_of (dev s)))"


section \<open>The dispatch routines on a control device\<close>

lemma with_remove_lock_run:
  assumes free: "\<not> lock_removed (removeLock d)"
    and body: "body (d\<lparr>removeLock := acquired (removeLock d)\<rparr>) =
      map_option (\<lambda>(d', st, fate). (d'\<lparr>removeLock := acquired (removeLock d)\<rparr>, st, fate)) r"
    and lock: "\<And>d' st fate. r = Some (d', st, fate) \<Longrightarrow> removeLock d' = removeLock d"
  shows "with_remove_lock d body = r"
proof (cases r)
  case None
  then show ?thesis using free body by (simp add: with_remove_lock_def Acquire_eq)
next
  case (Some x)
  obtain d' st fate where x: "x = (d', st, fate)" by (rule prod_cases3)
  then have "d'\<lparr>removeLock := removeLock d\<rparr> = d'" using lock Some by (cases d') auto
  then show ?thesis using free body Some x by (simp add: with_remove_lock_def Acquire_eq)
qed

lemma create_close_commutes:
  "control_create_close major f (d\<lparr>removeLock := l\<rparr>) =
   (case control_create_close major f d of (d', st) \<Rightarrow> (d'\<lparr>removeLock := l\<rparr>, st))"
  by (cases d) (auto simp: control_create_close_def cleanup_capture_def Let_def
      split: create_close.split prod.split)

lemma read_write_commutes:
  "control_read_write major f (d\<lparr>removeLock := l\<rparr>) =
   map_option (\<lambda>(d', st, n). (d'\<lparr>removeLock := l\<rparr>, st, n)) (control_read_write major f d)"
  by (cases d; cases major)
     (auto simp: control_read_write_def split: Option.bind_split prod.split)

lemma device_invD:
  "device_inv d \<Longrightarrow> deviceMagic d = USBPCAP_MAGIC_CONTROL"
  "device_inv d \<Longrightarrow> \<not> is_filter_device d"
  "device_inv d \<Longrightarrow> \<not> lock_removed (removeLock d)"
  "device_inv d \<Longrightarrow> channel_wf (channel_of d)"
  by (auto simp: device_inv_def is_filter_device_def)

lemma is_filter_lock [simp]: "is_filter_device (d\<lparr>removeLock := l\<rparr>) = is_filter_device d"
  by (simp add: is_filter_device_def)

lemma CreateClose_control:
  assumes "device_inv d"
  shows "DkCreateClose lower major f d =
    (case control_create_close major f d of (d', st) \<Rightarrow> Some (d', st, IrpCompleted st 0))"
  unfolding DkCreateClose_def
  by (rule with_remove_lock_run)
     (use device_invD [OF assms] in \<open>auto simp: create_close_commutes
        dest: control_create_close_lock split: prod.splits\<close>)

lemma ReadWrite_control:
  assumes "device_inv d"
  shows "DkReadWrite lower major f d =
    map_option (\<lambda>(d', st, n). (d', st, if st \<noteq> STATUS_PENDING then IrpCompleted st (unat n) else IrpPended))
      (control_read_write major f d)"
  unfolding DkReadWrite_def
  by (rule with_remove_lock_run)
     (use device_invD [OF assms] in \<open>auto simp: read_write_commutes
        dest: control_read_write_lock split: prod.splits Option.bind_split\<close>)

lemma DevCtl_control:
  assumes "device_inv d"
  shows "DkDevCtl lower hub pool req f d =
    map_option (\<lambda>(rd, buf, st, info).
        (d\<lparr>channel_of := (channel_of d)\<lparr>root := rd\<rparr>\<rparr>, st, IrpCompleted st info))
      (HandleUSBPcapControlIOCTL hub pool req (pCaptureObject d = f) (root (channel_of d)))"
proof (cases "HandleUSBPcapControlIOCTL hub pool req (pCaptureObject d = f) (root (channel_of d))")
  case None
  then show ?thesis
    unfolding DkDevCtl_def
    by (intro with_remove_lock_run) (use device_invD [OF assms] in simp_all)
next
  case (Some x)
  obtain rd buf st info where "x = (rd, buf, st, info)" by (rule prod_cases4)
  then show ?thesis
    using Some unfolding DkDevCtl_def
    by (intro with_remove_lock_run) (use device_invD [OF assms] in auto)
qed

section \<open>What the operations keep\<close>

lemma rb_wf_filter [simp]: "rb_wf (d\<lparr>addr_filter := f\<rparr>) = rb_wf d"
  by (simp add: rb_wf_def split: option.split)

lemma rb_wf_snaplen [simp]: "rb_wf (d\<lparr>snaplen := n\<rparr>) = rb_wf d"
  by (simp add: rb_wf_def split: option.split)

lemma RemoveBuffer_clear:
  "rb_wf d \<Longrightarrow> rb_wf (USBPcapBufferRemoveBuffer d) \<and> buffer (USBPcapBufferRemoveBuffer d) = None \<and>
   addr_filter (USBPcapBufferRemoveBuffer d) = addr_filter d"
  by (auto simp: rb_wf_def USBPcapBufferRemoveBuffer_def)

lemma SetUpBuffer_wf:
  assumes "rb_wf d" "case pool of None \<Rightarrow> True | Some b \<Rightarrow> length b = unat n"
    and "USBPcapSetUpBuffer pool d n = Some (d', st)"
  shows "rb_wf d'"
proof (cases pool)
  case None
  then show ?thesis using assms by (auto simp: USBPcapSetUpBuffer_def split: if_splits)
next
  case (Some b)
  then show ?thesis using assms SetUpBuffer_cases [of d b n] by auto
qed

lemma IOCTL_wf:
  assumes "rb_wf d" "ioctl_ok pool req"
    and "HandleUSBPcapControlIOCTL hub pool req allow d = Some (d', buf, st, info)"
  shows "rb_wf d' \<and> (\<not> allow \<longrightarrow> d' = d)"
proof -
  have "rb_wf d''" if "read32 (io_buffer req) 0 = Some n" "USBPcapSetUpBuffer pool d n = Some (d'', st)"
    for n d'' st
    by (rule SetUpBuffer_wf [OF assms(1) _ that(2)])
       (use assms(2) that(1) in \<open>auto simp: ioctl_ok_def split: option.splits\<close>)
  then show ?thesis
    using assms(1,3)
    by (auto simp: HandleUSBPcapControlIOCTL_def USBPcapSetSnaplenSize_def Let_def bind_eq_Some_conv
        split: if_splits option.splits)
qed

lemma HandleRead_result:
  "USBPcapBufferHandleReadIrp ch irp = Some (ch', irp', st, n) \<Longrightarrow>
   irp_file irp' = irp_file irp \<and> set (pending ch') \<subseteq> insert irp' (set (pending ch)) \<and>
   (pending ch' = pending ch \<or> st = STATUS_PENDING) \<and> root_config (root ch') = root_config (root ch)"
  by (auto simp: USBPcapBufferHandleReadIrp_def bind_eq_Some_conv Let_def DkCsqInsertIrp_def
      dest: BufferRead_config split: if_splits option.splits)

lemma cleanup_quiet:
  assumes "device_inv d"
  shows "device_inv (cleanup_capture d (pCaptureObject d))"
    and "quiet (channel_of (cleanup_capture d (pCaptureObject d)))"
proof -
  let ?f = "pCaptureObject d"
  have all: "\<forall>irp\<in>set (pending (channel_of d)). file_matches ?f irp"
    using assms by (auto simp: device_inv_def file_matches_def)
  have "DkCsqCleanUpQueue (pending (channel_of d)) ?f =
      ([], map DkCsqCompleteCanceledIrp (pending (channel_of d)))"
    using CleanUpQueue_eq [of "pending (channel_of d)" ?f] assms all
    by (simp add: device_inv_def channel_wf_def filter_empty_conv filter_id_conv)
  then have eq: "cleanup_capture d ?f = d\<lparr>channel_of := (channel_of d)\<lparr>
      root := USBPcapBufferRemoveBuffer ((root (channel_of d))\<lparr>addr_filter := filter_zero\<rparr>),
      pending := [], completed := completed (channel_of d) @
        map DkCsqCompleteCanceledIrp (pending (channel_of d))\<rparr>\<rparr>"
    by (simp add: cleanup_capture_def Let_def)
  have "rb_wf ((root (channel_of d))\<lparr>addr_filter := filter_zero\<rparr>)"
    using assms by (simp add: device_inv_def channel_wf_def)
  from RemoveBuffer_clear [OF this]
  show "device_inv (cleanup_capture d ?f)" "quiet (channel_of (cleanup_capture d ?f))"
    unfolding eq using assms by (simp_all add: device_inv_def channel_wf_def quiet_def)
qed

lemma read_inv:
  assumes inv: "device_inv d" and ok: "read_ok irp f (channel_of d)"
    and run: "control_read_write (IrpRead irp) f d = Some (d', st, n)"
  shows "device_inv d' \<and> pCaptureObject d' = pCaptureObject d \<and> (f \<noteq> pCaptureObject d \<longrightarrow> d' = d)"
proof (cases "f = pCaptureObject d")
  case False
  then show ?thesis using inv run by (simp add: control_read_write_def)
next
  case True
  have irp: "irp_ok irp" "irp_ptr irp \<notin> irp_ptr ` set (pending (channel_of d))" "irp_file irp = f"
    using ok by (simp_all add: read_ok_def)
  obtain ch irp' st' n' where h: "USBPcapBufferHandleReadIrp (channel_of d) irp = Some (ch, irp', st', n')"
    "channel_wf ch"
    using HandleReadIrp_step [OF device_invD(4) [OF inv] irp(1,2)] by blast
  have "set (pending ch) \<subseteq> insert irp' (set (pending (channel_of d)))" "irp_file irp' = f"
    using HandleRead_result [OF h(1)] irp(3) by simp_all
  then show ?thesis
    using inv run True h
    by (auto simp: control_read_write_def device_inv_def channel_wf_def split: if_splits)
qed

lemma packet_inv:
  assumes inv: "device_inv d" and ok: "header_ok m" "payload_ok ps"
    and run: "USBPcapBufferWriteTimestampedPayload (channel_of d) ts m ps = Some (ch', st)"
  shows "device_inv (d\<lparr>channel_of := ch'\<rparr>) \<and> (quiet (channel_of d) \<longrightarrow> quiet ch')"
proof -
  have l: "logs (channel_of d) ts m ps ch'"
    using WritePayload_logs [OF device_invD(4) [OF inv] ok, of ts] run by auto
  then have "set (pending ch') \<subseteq> set (pending (channel_of d))"
    by (auto simp: logs_def split: if_splits dest: list.set_sel(2) [rotated])
      (metis list.set_sel(2) tl_Nil)
  then show ?thesis
    using inv l by (auto simp: device_inv_def logs_def quiet_def root_config_def)
qed


section \<open>The invariant is kept\<close>

lemma initial_inv: "session_inv (initial_session bus dd)"
  by (simp add: session_inv_def initial_session_def initial_device_def device_inv_def
      channel_wf_def rb_wf_init quiet_def root_data_init_def rb_wf_def)

lemma open_inv:
  assumes inv: "session_inv s" and f: "f \<noteq> 0" "f \<notin> opened s \<union> cleaned s"
    and run: "control_create_close (IrpCreate access) f (dev s) = (d', st)"
  shows "session_inv (s\<lparr>dev := d', opened := if NT_SUCCESS st then insert f (opened s) else opened s\<rparr>)"
proof (cases "access AND 0x20001 \<noteq> 0 \<and> pCaptureObject (dev s) = 0")
  case True
  then have "pCaptureObject (dev s) \<notin> opened s" using inv by (simp add: session_inv_def)
  then have "quiet (channel_of (dev s))" using inv by (simp add: session_inv_def)
  then show ?thesis
    using True inv f run
    by (auto simp: control_create_close_def session_inv_def device_inv_def quiet_def)
next
  case False
  then have "d' = dev s" using run by (auto simp: control_create_close_def split: if_splits)
  then show ?thesis using inv f by (auto simp: session_inv_def)
qed

lemma cleanup_inv:
  assumes inv: "session_inv s" and f: "f \<in> opened s"
    and run: "control_create_close IrpCleanup f (dev s) = (d', st)"
  shows "session_inv (s\<lparr>dev := d', opened := opened s - {f}, cleaned := insert f (cleaned s)\<rparr>)"
proof (cases "pCaptureObject (dev s) = f")
  case True
  then have "d' = cleanup_capture (dev s) f" using run by (simp add: control_create_close_def)
  moreover have "pCaptureObject (cleanup_capture (dev s) f) = f"
    using True by (simp add: cleanup_capture_def Let_def split: prod.split)
  ultimately show ?thesis
    using inv f True cleanup_quiet [of "dev s"] by (auto simp: session_inv_def)
next
  case False
  then have "d' = dev s" using run by (simp add: control_create_close_def)
  then show ?thesis using inv f False by (auto simp: session_inv_def)
qed

lemma close_inv:
  assumes inv: "session_inv s" and f: "f \<in> cleaned s"
    and run: "control_create_close IrpClose f (dev s) = (d', st)"
  shows "session_inv (s\<lparr>dev := d', cleaned := cleaned s - {f}\<rparr>)"
proof (cases "pCaptureObject (dev s) = f")
  case True
  then have "d' = (dev s)\<lparr>pCaptureObject := 0\<rparr>" using run by (simp add: control_create_close_def)
  moreover have "f \<notin> opened s" using inv f by (auto simp: session_inv_def)
  ultimately show ?thesis
    using inv True by (auto simp: session_inv_def device_inv_def quiet_def)
next
  case False
  then have "d' = dev s" using run by (simp add: control_create_close_def)
  then show ?thesis using inv f False by (auto simp: session_inv_def)
qed

lemma ioctl_inv:
  assumes inv: "device_inv d" and ok: "ioctl_ok pool req"
    and run: "HandleUSBPcapControlIOCTL hub pool req allow (root (channel_of d)) = Some (rd, buf, st, info)"
  shows "device_inv (d\<lparr>channel_of := (channel_of d)\<lparr>root := rd\<rparr>\<rparr>) \<and>
    (\<not> allow \<longrightarrow> rd = root (channel_of d))"
proof -
  have "rb_wf (root (channel_of d))" using inv by (simp add: device_inv_def channel_wf_def)
  from IOCTL_wf [OF this ok run] show ?thesis
    using inv by (cases d; cases "channel_of d") (auto simp: device_inv_def channel_wf_def)
qed

lemma session_inv_dev:
  "session_inv s \<Longrightarrow> device_inv d' \<Longrightarrow> pCaptureObject d' = pCaptureObject (dev s) \<Longrightarrow>
   (pCaptureObject (dev s) \<notin> opened s \<Longrightarrow> quiet (channel_of d')) \<Longrightarrow> session_inv (s\<lparr>dev := d'\<rparr>)"
  by (auto simp: session_inv_def)

lemma step_inv: "session_step s s' \<Longrightarrow> session_inv s \<Longrightarrow> session_inv s'"
proof (induction rule: session_step.induct)
  case (step_open f s lower access d' st fate)
  then have inv: "device_inv (dev s)" by (simp add: session_inv_def)
  show ?case
    using step_open by (intro open_inv) (auto simp: CreateClose_control [OF inv] split: prod.splits)
next
  case (step_cleanup f s lower d' st fate)
  then have inv: "device_inv (dev s)" by (simp add: session_inv_def)
  show ?case
    using step_cleanup
    by (intro cleanup_inv) (auto simp: CreateClose_control [OF inv] split: prod.splits)
next
  case (step_close f s lower d' st fate)
  then have inv: "device_inv (dev s)" by (simp add: session_inv_def)
  show ?case
    using step_close
    by (intro close_inv) (auto simp: CreateClose_control [OF inv] split: prod.splits)
next
  case (step_read f s irp lower d' st fate)
  then have inv: "device_inv (dev s)" by (simp add: session_inv_def)
  obtain n where "control_read_write (IrpRead irp) f (dev s) = Some (d', st, n)"
    using step_read(3) by (auto simp: ReadWrite_control [OF inv])
  note r = read_inv [OF inv step_read(2) this]
  show ?case
    using r step_read(1,4) by (intro session_inv_dev) (auto simp: session_inv_def)
next
  case (step_write f s lower d' st fate)
  then have inv: "device_inv (dev s)" by (simp add: session_inv_def)
  have "d' = dev s"
    using step_write(2) by (auto simp: ReadWrite_control [OF inv] control_read_write_def)
  then show ?case using step_write(3) by simp
next
  case (step_ioctl f s pool req lower hub d' st fate)
  then have inv: "device_inv (dev s)" by (simp add: session_inv_def)
  obtain rd buf info where h: "HandleUSBPcapControlIOCTL hub pool req (pCaptureObject (dev s) = f)
      (root (channel_of (dev s))) = Some (rd, buf, st, info)"
    and d': "d' = (dev s)\<lparr>channel_of := (channel_of (dev s))\<lparr>root := rd\<rparr>\<rparr>"
    using step_ioctl(3) by (auto simp: DevCtl_control [OF inv])
  note i = ioctl_inv [OF inv step_ioctl(2) h]
  show ?case
    using i step_ioctl(1,4)
    by (intro session_inv_dev) (auto simp: session_inv_def d' quiet_def)
next
  case (step_packet m ps s ts ch' st)
  then have inv: "device_inv (dev s)" by (simp add: session_inv_def)
  show ?case
    using packet_inv [OF inv step_packet(1-3)] step_packet(4)
    by (intro session_inv_dev) (auto simp: session_inv_def)
qed

lemma reachable_inv: "reachable bus dd s \<Longrightarrow> session_inv s"
  unfolding reachable_def
  by (induction rule: rtranclp_induct) (auto intro: initial_inv step_inv)

text \<open>
  C4. In every state a capture session can reach, by any interleaving of handles being opened,
  used, cleaned up and closed with packets being captured: the buffer is well formed, the
  remove lock is free, every pended read belongs to the capture handle, and unless an open
  handle is the capture handle nothing is captured: the filter selects no device, there is no
  buffer, and no read is pended.
\<close>

theorem session_invariant:
  assumes "reachable bus dd s"
  shows "channel_wf (channel_of (dev s)) \<and> lock_count (removeLock (dev s)) = 0 \<and>
    (\<forall>irp\<in>set (pending (channel_of (dev s))). irp_file irp = pCaptureObject (dev s)) \<and>
    (pCaptureObject (dev s) \<notin> opened s \<longrightarrow>
       addr_filter (root (channel_of (dev s))) = filter_zero \<and>
       buffer (root (channel_of (dev s))) = None \<and> pending (channel_of (dev s)) = [])"
  using reachable_inv [OF assms] by (auto simp: session_inv_def device_inv_def quiet_def)

definition opened_session :: session where
  "opened_session = (initial_session 1 example_device)\<lparr>
     dev := (initial_device 1 example_device)\<lparr>pCaptureObject := 7\<rparr>, opened := {7}\<rparr>"

lemma opened_reachable: "reachable 1 example_device opened_session"
proof -
  have inv: "device_inv (initial_device 1 example_device)"
    using initial_inv [of 1 example_device] by (simp add: session_inv_def initial_session_def)
  have "DkCreateClose 0 (IrpCreate 1) 7 (dev (initial_session 1 example_device)) =
      Some ((initial_device 1 example_device)\<lparr>pCaptureObject := 7\<rparr>, STATUS_SUCCESS,
        IrpCompleted STATUS_SUCCESS 0)"
    unfolding initial_session_def session.select_convs
    by (subst CreateClose_control [OF inv]) (simp add: control_create_close_def initial_device_def)
  then have "session_step (initial_session 1 example_device) opened_session"
    using step_open [of 7 "initial_session 1 example_device" 0 1]
    by (simp add: opened_session_def initial_session_def)
  then show ?thesis by (simp add: reachable_def)
qed

theorem session_invariant_witness:
  "reachable 1 example_device opened_session \<and> pCaptureObject (dev opened_session) = 7 \<and>
   channel_wf (channel_of (dev opened_session))"
  using session_invariant [OF opened_reachable] opened_reachable by (simp add: opened_session_def)




section \<open>No request faults\<close>

lemma length_symlink [simp]: "length (symlink_bytes s) = 2 * length s + 2"
  by (induction s) (auto simp: symlink_bytes_def)

lemma SetUpBuffer_total:
  assumes "rb_wf d" "case pool of None \<Rightarrow> True | Some b \<Rightarrow> length b = unat n"
  shows "\<exists>d' st. USBPcapSetUpBuffer pool d n = Some (d', st)"
proof (cases pool)
  case None
  then show ?thesis by (simp add: USBPcapSetUpBuffer_def)
next
  case (Some b)
  then show ?thesis using assms SetUpBuffer_cases [of d b n] by auto
qed

lemma IOCTL_total:
  assumes rb: "rb_wf d" and ok: "ioctl_ok pool req"
  shows "HandleUSBPcapControlIOCTL hub pool req allow d \<noteq> None"
proof -
  have four: "\<exists>n. read32 (io_buffer req) 0 = Some n \<and>
      (case pool of None \<Rightarrow> True | Some b \<Rightarrow> length b = unat n)" if "io_input_length req = 4"
    using ok that read32_total [of 0 "io_buffer req"] by (auto simp: ioctl_ok_def split: option.splits)
  note reads = read32_total
  have filter_read: "read_filter (io_buffer req) \<noteq> None" if "io_input_length req = 17"
    using ok that reads [of 0 "io_buffer req"] reads [of 4 "io_buffer req"]
      reads [of 8 "io_buffer req"] reads [of 12 "io_buffer req"]
    by (auto simp: ioctl_ok_def read_filter_def read8_def)
  have symlink: "\<exists>buf. mem_copy (io_buffer req) 0 (symlink_bytes s) 0 ((length s + 1) * 2) = Some buf"
    if "\<not> unat (io_output_length req) < (length s + 1) * 2" for s
    using ok that by (simp add: ioctl_ok_def mem_copy_Some)
  have buffer_case: "(if io_input_length req \<noteq> 4 then Some (d, io_buffer req, STATUS_INVALID_PARAMETER, 0)
      else do { size \<leftarrow> read32 (io_buffer req) 0; (d', st) \<leftarrow> USBPcapSetUpBuffer pool d size;
        Some (d', io_buffer req, st, 0 :: nat) }) \<noteq> None"
    using four SetUpBuffer_total [OF rb] by fastforce
  have symlink_case: "(case hub of None \<Rightarrow> Some (d, io_buffer req, STATUS_NOT_FOUND, 0)
      | Some interfaces \<Rightarrow> let len = (length interfaces + 1) * 2 in
          if unat (io_output_length req) < len
          then Some (d, io_buffer req, STATUS_BUFFER_TOO_SMALL, 0)
          else do { buf \<leftarrow> mem_copy (io_buffer req) 0 (symlink_bytes interfaces) 0 len;
                    Some (d, buf, STATUS_SUCCESS, len) }) \<noteq> None"
    using symlink by (cases hub) (fastforce simp: Let_def)+
  have snap: "(if io_input_length req \<noteq> 4 then Some (d, io_buffer req, STATUS_INVALID_PARAMETER, 0)
      else do { size \<leftarrow> read32 (io_buffer req) 0; let (d', st) = USBPcapSetSnaplenSize d size;
        Some (d', io_buffer req, st, 0 :: nat) }) \<noteq> None"
    using four by (auto split: prod.split)
  have filter_case: "(if io_input_length req \<noteq> 17
      then Some (d, io_buffer req, STATUS_INVALID_PARAMETER, 0)
      else do { f \<leftarrow> read_filter (io_buffer req);
        Some (d\<lparr>addr_filter := f\<rparr>, io_buffer req, STATUS_SUCCESS, 0 :: nat) }) \<noteq> None"
    using filter_read by auto
  show ?thesis
    unfolding HandleUSBPcapControlIOCTL_def
    using filter_case buffer_case symlink_case snap by simp
qed

text \<open>
  C14. No request of a capture session faults: in every reachable state, opening, cleaning up
  and closing a handle, a fresh read, a write, every control request with the buffers the I/O
  manager provides, and every packet return without an access outside a buffer.
\<close>

theorem session_never_faults:
  assumes "reachable bus dd s"
  shows "DkCreateClose lower major f (dev s) \<noteq> None \<and>
    (read_ok irp f (channel_of (dev s)) \<longrightarrow> DkReadWrite lower (IrpRead irp) f (dev s) \<noteq> None) \<and>
    DkReadWrite lower IrpWrite f (dev s) \<noteq> None \<and>
    (ioctl_ok pool req \<longrightarrow> DkDevCtl lower hub pool req f (dev s) \<noteq> None) \<and>
    (header_ok m \<and> payload_ok ps \<longrightarrow>
       USBPcapBufferWriteTimestampedPayload (channel_of (dev s)) ts m ps \<noteq> None)"
proof -
  have inv: "device_inv (dev s)" using reachable_inv [OF assms] by (simp add: session_inv_def)
  have rb: "rb_wf (root (channel_of (dev s)))" using inv by (simp add: device_inv_def channel_wf_def)
  have read: "control_read_write (IrpRead irp) f (dev s) \<noteq> None" if "read_ok irp f (channel_of (dev s))"
    using HandleReadIrp_step [OF device_invD(4) [OF inv], of irp] that
    by (auto simp: control_read_write_def read_ok_def)
  show ?thesis
    using read IOCTL_total [OF rb] WritePayload_logs [OF device_invD(4) [OF inv], of m ps ts]
    by (auto simp: CreateClose_control [OF inv] ReadWrite_control [OF inv] DevCtl_control [OF inv]
        control_read_write_def split: prod.split)
qed

theorem session_never_faults_witness:
  "DkReadWrite 0 (IrpRead (example_irp 1 7)) 7 (dev opened_session) \<noteq> None \<and>
   DkDevCtl 0 None (Some (replicate 4096 0))
     \<lparr>io_code = IOCTL_USBPCAP_SETUP_BUFFER, io_input_length = 4, io_output_length = 0,
      io_buffer = [0, 16, 0, 0]\<rparr> 7 (dev opened_session) \<noteq> None"
proof -
  have "read_ok (example_irp 1 7) 7 (channel_of (dev opened_session))"
    by (simp add: read_ok_def irp_ok_def example_irp_def opened_session_def initial_device_def)
  moreover have "ioctl_ok (Some (replicate 4096 0)) \<lparr>io_code = IOCTL_USBPCAP_SETUP_BUFFER,
      io_input_length = 4, io_output_length = 0, io_buffer = [0, 16, 0, 0]\<rparr>"
    by (simp add: ioctl_ok_def read32_def mem_read_def)
  ultimately show ?thesis
    using session_never_faults [OF opened_reachable] by blast
qed

end
