(* ===== verification/CaptureSetup.thy ===== *)
theory CaptureSetup
  imports Session CaptureThread
begin

text \<open>
  How the command line tool opens a capture (create_filter_read_handle of thread.c): it opens
  the control device and sends the snapshot length, the buffer size and the address filter,
  and closes the device again when one of the requests fails.

  The calls are parameters of the tool's function. The locale states what the tool relies on;
  the driver's dispatch routines interpret it, so the property at the end is about the tool
  and the driver together.
\<close>

section \<open>The tool\<close>

text \<open>CreateFile and DeviceIoControl return whether they succeed; CloseHandle always does.\<close>

definition create_filter_read_handle ::
  "('d \<Rightarrow> ('d \<times> bool) option) \<Rightarrow> (u32 \<Rightarrow> bytes \<Rightarrow> 'd \<Rightarrow> ('d \<times> bool) option) \<Rightarrow> ('d \<Rightarrow> 'd option) \<Rightarrow>
   thread_data \<Rightarrow> 'd \<Rightarrow> (thread_data \<times> 'd \<times> bool) option" where
  "create_filter_read_handle opn ioctl cls data0 dev0 = do {
     let data = (if capture_new data0
       then data0\<lparr>td_filter := fst (cmd_USBPcapSetDeviceFiltered (td_filter data0) 0)\<rparr> else data0);
     let finish = (\<lambda>d. do { d' \<leftarrow> cls d; Some (data, d', False) });
     (dev1, ok1) \<leftarrow> opn dev0;
     if \<not> ok1 then Some (data, dev1, False)
     else do {
       (dev2, ok2) \<leftarrow> ioctl IOCTL_USBPCAP_SET_SNAPLEN_SIZE (le32 (td_snaplen data)) dev1;
       if \<not> ok2 then finish dev2
       else do {
         (dev3, ok3) \<leftarrow> ioctl IOCTL_USBPCAP_SETUP_BUFFER (le32 (bufferlen data)) dev2;
         if \<not> ok3 then finish dev3
         else do {
           (dev4, ok4) \<leftarrow> ioctl IOCTL_USBPCAP_START_FILTERING (filter_bytes (td_filter data)) dev3;
           if \<not> ok4 then finish dev4 else Some (data, dev4, True) } } } }"

section \<open>What the tool relies on\<close>

text \<open>
  The device is idle, or held by this handle; held without a buffer it is fresh. The
  observations are the snapshot length, the buffer size, the unread bytes and the filter.
\<close>

locale capture_device =
  fixes opn :: "'d \<Rightarrow> ('d \<times> bool) option"
    and ioctl :: "u32 \<Rightarrow> bytes \<Rightarrow> 'd \<Rightarrow> ('d \<times> bool) option"
    and cls :: "'d \<Rightarrow> 'd option"
    and idle held fresh :: "'d \<Rightarrow> bool"
    and grants :: "u32 \<Rightarrow> bool"
    and snap size :: "'d \<Rightarrow> u32"
    and unread :: "'d \<Rightarrow> bytes"
    and flt :: "'d \<Rightarrow> address_filter"
  assumes open_idle: "idle d \<Longrightarrow> \<exists>d'. opn d = Some (d', True) \<and> fresh d'"
    and fresh_held: "fresh d \<Longrightarrow> held d"
    and set_snaplen: "fresh d \<Longrightarrow>
      \<exists>d'. ioctl IOCTL_USBPCAP_SET_SNAPLEN_SIZE (le32 n) d = Some (d', n \<noteq> 0) \<and> fresh d' \<and>
        (n \<noteq> 0 \<longrightarrow> snap d' = n)"
    and setup_buffer: "fresh d \<Longrightarrow>
      \<exists>d'. ioctl IOCTL_USBPCAP_SETUP_BUFFER (le32 n) d =
          Some (d', 4096 \<le> n \<and> n \<le> 134217728 \<and> grants n) \<and> held d' \<and> snap d' = snap d \<and>
        (4096 \<le> n \<and> n \<le> 134217728 \<and> grants n \<longrightarrow>
           size d' = n \<and> unread d' = pcap_hdr_bytes (global_header (snap d)))"
    and start_filtering: "held d \<Longrightarrow> filter_wf f \<Longrightarrow>
      \<exists>d'. ioctl IOCTL_USBPCAP_START_FILTERING (filter_bytes f) d = Some (d', True) \<and> held d' \<and>
        flt d' = f \<and> snap d' = snap d \<and> size d' = size d \<and> unread d' = unread d"
    and close_held: "held d \<Longrightarrow> \<exists>d'. cls d = Some d' \<and> idle d'"
begin

text \<open>The conditions under which all three requests are granted.\<close>

definition granted :: "thread_data \<Rightarrow> bool" where
  "granted data \<longleftrightarrow> td_snaplen data \<noteq> 0 \<and> 4096 \<le> bufferlen data \<and> bufferlen data \<le> 134217728 \<and>
     grants (bufferlen data)"

lemma setup_outcome:
  assumes idle: "idle d" and wf: "filter_wf (td_filter data)"
  shows "\<exists>data' d'. create_filter_read_handle opn ioctl cls data d = Some (data', d', granted data) \<and>
    data' = (if capture_new data
      then data\<lparr>td_filter := fst (cmd_USBPcapSetDeviceFiltered (td_filter data) 0)\<rparr> else data) \<and>
    (if granted data
     then held d' \<and> snap d' = td_snaplen data \<and> size d' = bufferlen data \<and>
       unread d' = pcap_hdr_bytes (global_header (td_snaplen data)) \<and> flt d' = td_filter data'
     else idle d')"
proof -
  define data' where "data' = (if capture_new data
    then data\<lparr>td_filter := fst (cmd_USBPcapSetDeviceFiltered (td_filter data) 0)\<rparr> else data)"
  have d': "td_snaplen data' = td_snaplen data" "bufferlen data' = bufferlen data"
    "filter_wf (td_filter data')"
    using wf by (simp_all add: data'_def cmd.set_wf)
  obtain d1 where d1: "opn d = Some (d1, True)" "fresh d1" using open_idle [OF idle] by blast
  obtain d2 where d2: "ioctl IOCTL_USBPCAP_SET_SNAPLEN_SIZE (le32 (td_snaplen data)) d1 =
      Some (d2, td_snaplen data \<noteq> 0)" "fresh d2" "td_snaplen data \<noteq> 0 \<longrightarrow> snap d2 = td_snaplen data"
    using set_snaplen [OF d1(2)] by blast
  let ?n = "bufferlen data"
  let ?ok = "4096 \<le> ?n \<and> ?n \<le> 134217728 \<and> grants ?n"
  obtain d3 where d3: "ioctl IOCTL_USBPCAP_SETUP_BUFFER (le32 ?n) d2 = Some (d3, ?ok)" "held d3"
    "snap d3 = snap d2" "?ok \<longrightarrow> size d3 = ?n \<and> unread d3 = pcap_hdr_bytes (global_header (snap d2))"
    using setup_buffer [OF d2(2)] by blast
  obtain d4 where d4: "ioctl IOCTL_USBPCAP_START_FILTERING (filter_bytes (td_filter data')) d3 =
      Some (d4, True)" "held d4" "flt d4 = td_filter data'" "snap d4 = snap d3" "size d4 = size d3"
    "unread d4 = unread d3"
    using start_filtering [OF d3(2) d'(3)] by blast
  obtain e2 where e2: "cls d2 = Some e2" "idle e2" using close_held fresh_held d2(2) by blast
  obtain e3 where e3: "cls d3 = Some e3" "idle e3" using close_held d3(2) by blast
  note run = create_filter_read_handle_def [of opn ioctl cls data d, folded data'_def]
  consider "td_snaplen data = 0" | "td_snaplen data \<noteq> 0" "\<not> ?ok" | "td_snaplen data \<noteq> 0" "?ok"
    by blast
  then show ?thesis
  proof cases
    case 1
    with d1 d2 d' e2 run show ?thesis unfolding data'_def [symmetric] by (simp add: granted_def)
  next
    case 2
    with d1 d2 d3(1) d' e3 run show ?thesis
      unfolding data'_def [symmetric] by (auto simp add: granted_def)
  next
    case 3
    with d1 d2 d3 d4 d' run show ?thesis unfolding data'_def [symmetric] by (simp add: granted_def)
  qed
qed

end

section \<open>The driver\<close>

text \<open>
  The system calls on the driver's control device, for a handle with file object f: opening
  for reading and writing asks for the generic read and write rights; closing the last handle
  sends the clean-up and the close request. A request succeeds when its status is a success.
  The pool gives a block of any contents for the sizes it grants.
\<close>

definition FILE_GENERIC_READ_WRITE :: u32 where "FILE_GENERIC_READ_WRITE = 0x12019F"

definition drv_open :: "u64 \<Rightarrow> device_object \<Rightarrow> (device_object \<times> bool) option" where
  "drv_open f d = do {
     (d', st, _) \<leftarrow> DkCreateClose STATUS_SUCCESS (IrpCreate FILE_GENERIC_READ_WRITE) f d;
     Some (d', NT_SUCCESS st) }"

definition pool_block :: "(u32 \<Rightarrow> (nat \<Rightarrow> u8) option) \<Rightarrow> bytes \<Rightarrow> bytes option" where
  "pool_block alloc req =
     (case read32 req 0 of None \<Rightarrow> None
      | Some n \<Rightarrow> map_option (\<lambda>g. map g [0..<unat n]) (alloc n))"

definition drv_ioctl ::
  "(u32 \<Rightarrow> (nat \<Rightarrow> u8) option) \<Rightarrow> u64 \<Rightarrow> u32 \<Rightarrow> bytes \<Rightarrow> device_object \<Rightarrow>
   (device_object \<times> bool) option" where
  "drv_ioctl alloc f code req d = do {
     (d', st, _) \<leftarrow> DkDevCtl STATUS_SUCCESS None (pool_block alloc req)
       \<lparr>io_code = code, io_input_length = of_nat (length req), io_output_length = 0,
        io_buffer = req\<rparr> f d;
     Some (d', NT_SUCCESS st) }"

definition drv_close :: "u64 \<Rightarrow> device_object \<Rightarrow> device_object option" where
  "drv_close f d = do {
     (d1, _, _) \<leftarrow> DkCreateClose STATUS_SUCCESS IrpCleanup f d;
     (d2, _, _) \<leftarrow> DkCreateClose STATUS_SUCCESS IrpClose f d1;
     Some d2 }"

definition drv_idle :: "u64 \<Rightarrow> device_object \<Rightarrow> bool" where
  "drv_idle f d \<longleftrightarrow> f \<noteq> 0 \<and> device_inv d \<and> pCaptureObject d = 0 \<and> quiet (channel_of d)"

definition drv_held :: "u64 \<Rightarrow> device_object \<Rightarrow> bool" where
  "drv_held f d \<longleftrightarrow> f \<noteq> 0 \<and> device_inv d \<and> pCaptureObject d = f"

definition drv_fresh :: "u64 \<Rightarrow> device_object \<Rightarrow> bool" where
  "drv_fresh f d \<longleftrightarrow> drv_held f d \<and> buffer (root (channel_of d)) = None"

lemma pool_block_length: "pool_block alloc (le32 n) = Some b \<Longrightarrow> length b = unat n"
  by (auto simp: pool_block_def field_simps_le)

lemma held_root:
  "drv_held f d \<Longrightarrow> rb_wf rd \<Longrightarrow> drv_held f (d\<lparr>channel_of := (channel_of d)\<lparr>root := rd\<rparr>\<rparr>)"
  by (auto simp: drv_held_def device_inv_def channel_wf_def)

lemma drv_ioctl_held:
  assumes "drv_held f d"
  shows "drv_ioctl alloc f code req d =
    map_option (\<lambda>(rd, buf, st, info).
        (d\<lparr>channel_of := (channel_of d)\<lparr>root := rd\<rparr>\<rparr>, NT_SUCCESS st))
      (HandleUSBPcapControlIOCTL None (pool_block alloc req)
        \<lparr>io_code = code, io_input_length = of_nat (length req), io_output_length = 0,
         io_buffer = req\<rparr> True (root (channel_of d)))"
  using assms by (auto simp: drv_held_def drv_ioctl_def DevCtl_control bind_eq_Some_conv
      split: Option.bind_split)

lemma drv_open_idle: "drv_idle f d \<Longrightarrow> \<exists>d'. drv_open f d = Some (d', True) \<and> drv_fresh f d'"
  by (auto simp: drv_idle_def drv_open_def CreateClose_control control_create_close_def
      FILE_GENERIC_READ_WRITE_def drv_fresh_def drv_held_def device_inv_def quiet_def)

lemma drv_close_held: "drv_held f d \<Longrightarrow> \<exists>d'. drv_close f d = Some d' \<and> drv_idle f d'"
proof -
  assume h: "drv_held f d"
  then have inv: "device_inv d" and f: "f \<noteq> 0" "pCaptureObject d = f" by (simp_all add: drv_held_def)
  note c = cleanup_quiet [OF inv, unfolded f(2)]
  have "pCaptureObject (cleanup_capture d f) = f"
    using f by (simp add: cleanup_capture_def Let_def split: prod.split)
  then have "drv_close f d = Some ((cleanup_capture d f)\<lparr>pCaptureObject := 0\<rparr>)"
    using f by (simp add: drv_close_def CreateClose_control [OF inv] CreateClose_control [OF c(1)]
        control_create_close_def)
  then show ?thesis
    using c f(1) by (auto simp: drv_idle_def device_inv_def quiet_def)
qed

lemma drv_set_snaplen:
  assumes "drv_fresh f d"
  shows "\<exists>d'. drv_ioctl alloc f IOCTL_USBPCAP_SET_SNAPLEN_SIZE (le32 n) d = Some (d', n \<noteq> 0) \<and>
    drv_fresh f d' \<and> (n \<noteq> 0 \<longrightarrow> snaplen (root (channel_of d')) = n)"
proof -
  have h: "drv_held f d" "buffer (root (channel_of d)) = None" using assms by (simp_all add: drv_fresh_def)
  then have rb: "rb_wf (root (channel_of d))" by (simp add: drv_held_def device_inv_def channel_wf_def)
  show ?thesis
    using h rb held_root [OF h(1), of "(root (channel_of d))\<lparr>snaplen := n\<rparr>"]
    by (auto simp: drv_ioctl_held [OF h(1)] HandleUSBPcapControlIOCTL_def ioctl_codes
        USBPcapSetSnaplenSize_def field_simps_le drv_fresh_def)
qed

lemma drv_setup_buffer:
  assumes "drv_fresh f d"
  shows "\<exists>d'. drv_ioctl alloc f IOCTL_USBPCAP_SETUP_BUFFER (le32 n) d =
      Some (d', 4096 \<le> n \<and> n \<le> 134217728 \<and> alloc n \<noteq> None) \<and> drv_held f d' \<and>
    snaplen (root (channel_of d')) = snaplen (root (channel_of d)) \<and>
    (4096 \<le> n \<and> n \<le> 134217728 \<and> alloc n \<noteq> None \<longrightarrow>
       bufferSize (root (channel_of d')) = n \<and>
       contents (root (channel_of d')) =
         pcap_hdr_bytes (global_header (snaplen (root (channel_of d)))))"
proof -
  let ?d = "root (channel_of d)"
  have h: "drv_held f d" "buffer ?d = None" using assms by (simp_all add: drv_fresh_def)
  then have rb: "rb_wf ?d" by (simp add: drv_held_def device_inv_def channel_wf_def)
  let ?ok = "4096 \<le> n \<and> n \<le> 134217728 \<and> alloc n \<noteq> None"
  obtain rd st where rd: "USBPcapSetUpBuffer (pool_block alloc (le32 n)) ?d n = Some (rd, st)"
    "rb_wf rd" "NT_SUCCESS st = ?ok" "snaplen rd = snaplen ?d"
    "?ok \<Longrightarrow> bufferSize rd = n \<and> contents rd = pcap_hdr_bytes (global_header (snaplen ?d))"
  proof (cases "alloc n")
    case None
    then have "pool_block alloc (le32 n) = None" by (simp add: pool_block_def field_simps_le)
    then show thesis
      using None rb by (intro that [of ?d "if n < 4096 \<or> 134217728 < n then STATUS_INVALID_PARAMETER
            else STATUS_INSUFFICIENT_RESOURCES"]) (auto simp: USBPcapSetUpBuffer_def)
  next
    case (Some g)
    define blk where "blk = map g [0..<unat n]"
    have pool: "pool_block alloc (le32 n) = Some blk"
      using Some by (simp add: pool_block_def field_simps_le blk_def)
    obtain rd st where run: "USBPcapSetUpBuffer (Some blk) ?d n = Some (rd, st)" "rb_wf rd"
      "(st, contents rd, capacity rd) =
        (if n < 4096 \<or> 134217728 < n then (STATUS_INVALID_PARAMETER, contents ?d, capacity ?d)
         else (STATUS_SUCCESS, pcap_hdr_bytes (global_header (snaplen ?d)), unat n - 1))"
      using SetUpBuffer_cases [OF rb, of blk n] h(2) by (auto simp: blk_def)
    have "root_config rd = root_config (?d\<lparr>buffer := Some blk, bufferSize := n\<rparr>)"
      if "4096 \<le> n" "n \<le> 134217728"
    proof -
      let ?d0 = "?d\<lparr>buffer := Some blk, bufferSize := n, readOffset := 0, writeOffset := 0\<rparr>"
      have "\<not> (n < 4096 \<or> 134217728 < n)" using that by (auto simp: not_less)
      then have "USBPcapWriteGlobalHeader ?d0 = Some rd"
        using run(1) h(2) by (auto simp: USBPcapSetUpBuffer_def bind_eq_Some_conv)
      then show ?thesis
        by (auto simp: USBPcapWriteGlobalHeader_def USBPcapBufferWrite_def
            USBPcapBufferWriteUnsafe_def root_config_def bind_eq_Some_conv Let_def split: if_splits)
    qed
    moreover have "rd = ?d" if "n < 4096 \<or> 134217728 < n"
      using run(1) that by (auto simp: USBPcapSetUpBuffer_def)
    ultimately show thesis
      using run Some pool
      by (intro that [of rd st]) (auto simp: root_config_def not_less not_le split: if_splits)
  qed
  then show ?thesis
    using held_root [OF h(1) rd(2)]
    by (auto simp: drv_ioctl_held [OF h(1)] HandleUSBPcapControlIOCTL_def ioctl_codes field_simps_le)
qed

lemma contents_filter [simp]: "contents (d\<lparr>addr_filter := flt\<rparr>) = contents d"
  by (simp add: contents_def cong: option.case_cong)

lemma drv_start_filtering:
  assumes "drv_held f d" "filter_wf flt"
  shows "\<exists>d'. drv_ioctl alloc f IOCTL_USBPCAP_START_FILTERING (filter_bytes flt) d = Some (d', True) \<and>
    drv_held f d' \<and> addr_filter (root (channel_of d')) = flt \<and>
    snaplen (root (channel_of d')) = snaplen (root (channel_of d)) \<and>
    bufferSize (root (channel_of d')) = bufferSize (root (channel_of d)) \<and>
    contents (root (channel_of d')) = contents (root (channel_of d))"
proof -
  have rb: "rb_wf (root (channel_of d))"
    using assms(1) by (simp add: drv_held_def device_inv_def channel_wf_def)
  have flt: "length (addresses flt) = 4" using assms(2) by (simp add: filter_wf_def)
  show ?thesis
    using held_root [OF assms(1), of "(root (channel_of d))\<lparr>addr_filter := flt\<rparr>"] rb
    by (auto simp: drv_ioctl_held [OF assms(1)] HandleUSBPcapControlIOCTL_def ioctl_codes
        length_filter_bytes [OF flt] read_filter_bytes [OF flt])
qed

interpretation drv_dev: capture_device "drv_open f" "drv_ioctl alloc f" "drv_close f"
  "drv_idle f" "drv_held f" "drv_fresh f" "\<lambda>n. alloc n \<noteq> None"
  "\<lambda>d. snaplen (root (channel_of d))" "\<lambda>d. bufferSize (root (channel_of d))"
  "\<lambda>d. contents (root (channel_of d))" "\<lambda>d. addr_filter (root (channel_of d))"
  for f alloc
  by (unfold_locales; (rule drv_open_idle drv_set_snaplen drv_setup_buffer drv_start_filtering
      drv_close_held; assumption | simp add: drv_fresh_def))

section \<open>Tool and driver together\<close>

lemma tool_setup_outcome:
  assumes "device_inv d" and "pCaptureObject d = 0" and "quiet (channel_of d)" and "f \<noteq> 0"
    and "filter_wf (td_filter data)"
  shows "\<exists>data' d' ok. create_filter_read_handle (drv_open f) (drv_ioctl alloc f) (drv_close f) data d =
      Some (data', d', ok) \<and> device_inv d' \<and>
    (ok \<longleftrightarrow> td_snaplen data \<noteq> 0 \<and> 4096 \<le> bufferlen data \<and> bufferlen data \<le> 134217728 \<and>
       alloc (bufferlen data) \<noteq> None) \<and>
    (let rd = root (channel_of d') in
     if ok
     then pCaptureObject d' = f \<and> snaplen rd = td_snaplen data \<and> bufferSize rd = bufferlen data \<and>
       contents rd = pcap_hdr_bytes (global_header (td_snaplen data)) \<and>
       (\<forall>a. USBPcapIsDeviceFiltered (addr_filter rd) a \<longleftrightarrow>
          cmd_USBPcapIsDeviceFiltered (td_filter data) a \<or> capture_new data \<and> a = 0)
     else pCaptureObject d' = 0 \<and> quiet (channel_of d'))"
proof -
  have idle: "drv_idle f d" using assms(1-4) by (simp add: drv_idle_def)
  obtain data' d' where run: "create_filter_read_handle (drv_open f) (drv_ioctl alloc f) (drv_close f)
      data d = Some (data', d', drv_dev.granted alloc data)"
    "data' = (if capture_new data
      then data\<lparr>td_filter := fst (cmd_USBPcapSetDeviceFiltered (td_filter data) 0)\<rparr> else data)"
    "if drv_dev.granted alloc data
     then drv_held f d' \<and> snaplen (root (channel_of d')) = td_snaplen data \<and>
       bufferSize (root (channel_of d')) = bufferlen data \<and>
       contents (root (channel_of d')) = pcap_hdr_bytes (global_header (td_snaplen data)) \<and>
       addr_filter (root (channel_of d')) = td_filter data'
     else drv_idle f d'"
    using drv_dev.setup_outcome [OF idle assms(5), of alloc] by blast
  have flt: "USBPcapIsDeviceFiltered (td_filter data') a \<longleftrightarrow>
      cmd_USBPcapIsDeviceFiltered (td_filter data) a \<or> capture_new data \<and> a = 0" for a
    unfolding run(2) cmd_filter_ops_eq using drv.is_filtered_set [OF assms(5), of 0 a] by auto
  show ?thesis
  proof (intro exI conjI)
    show "create_filter_read_handle (drv_open f) (drv_ioctl alloc f) (drv_close f) data d =
        Some (data', d', drv_dev.granted alloc data)" by (rule run(1))
    show "device_inv d'" using run(3) by (auto simp: drv_held_def drv_idle_def split: if_splits)
    show "drv_dev.granted alloc data \<longleftrightarrow> td_snaplen data \<noteq> 0 \<and> 4096 \<le> bufferlen data \<and>
        bufferlen data \<le> 134217728 \<and> alloc (bufferlen data) \<noteq> None"
      by (rule drv_dev.granted_def)
  qed (use run(3) flt in \<open>simp add: drv_held_def drv_idle_def Let_def split: if_splits\<close>)
qed

text \<open>
  C26. The tool's set-up implements its options on the driver. On an idle control device it
  opens the capture exactly when the snapshot length is not zero, the buffer size is between
  4 KiB and 128 MiB and the memory is there. Then the driver's snapshot length and buffer size
  are the tool's, its unread bytes are the file header for that snapshot length, and it
  captures exactly the addresses that the tool selects (with address 0 when new devices are
  captured). In every other case the tool leaves the device idle, with no handle and no buffer.
\<close>

theorem tool_configures_driver:
  assumes "device_inv d" and "pCaptureObject d = 0" and "quiet (channel_of d)" and "f \<noteq> 0"
    and "filter_wf (td_filter data)"
  shows "\<exists>data' d' ok. create_filter_read_handle (drv_open f) (drv_ioctl alloc f) (drv_close f) data d =
      Some (data', d', ok) \<and> device_inv d' \<and>
    (ok \<longleftrightarrow> td_snaplen data \<noteq> 0 \<and> 4096 \<le> bufferlen data \<and> bufferlen data \<le> 134217728 \<and>
       alloc (bufferlen data) \<noteq> None) \<and>
    (let rd = root (channel_of d') in
     if ok
     then pCaptureObject d' = f \<and> snaplen rd = td_snaplen data \<and> bufferSize rd = bufferlen data \<and>
       contents rd = pcap_hdr_bytes (global_header (td_snaplen data)) \<and>
       (\<forall>a. USBPcapIsDeviceFiltered (addr_filter rd) a \<longleftrightarrow>
          cmd_USBPcapIsDeviceFiltered (td_filter data) a \<or> capture_new data \<and> a = 0)
     else pCaptureObject d' = 0 \<and> quiet (channel_of d'))"
  using assms by (rule tool_setup_outcome)

definition setup_thread :: "u32 \<Rightarrow> thread_data" where
  "setup_thread n =
     \<lparr>filename = ''out.pcap'', td_filter = fst (cmd_USBPcapSetDeviceFiltered filter_zero 5),
      capture_new = True, td_snaplen = 65535, bufferlen = n, process = True,
      write_handle = OUTPUT_FILE,
      descriptors = \<lparr>inj_descriptors = [], descriptors_len = 0, inj_buf = replicate 24 0,
        buf_written = 0\<rparr>,
      store_mode = 0, triggered = False, output_created = False, dropped_packets = 0,
      last_flush_tick = 0,
      app_filter = \<lparr>enabled = False, has_vendor_id = False, has_product_id = False,
        has_endpoint = False, has_transfer_type = False, flt_vendor_id = 0, flt_product_id = 0,
        flt_endpoint = 0, flt_transfer_type = 0\<rparr>,
      metadata = []\<rparr>"

lemma setup_thread_filter: "filter_wf (td_filter (setup_thread n))"
  using cmd.set_wf [of filter_zero 5] by (simp add: setup_thread_def filter_wf_def filter_zero_def)

lemma initial_device_quiet:
  "device_inv (initial_device bus dd)" "pCaptureObject (initial_device bus dd) = 0"
  "quiet (channel_of (initial_device bus dd))"
  using initial_inv [of bus dd]
  by (auto simp: session_inv_def initial_session_def initial_device_def)

theorem tool_configures_driver_witness:
  "(\<exists>data d. create_filter_read_handle (drv_open 7) (drv_ioctl (\<lambda>n. Some (\<lambda>i. 0)) 7) (drv_close 7)
      (setup_thread 4096) (initial_device 1 example_device) = Some (data, d, True) \<and>
    snaplen (root (channel_of d)) = 65535 \<and> bufferSize (root (channel_of d)) = 4096) \<and>
   (\<exists>data d. create_filter_read_handle (drv_open 7) (drv_ioctl (\<lambda>n. Some (\<lambda>i. 0)) 7) (drv_close 7)
      (setup_thread 100) (initial_device 1 example_device) = Some (data, d, False) \<and>
    pCaptureObject d = 0)"
proof -
  have f: "(7 :: u64) \<noteq> 0" by simp
  note t = tool_configures_driver [OF initial_device_quiet [of 1 example_device] f,
    where alloc = "\<lambda>n. Some (\<lambda>i. 0)"]
  show ?thesis
    using t [OF setup_thread_filter [of 4096]] t [OF setup_thread_filter [of 100]]
    by (auto simp: setup_thread_def Let_def)
qed

end
