(* ===== verification/EndToEnd.thy ===== *)
theory EndToEnd
  imports CaptureSetup CaptureRun "HOL-Library.Sublist"
begin

text \<open>
  The driver and the capture thread together: packets are logged on one side and reads are
  served on the other, in any order, and what the served reads return is what the capture
  thread of the tool processes. The theorem says which records reach the output.
\<close>

section \<open>The link\<close>

datatype link_op = LogPacket int header_mem "payload_entry list" | ServeRead read_irp

fun link_run :: "u64 \<Rightarrow> device_object \<Rightarrow> link_op list \<Rightarrow> device_object option" where
  "link_run f d [] = Some d"
| "link_run f d (LogPacket ts m ps # ops) = do {
     (ch, st) \<leftarrow> USBPcapBufferWriteTimestampedPayload (channel_of d) ts m ps;
     link_run f (d\<lparr>channel_of := ch\<rparr>) ops }"
| "link_run f d (ServeRead irp # ops) = do {
     (d', st, fate) \<leftarrow> DkReadWrite STATUS_SUCCESS (IrpRead irp) f d;
     link_run f d' ops }"

text \<open>The records of the packets, stored or not, and the requests.\<close>

fun link_records :: "root_data \<Rightarrow> link_op list \<Rightarrow> bytes list" where
  "link_records rd [] = []"
| "link_records rd (LogPacket ts m ps # ops) = record_bytes rd ts m ps # link_records rd ops"
| "link_records rd (ServeRead irp # ops) = link_records rd ops"

fun link_requests :: "link_op list \<Rightarrow> read_irp list" where
  "link_requests [] = []"
| "link_requests (LogPacket ts m ps # ops) = link_requests ops"
| "link_requests (ServeRead irp # ops) = irp # link_requests ops"

text \<open>
  The packets are well formed with complete payloads, and the requests are those of one handle
  with buffers of their length, each used once.
\<close>

definition link_ok :: "u64 \<Rightarrow> root_data \<Rightarrow> link_op list \<Rightarrow> bool" where
  "link_ok f rd ops \<longleftrightarrow>
     (\<forall>ts m ps. LogPacket ts m ps \<in> set ops \<longrightarrow> header_ok m \<and> payload_ok ps \<and> payload_complete rd m ps) \<and>
     (\<forall>irp\<in>set (link_requests ops). irp_ok irp \<and> irp_file irp = f) \<and>
     distinct (map irp_ptr (link_requests ops))"

section \<open>Framed records\<close>

definition framed :: "bytes \<Rightarrow> bool" where
  "framed r \<longleftrightarrow> (\<exists>h p. r = pcaprec_hdr_bytes h @ p \<and> length p = unat (incl_len h))"

lemma split_framed:
  "\<forall>r\<in>set rs. framed r \<Longrightarrow> split_records (concat rs) = (rs, [])"
proof (induction rs)
  case (Cons r rs)
  then obtain h p where "r = pcaprec_hdr_bytes h @ p" "length p = unat (incl_len h)"
    by (auto simp: framed_def)
  with Cons split_records_record [of p h "concat rs"] show ?case by simp
qed simp

lemma record_framed:
  assumes "payload_complete d m ps"
  shows "framed (record_bytes d ts m ps)"
  unfolding framed_def
proof (intro exI conjI)
  let ?h = "USBPcapInitializePcapHeader d ts (packet_length m)"
  show "record_bytes d ts m ps =
      pcaprec_hdr_bytes ?h @ take (stored_length d m) (header_mem_bytes m @ payload_stream ps)"
    by (simp add: record_bytes_def)
  show "length (take (stored_length d m) (header_mem_bytes m @ payload_stream ps)) =
      unat (incl_len ?h)"
    using assms by (simp add: unat_incl_len payload_complete_def)
qed

lemma record_snaplen:
  assumes "snaplen d = snaplen d'"
  shows "record_bytes d ts m ps = record_bytes d' ts m ps"
    "payload_complete d m ps = payload_complete d' m ps" "stored_length d m = stored_length d' m"
  using assms by (simp_all add: record_bytes_def payload_complete_def stored_length_def
      USBPcapInitializePcapHeader_def)

lemma records_below_framed:
  assumes "\<forall>r\<in>set rs. framed r \<and> length r \<le> M"
  shows "records_below M (concat rs)"
  using assms by (auto simp: records_below_def split_framed read_pcaprec_hdr_def read32_def mem_read_def)

section \<open>What the thread writes of a longer stream\<close>

lemma begun_mono: "begun t rs \<Longrightarrow> begun t (rs @ rs')"
  by (auto simp: begun_def kept_def)

lemma thread_output_mono:
  assumes "prefix S S'"
  shows "prefix (thread_output t S) (thread_output t S')"
proof (cases "length S < 24")
  case True
  then show ?thesis by (simp add: thread_output_def expected_output_def passed_output_def)
next
  case False
  obtain c where c: "S' = S @ c" using assms by (auto simp: prefix_def)
  have split: "fst (split_records (drop 24 S @ c)) =
      fst (split_records (drop 24 S)) @ fst (split_records (snd (split_records (drop 24 S)) @ c))"
    using False split_records_append [of "drop 24 S" c] by simp
  have "prefix (expected_output t S) (expected_output t S')"
    using False begun_mono [of t "fst (split_records (drop 24 S))"]
    by (simp add: expected_output_def Let_def split kept_def c)
  moreover have "prefix (passed_output t S) (passed_output t S')"
    using False by (simp add: passed_output_def c)
  ultimately show ?thesis by (simp add: thread_output_def)
qed

lemma thread_output_records:
  assumes "length hdr = 24" "\<forall>r\<in>set rs. framed r"
  shows "thread_output t (hdr @ concat rs) =
      (if begun t rs then preamble t hdr @ concat (kept t rs) else [])"
    and "thread_dropped t (hdr @ concat rs) = length (filter (\<lambda>r. \<not> record_matches t r) rs)"
proof -
  have "kept t rs = rs" "begun t rs" "filter (\<lambda>r. \<not> record_matches t r) rs = []" if "\<not> parses t"
    using that by (simp_all add: parses_def kept_def record_matches_def begun_def)
  then show "thread_output t (hdr @ concat rs) =
      (if begun t rs then preamble t hdr @ concat (kept t rs) else [])"
    "thread_dropped t (hdr @ concat rs) = length (filter (\<lambda>r. \<not> record_matches t r) rs)"
    using assms by (auto simp: thread_output_def thread_dropped_def expected_output_def
        passed_output_def split_framed)
qed

section \<open>The invariant of the link\<close>

text \<open>
  The stream of the channel (what was delivered and what is unread) is the file header and
  the records rs; nothing is longer than the buffer, which is at most 128 MiB.
\<close>

definition link_inv :: "u64 \<Rightarrow> u32 \<Rightarrow> bytes \<Rightarrow> bytes list \<Rightarrow> device_object \<Rightarrow> bool" where
  "link_inv f sl hdr rs d \<longleftrightarrow> device_inv d \<and> pCaptureObject d = f \<and>
     buffer (root (channel_of d)) \<noteq> None \<and> snaplen (root (channel_of d)) = sl \<and>
     stream (channel_of d) = hdr @ concat rs \<and>
     (\<forall>c\<in>set (completed (channel_of d)). length (done_data c) \<le> 2 ^ 28) \<and>
     (\<forall>r\<in>set rs. framed r \<and> length r \<le> 2 ^ 28)"

lemma capacity_bound: "rb_wf d \<Longrightarrow> capacity d \<le> 2 ^ 27"
  by (auto simp: capacity_def rb_wf_def split: option.splits)

lemma CompletePended_completed:
  "USBPcapBufferCompletePendedReadIrp ch = Some ch' \<Longrightarrow> \<exists>cs. completed ch' = completed ch @ cs"
  by (auto simp: USBPcapBufferCompletePendedReadIrp_def bind_eq_Some_conv
      split: prod.splits option.splits if_splits)

lemma WritePayload_completed:
  "USBPcapBufferWriteTimestampedPayload ch ts m ps = Some (ch', st) \<Longrightarrow>
   \<exists>cs. completed ch' = completed ch @ cs"
  by (auto simp: USBPcapBufferWriteTimestampedPayload_def bind_eq_Some_conv Let_def
      dest!: CompletePended_completed split: if_splits)

lemma length_in_concat: "x \<in> set xs \<Longrightarrow> length (f x) \<le> length (concat (map f xs))"
  by (induction xs) auto

lemma link_packet:
  assumes inv: "link_inv f sl hdr rs d" and ok: "header_ok m" "payload_ok ps"
    and complete: "payload_complete (root (channel_of d)) m ps"
  obtains ch st xs where
    "USBPcapBufferWriteTimestampedPayload (channel_of d) ts m ps = Some (ch, st)"
    "link_inv f sl hdr (rs @ xs) (d\<lparr>channel_of := ch\<rparr>)"
    "xs = [] \<or> xs = [record_bytes (root (channel_of d)) ts m ps]"
    "set (channel.pending ch) \<subseteq> set (channel.pending (channel_of d))"
proof -
  let ?ch = "channel_of d" and ?r = "record_bytes (root (channel_of d)) ts m ps"
  have dev: "device_inv d" using inv by (simp add: link_inv_def)
  note wf = device_invD(4) [OF dev]
  obtain ch st where run: "USBPcapBufferWriteTimestampedPayload ?ch ts m ps = Some (ch, st)"
    and l: "logs ?ch ts m ps ch" using WritePayload_logs [OF wf ok] by blast
  have dev': "device_inv (d\<lparr>channel_of := ch\<rparr>)" using packet_inv [OF dev ok run] by blast
  obtain cs where cs: "completed ch = completed ?ch @ cs" using WritePayload_completed [OF run] by blast
  have cfg: "buffer (root ch) \<noteq> None" "snaplen (root ch) = sl"
    using l inv by (auto simp: logs_def root_config_def link_inv_def)
  show thesis
  proof (cases "accepts (root ?ch) m ps")
    case False
    then have "ch = ?ch" using l by (simp add: logs_def)
    with inv have "link_inv f sl hdr (rs @ []) (d\<lparr>channel_of := ch\<rparr>)" by simp
    with run \<open>ch = ?ch\<close> show thesis by (intro that [of ch st "[]"]) simp_all
  next
    case True
    then have new: "stream ch = stream ?ch @ ?r" "channel.pending ch = tl (channel.pending ?ch)"
      using l by (simp_all add: logs_def)
    have "length ?r \<le> 16 + stored_length (root ?ch) m" by (simp add: record_length)
    then have "length (contents (root ?ch)) + length ?r \<le> capacity (root ?ch)"
      using True by (simp add: accepts_def)
    also have "\<dots> \<le> 2 ^ 27" using capacity_bound wf by (simp add: channel_wf_def)
    finally have len: "length (contents (root ?ch)) + length ?r \<le> 2 ^ 27" .
    have "concat (map done_data cs) @ contents (root ch) = contents (root ?ch) @ ?r"
      using new(1) by (simp add: stream_def delivered_def cs)
    then have "length (concat (map done_data cs)) \<le> 2 ^ 27"
      using len by (metis length_append le_add1 le_trans)
    then have "\<forall>c\<in>set cs. length (done_data c) \<le> 2 ^ 28"
      using length_in_concat [of _ cs done_data] by fastforce
    then have "link_inv f sl hdr (rs @ [?r]) (d\<lparr>channel_of := ch\<rparr>)"
      using inv dev' cfg new(1) len record_framed [OF complete, of ts] cs by (auto simp: link_inv_def)
    moreover have "set (channel.pending ch) \<subseteq> set (channel.pending ?ch)"
      unfolding new(2) by (cases "channel.pending ?ch") auto
    ultimately show thesis using run by (intro that [of ch st "[?r]"]) simp_all
  qed
qed

lemma link_read:
  assumes inv: "link_inv f sl hdr rs d" and irp: "irp_ok irp" "irp_file irp = f"
    and fresh: "irp_ptr irp \<notin> irp_ptr ` set (channel.pending (channel_of d))"
  obtains d' st fate where "DkReadWrite STATUS_SUCCESS (IrpRead irp) f d = Some (d', st, fate)"
    "link_inv f sl hdr rs d'"
    "irp_ptr ` set (channel.pending (channel_of d')) \<subseteq> insert (irp_ptr irp) (irp_ptr ` set (channel.pending (channel_of d)))"
proof -
  let ?ch = "channel_of d"
  have dev: "device_inv d" "pCaptureObject d = f" using inv by (simp_all add: link_inv_def)
  note wf = device_invD(4) [OF dev(1)]
  obtain ch irp' st n where h: "USBPcapBufferHandleReadIrp ?ch irp = Some (ch, irp', st, n)"
    "channel_wf ch" "completed ch = completed ?ch" "irp_ptr irp' = irp_ptr irp"
    "contents (root ?ch) = (case irp_memory irp' of None \<Rightarrow> [] | Some m \<Rightarrow> take (unat n) m) @
      contents (root ch)"
    and out: "if irp_length irp = 0 then st = STATUS_SUCCESS \<and> n = 0 \<and> ch = ?ch
     else if buffer (root ?ch) = None then st = STATUS_UNSUCCESSFUL \<and> n = 0 \<and> ch = ?ch
     else if irp_memory irp = None then st = STATUS_INSUFFICIENT_RESOURCES \<and> n = 0 \<and> ch = ?ch
     else if contents (root ?ch) = [] \<or> irp_mdl_bytes irp = 0
     then st = STATUS_PENDING \<and> n = 0 \<and> channel.pending ch = channel.pending ?ch @ [irp'] \<and>
       contents (root ch) = contents (root ?ch)
     else st = STATUS_SUCCESS \<and> channel.pending ch = channel.pending ?ch \<and>
       unat n = min (length (contents (root ?ch))) (unat (irp_mdl_bytes irp))"
    using HandleReadIrp_step [OF wf irp(1) fresh] by (elim exE conjE)
  from out have pend: "st = STATUS_PENDING \<longrightarrow> contents (root ch) = contents (root ?ch)"
    by (simp split: if_splits)
  define c where "c = \<lparr>done_irp = irp', done_status = st, done_information = n\<rparr>"
  have c: "contents (root ?ch) = done_data c @ contents (root ch)"
    using h(5) by (simp add: c_def done_data_def split: option.split)
  define d' where "d' = d\<lparr>channel_of := (if st = STATUS_PENDING then ch
    else ch\<lparr>completed := completed ch @ [c]\<rparr>)\<rparr>"
  have run: "control_read_write (IrpRead irp) f d = Some (d', st, n)"
    using h(1) dev(2) by (simp add: control_read_write_def d'_def c_def)
  have r: "device_inv d'" "pCaptureObject d' = f"
    using read_inv [OF dev(1) _ run] irp fresh dev(2) by (auto simp: read_ok_def)
  note res = HandleRead_result [OF h(1)]
  have "length (contents (root ?ch)) \<le> 2 ^ 27"
    using contents_bounded capacity_bound wf le_trans unfolding channel_wf_def by blast
  then have len: "length (done_data c) \<le> 2 ^ 28" by (simp add: c)
  have "stream (channel_of d') = stream ?ch"
    using c pend h(3) by (simp add: d'_def stream_def delivered_def)
  moreover have "buffer (root ch) \<noteq> None" "snaplen (root ch) = sl"
    using res inv by (auto simp: root_config_def link_inv_def)
  ultimately have "link_inv f sl hdr rs d'"
    using inv r len h(3) by (auto simp: link_inv_def d'_def)
  moreover have "irp_ptr ` set (channel.pending (channel_of d')) \<subseteq>
      insert (irp_ptr irp) (irp_ptr ` set (channel.pending ?ch))"
    using res h(4) by (auto simp: d'_def)
  ultimately show thesis
    using that run by (simp add: ReadWrite_control [OF dev(1)])
qed

section \<open>A run of the link\<close>

lemma link_ok_Cons:
  assumes "link_ok f rd (op # ops)"
  shows "link_ok f rd ops"
    and "op = LogPacket ts m ps \<Longrightarrow> header_ok m \<and> payload_ok ps \<and> payload_complete rd m ps"
    and "op = ServeRead irp \<Longrightarrow> irp_ok irp \<and> irp_file irp = f \<and>
      irp_ptr irp \<notin> irp_ptr ` set (link_requests ops)"
  using assms by (cases op; auto simp: link_ok_def)+

lemma disjoint_step: "A \<subseteq> insert x B \<Longrightarrow> B \<inter> insert x C = {} \<Longrightarrow> x \<notin> C \<Longrightarrow> A \<inter> C = {}"
  by blast

lemma link_run_inv:
  assumes "link_inv f sl hdr rs d" "link_ok f rd ops" "snaplen rd = sl"
    and "irp_ptr ` set (channel.pending (channel_of d)) \<inter> irp_ptr ` set (link_requests ops) = {}"
  shows "\<exists>d' xs. link_run f d ops = Some d' \<and> subseq xs (link_records rd ops) \<and>
    link_inv f sl hdr (rs @ xs) d'"
  using assms
proof (induction ops arbitrary: rs d)
  case Nil
  then show ?case by (intro exI [of _ d] exI [of _ "[]"]) simp
next
  case (Cons op ops)
  note ok = link_ok_Cons [OF Cons.prems(2)]
  have sl: "snaplen (root (channel_of d)) = snaplen rd"
    using Cons.prems(1,3) by (simp add: link_inv_def)
  show ?case
  proof (cases op)
    case (LogPacket ts m ps)
    have op: "header_ok m" "payload_ok ps" "payload_complete (root (channel_of d)) m ps"
      using ok(2) [OF LogPacket] record_snaplen(2) [OF sl] by auto
    obtain ch st ys where
      run: "USBPcapBufferWriteTimestampedPayload (channel_of d) ts m ps = Some (ch, st)"
      and inv: "link_inv f sl hdr (rs @ ys) (d\<lparr>channel_of := ch\<rparr>)"
      and ys: "ys = [] \<or> ys = [record_bytes (root (channel_of d)) ts m ps]"
      and pend: "set (channel.pending ch) \<subseteq> set (channel.pending (channel_of d))"
      by (rule link_packet [OF Cons.prems(1) op])
    have "irp_ptr ` set (channel.pending ch) \<inter> irp_ptr ` set (link_requests ops) = {}"
      using pend Cons.prems(4) LogPacket by auto
    then obtain d' xs where d': "link_run f (d\<lparr>channel_of := ch\<rparr>) ops = Some d'"
      "subseq xs (link_records rd ops)" "link_inv f sl hdr ((rs @ ys) @ xs) d'"
      using Cons.IH [OF inv ok(1) Cons.prems(3)] by auto
    have "subseq (ys @ xs) (link_records rd (op # ops))"
      using ys d'(2) record_snaplen(1) [OF sl] by (auto simp: LogPacket)
    with d' run show ?thesis
      by (intro exI [of _ d'] exI [of _ "ys @ xs"]) (simp add: LogPacket)
  next
    case (ServeRead irp)
    note irp = ok(3) [OF ServeRead]
    have fresh: "irp_ptr irp \<notin> irp_ptr ` set (channel.pending (channel_of d))"
      using Cons.prems(4) ServeRead by auto
    obtain d1 st fate where run: "DkReadWrite STATUS_SUCCESS (IrpRead irp) f d = Some (d1, st, fate)"
      and inv: "link_inv f sl hdr rs d1"
      and pend: "irp_ptr ` set (channel.pending (channel_of d1)) \<subseteq>
        insert (irp_ptr irp) (irp_ptr ` set (channel.pending (channel_of d)))"
      by (rule link_read [OF Cons.prems(1) _ _ fresh]) (use irp in auto)
    have "irp_ptr ` set (channel.pending (channel_of d1)) \<inter> irp_ptr ` set (link_requests ops) = {}"
      by (rule disjoint_step [OF pend]) (use Cons.prems(4) irp ServeRead in simp_all)
    then obtain d' xs where "link_run f d1 ops = Some d'" "subseq xs (link_records rd ops)"
      "link_inv f sl hdr (rs @ xs) d'"
      using Cons.IH [OF inv ok(1) Cons.prems(3)] by auto
    with run show ?thesis by (intro exI [of _ d'] exI [of _ xs]) (simp add: ServeRead)
  qed
qed

lemma link_stream_ok:
  assumes inv: "link_inv f sl hdr rs d" and hdr: "length hdr = 24"
    and es: "reads_of es = map done_data (completed (channel_of d))"
  shows "stream_ok (2 ^ 29) es" and "prefix (concat (reads_of es)) (hdr @ concat rs)"
    and "contents (root (channel_of d)) = [] \<Longrightarrow> concat (reads_of es) = hdr @ concat rs"
proof -
  let ?S = "concat (reads_of es)"
  have S: "?S @ contents (root (channel_of d)) = hdr @ concat rs"
    using inv by (simp add: link_inv_def stream_def delivered_def es)
  then show pre: "prefix ?S (hdr @ concat rs)" by (metis prefixI)
  show "contents (root (channel_of d)) = [] \<Longrightarrow> ?S = hdr @ concat rs" using S by simp
  have "records_below (2 ^ 29) (concat rs)"
    using inv by (intro records_below_framed) (auto simp: link_inv_def)
  moreover have "drop 24 ?S @ drop (24 - length ?S) (contents (root (channel_of d))) = concat rs"
    using arg_cong [OF S, of "drop 24"] hdr by simp
  ultimately have "records_below (2 ^ 29) (drop 24 ?S)" using records_below_prefix by metis
  moreover have "\<forall>c\<in>set (reads_of es). length c \<le> 2 ^ 29"
    using inv by (auto simp: es link_inv_def)
  ultimately show "stream_ok (2 ^ 29) es" by (simp add: stream_ok_def)
qed


definition captured_device :: device_object where
  "captured_device = (initial_device 1 example_device)\<lparr>pCaptureObject := 7,
     channel_of := \<lparr>root = the (USBPcapWriteGlobalHeader example_buffer), pending = [], completed = []\<rparr>\<rparr>"

definition example_ops :: "link_op list" where
  "example_ops = [ServeRead (example_irp 1 7),
     LogPacket 0 (PlainHeader (example_header 3)) (example_payload [7, 8, 9]),
     ServeRead (example_irp 2 7)]"

lemma captured_device_ok:
  "device_inv captured_device" "buffer (root (channel_of captured_device)) \<noteq> None"
  "contents (root (channel_of captured_device)) = pcap_hdr_bytes (global_header 65535)"
  "snaplen (root (channel_of captured_device)) = 65535"
proof -
  obtain b where "buffer example_buffer = Some b" using example_buffer_Some by auto
  from WriteGlobalHeader_empty [OF rb_wf_example this contents_example]
  obtain rd where rd: "USBPcapWriteGlobalHeader example_buffer = Some rd" "rb_wf rd"
    "buffer rd \<noteq> None" "contents rd = pcap_hdr_bytes (global_header 65535)"
    and same: "rd = example_buffer\<lparr>buffer := buffer rd, writeOffset := writeOffset rd\<rparr>"
    unfolding snaplen_example by blast
  have "snaplen rd = 65535" by (subst same) (simp add: snaplen_example)
  with rd show "device_inv captured_device" "buffer (root (channel_of captured_device)) \<noteq> None"
    "contents (root (channel_of captured_device)) = pcap_hdr_bytes (global_header 65535)"
    "snaplen (root (channel_of captured_device)) = 65535"
    by (simp_all add: captured_device_def initial_device_def device_inv_def channel_wf_def)
qed

lemma example_ops_ok: "link_ok 7 (root (channel_of captured_device)) example_ops"
proof -
  have "stored_length (root (channel_of captured_device)) (PlainHeader (example_header 3)) = 30"
    using record_snaplen(3) [of "root (channel_of captured_device)" example_buffer]
    by (simp add: captured_device_ok(4) snaplen_example stored_length_example)
  then show ?thesis
    by (auto simp: link_ok_def example_ops_def header_ok_example payload_ok_example
        payload_complete_def example_irp_def irp_ok_def example_payload_def)
qed


end
