(* ===== verification/HubQueries.thy ===== *)
theory HubQueries
  imports RingBuffer
begin

text \<open>
  What the driver asks the USB stack (USBPcapHelperFunctions.c): whether a device is a root
  hub, the number of ports of a hub, the port a device is connected to, and the address the
  device has there. The answers of the stack, of the plug and play manager and of the
  registry are arguments; strings are 16-bit characters.
\<close>

section \<open>Requests to the stack\<close>

text \<open>
  IoCallDriver returns a status, or it is pending and the status block has the status when
  the event is set. A query is None when the request cannot be built; otherwise the call's
  result with the answer.
\<close>

datatype call_result = Returned ntstatus | PendingThen ntstatus

type_synonym 'a io_query = "(call_result \<times> 'a) option"

fun call_status :: "call_result \<Rightarrow> ntstatus" where
  "call_status (Returned st) = st"
| "call_status (PendingThen st) = st"

definition io_request :: "'a io_query \<Rightarrow> ntstatus + 'a" where
  "io_request q =
     (case q of
        None \<Rightarrow> Inl STATUS_INSUFFICIENT_RESOURCES
      | Some (r, answer) \<Rightarrow>
          if NT_SUCCESS (call_status r) then Inr answer else Inl (call_status r))"

text \<open>The answers: a hub with its ports or a composite device, and a connection.\<close>

datatype node_information = HubInformation u8 | MiParentInformation u32

record connection_information =
  DeviceIsHub :: bool
  DeviceAddress :: u16

text \<open>A hub: node information, the two driver key requests, the pool, the connections.\<close>

record hub_stack =
  hs_node :: "node_information io_query"
  hs_key_length :: "u32 \<Rightarrow> u32 io_query"
  hs_key_pool :: "u32 \<Rightarrow> bool"
  hs_key_name :: "u32 \<Rightarrow> u16 list io_query"
  hs_connection :: "u32 \<Rightarrow> connection_information io_query"

text \<open>
  A device: its physical device object, and the driver key property of that object as the
  call with the empty buffer (status and length in bytes) and the second call report it.
\<close>

record device_stack =
  ds_pdo :: "unit io_query"
  ds_key_length :: "ntstatus \<times> u32"
  ds_key_pool :: bool
  ds_key :: "ntstatus \<times> u16 list"

record usb_info =
  properData :: bool
  parentPort :: u32
  isHub :: bool
  usbAddress :: u16

section \<open>Strings\<close>

text \<open>A C string in a block of characters: None when there is no terminator in it.\<close>

fun wcs :: "u16 list \<Rightarrow> u16 list option" where
  "wcs [] = None"
| "wcs (c # cs) = (if c = 0 then Some [] else map_option ((#) c) (wcs cs))"

definition wide :: "string \<Rightarrow> u16 list" where
  "wide s = map (\<lambda>c. of_nat (of_char c)) s"

lemma wcs_string [simp]: "0 \<notin> set s \<Longrightarrow> wcs (s @ 0 # rest) = Some s"
  by (induction s) auto

section \<open>Target device and ports\<close>

definition USBPcapGetTargetDevicePdo :: "'p io_query \<Rightarrow> ntstatus + 'p" where
  "USBPcapGetTargetDevicePdo q = io_request q"

definition USBPcapGetNumberOfPorts :: "hub_stack \<Rightarrow> ntstatus + u32" where
  "USBPcapGetNumberOfPorts hub =
     (case io_request (hs_node hub) of
        Inl st \<Rightarrow> Inl st
      | Inr (HubInformation n) \<Rightarrow> Inr (ucast n)
      | Inr (MiParentInformation n) \<Rightarrow> Inr n)"

text \<open>
  The driver key of a physical device object. The pool block is not checked: without it the
  second call writes through NULL.
\<close>

definition USBPcapGetPDODriverKey :: "device_stack \<Rightarrow> (ntstatus + u16 list) option" where
  "USBPcapGetPDODriverKey dev =
     (case ds_key_length dev of (status, len) \<Rightarrow>
        if status \<noteq> STATUS_BUFFER_TOO_SMALL then
          Some (Inl (if \<not> NT_SUCCESS status then status else STATUS_INVALID_DEVICE_REQUEST))
        else if len = 0 then Some (Inl STATUS_INVALID_DEVICE_REQUEST)
        else if \<not> ds_key_pool dev then None
        else case ds_key dev of (status2, key) \<Rightarrow>
          Some (if NT_SUCCESS status2 then Inr key else Inl status2))"

text \<open>
  The driver key name at a port: a zeroed block, ActualLength bytes and 12 more, holds the
  structure; the name starts at byte 8 and the call fills at most the rest of the block.
\<close>

definition USBPcapGetDriverKeyName :: "hub_stack \<Rightarrow> u32 \<Rightarrow> ntstatus + u16 list" where
  "USBPcapGetDriverKeyName hub port =
     (case io_request (hs_key_length hub port) of
        Inl st \<Rightarrow> Inl st
      | Inr actual \<Rightarrow>
          if \<not> hs_key_pool hub actual then Inl STATUS_INSUFFICIENT_RESOURCES
          else case io_request (hs_key_name hub port) of
            Inl st \<Rightarrow> Inl st
          | Inr name \<Rightarrow>
              let k = (unat actual + 4) div 2 in
              Inr (take k name @ replicate (k - length name) 0))"

text \<open>RtlEqualUnicodeString, ignoring case by the system's table of upper case letters.\<close>

definition equal_unicode :: "(u16 \<Rightarrow> u16) \<Rightarrow> u16 list \<Rightarrow> u16 list \<Rightarrow> bool" where
  "equal_unicode upcase s t \<longleftrightarrow> map upcase s = map upcase t"

text \<open>
  The loop over the ports of a free build, which stops at the first match. The counter of the
  code has 32 bits, so it only ends for fewer than 2^32 - 1 ports; a hub has at most 255.
\<close>

function find_port ::
  "(u16 \<Rightarrow> u16) \<Rightarrow> hub_stack \<Rightarrow> u16 list \<Rightarrow> nat \<Rightarrow> nat \<Rightarrow> u32 option option" where
  "find_port upcase hub key idx maxIndex =
     (if idx \<le> maxIndex then
        (case USBPcapGetDriverKeyName hub (of_nat idx) of
           Inl st \<Rightarrow> find_port upcase hub key (Suc idx) maxIndex
         | Inr block \<Rightarrow> do {
             name \<leftarrow> wcs block;
             if equal_unicode upcase key name then Some (Some (of_nat idx))
             else find_port upcase hub key (Suc idx) maxIndex })
      else Some None)"
  by pat_completeness auto
termination by (relation "measure (\<lambda>(u, h, k, idx, m). Suc m - idx)") auto

declare find_port.simps [simp del]

definition USBPcapGetTargetDevicePort ::
  "(u16 \<Rightarrow> u16) \<Rightarrow> hub_stack \<Rightarrow> device_stack \<Rightarrow> (ntstatus + u32) option" where
  "USBPcapGetTargetDevicePort upcase hub dev =
     (case USBPcapGetNumberOfPorts hub of
        Inl st \<Rightarrow> Some (Inl st)
      | Inr maxIndex \<Rightarrow> do {
          key \<leftarrow> USBPcapGetPDODriverKey dev;
          case key of
            Inl st \<Rightarrow> Some (Inl st)
          | Inr block \<Rightarrow> do {
              pdo_str \<leftarrow> wcs block;
              port \<leftarrow> find_port upcase hub pdo_str 1 (unat maxIndex);
              Some (case port of Some p \<Rightarrow> Inr p | None \<Rightarrow> Inl STATUS_NOT_FOUND) } })"

definition USBPcapGetNodeInformation ::
  "hub_stack \<Rightarrow> u32 \<Rightarrow> ntstatus + connection_information" where
  "USBPcapGetNodeInformation hub port = io_request (hs_connection hub port)"

section \<open>The device is started\<close>

text \<open>
  The new device data, the new address filter of the root hub and the status; the callers
  only ask whether it is a success.
\<close>

definition USBPcapGetDeviceUSBInfo ::
  "(u16 \<Rightarrow> u16) \<Rightarrow> hub_stack \<Rightarrow> device_stack \<Rightarrow> usb_info \<Rightarrow> address_filter \<Rightarrow>
   (usb_info \<times> address_filter \<times> ntstatus) option" where
  "USBPcapGetDeviceUSBInfo upcase hub dev info flt = do {
     found \<leftarrow> (if parentPort info = 0 then
                (case USBPcapGetTargetDevicePdo (ds_pdo dev) of
                   Inl st \<Rightarrow> Some (Inl st)
                 | Inr _ \<Rightarrow> USBPcapGetTargetDevicePort upcase hub dev)
              else Some (Inr (parentPort info)));
     case found of
       Inl st \<Rightarrow> Some (info, flt, st)
     | Inr port \<Rightarrow>
         let info1 = info\<lparr>parentPort := port\<rparr> in
         case USBPcapGetNodeInformation hub port of
           Inl st \<Rightarrow> Some (info1, flt, st)
         | Inr con \<Rightarrow>
             let info2 = info1\<lparr>properData := True, isHub := DeviceIsHub con,
                   usbAddress := DeviceAddress con\<rparr>;
                 flt' = (if USBPcapIsDeviceFiltered flt 0
                         then fst (USBPcapSetDeviceFiltered flt (uint (DeviceAddress con)))
                         else flt)
             in Some (info2, flt', STATUS_SUCCESS) }"

section \<open>Root hubs\<close>

text \<open>
  The registry value with the hardware ids of other root hubs: the strings that
  RtlQueryRegistryValues hands to the callback (type, data, length in bytes), and its status.
\<close>

record registry_value =
  rv_strings :: "(u32 \<times> u16 list \<times> u32) list"
  rv_status :: ntstatus

abbreviation (input) REG_SZ :: u32 where "REG_SZ \<equiv> 1"

definition QueryCompareHwid :: "u32 \<Rightarrow> u16 list \<Rightarrow> u32 \<Rightarrow> u16 list \<Rightarrow> bool \<Rightarrow> bool option" where
  "QueryCompareHwid ValueType ValueData ValueLength hwid match =
     (if match then Some match
      else if ValueLength = 2 then Some match
      else if ValueType \<noteq> REG_SZ then Some match
      else do { v \<leftarrow> wcs ValueData; Some (if v = hwid then True else match) })"

fun query_strings :: "(u32 \<times> u16 list \<times> u32) list \<Rightarrow> u16 list \<Rightarrow> bool \<Rightarrow> bool option" where
  "query_strings [] hwid match = Some match"
| "query_strings ((t, dat, n) # vs) hwid match =
     do { m \<leftarrow> QueryCompareHwid t dat n hwid match; query_strings vs hwid m }"

definition IsHwidNonStandardRootHub :: "registry_value \<Rightarrow> u16 list \<Rightarrow> bool option" where
  "IsHwidNonStandardRootHub reg hwid = do {
     match \<leftarrow> query_strings (rv_strings reg) hwid False;
     Some (if NT_SUCCESS (rv_status reg) then match else False) }"

abbreviation (input) MAX_HARDWARE_IDS :: nat where "MAX_HARDWARE_IDS \<equiv> 64"

text \<open>
  Cutting the property into strings: the starts of the hardware ids. Storing a start beyond
  the end of the array, or reading beyond the block, is a fault.
\<close>

function scan_hardware_ids :: "u16 list \<Rightarrow> nat \<Rightarrow> nat \<Rightarrow> nat \<Rightarrow> nat list \<Rightarrow> nat list option" where
  "scan_hardware_ids hwid len i start ids =
     (if i < len then
        (if i \<ge> length hwid then None
         else if hwid ! i = 0 then
           (if start = i then Some ids
            else if length ids \<ge> MAX_HARDWARE_IDS then None
            else scan_hardware_ids hwid len (Suc i) (Suc i) (ids @ [start]))
         else scan_hardware_ids hwid len (Suc i) start ids)
      else Some ids)"
  by pat_completeness auto
termination by (relation "measure (\<lambda>(h, n, i, s, ids). n - i)") auto

declare scan_hardware_ids.simps [simp del]

definition standard_root_hub :: "u16 list \<Rightarrow> bool" where
  "standard_root_hub s \<longleftrightarrow>
     s = wide (''USB'' @ [CHR 0x5C] @ ''ROOT_HUB'') \<or>
     s = wide (''USB'' @ [CHR 0x5C] @ ''ROOT_HUB20'') \<or>
     s = wide (''USB'' @ [CHR 0x5C] @ ''ROOT_HUB30'')"

text \<open>The comparison loop takes the ids from the last to the first.\<close>

fun any_root_hub :: "registry_value \<Rightarrow> u16 list \<Rightarrow> nat list \<Rightarrow> bool option" where
  "any_root_hub reg hwid [] = Some False"
| "any_root_hub reg hwid (start # ids) = do {
     s \<leftarrow> wcs (drop start hwid);
     if standard_root_hub s then Some True
     else do {
       other \<leftarrow> IsHwidNonStandardRootHub reg s;
       if other then Some True else any_root_hub reg hwid ids } }"

text \<open>
  The hardware id property is written to a zeroed block of 1024 bytes; the call reports its
  status and the characters it wrote.
\<close>

definition USBPcapIsDeviceRootHub ::
  "bool \<Rightarrow> unit io_query \<Rightarrow> ntstatus \<times> u16 list \<Rightarrow> registry_value \<Rightarrow> bool option" where
  "USBPcapIsDeviceRootHub pool pdo property reg =
     (if \<not> pool then Some False
      else case USBPcapGetTargetDevicePdo pdo of
        Inl _ \<Rightarrow> Some False
      | Inr _ \<Rightarrow>
          case property of (status, dat) \<Rightarrow>
            if \<not> NT_SUCCESS status then Some False
            else do {
              let hwid = dat @ replicate (512 - length dat) 0;
              ids \<leftarrow> scan_hardware_ids hwid (length dat) 0 0 [];
              any_root_hub reg hwid (rev ids) })"

section \<open>Which ports and which devices are found\<close>

text \<open>The key at a port that answers, and whether it is the device's.\<close>

definition port_matches :: "(u16 \<Rightarrow> u16) \<Rightarrow> hub_stack \<Rightarrow> u16 list \<Rightarrow> nat \<Rightarrow> bool" where
  "port_matches upcase hub key p \<longleftrightarrow>
     (case USBPcapGetDriverKeyName hub (of_nat p) of
        Inl _ \<Rightarrow> False
      | Inr block \<Rightarrow> (case wcs block of None \<Rightarrow> False | Some name \<Rightarrow> equal_unicode upcase key name))"

definition keys_terminated :: "hub_stack \<Rightarrow> nat \<Rightarrow> bool" where
  "keys_terminated hub n \<longleftrightarrow>
     (\<forall>p\<in>{1..n}. case USBPcapGetDriverKeyName hub (of_nat p) of
        Inl _ \<Rightarrow> True | Inr block \<Rightarrow> wcs block \<noteq> None)"

lemma find_port_first:
  assumes "keys_terminated hub n" "1 \<le> i"
  shows "find_port upcase hub key i n =
    Some (map_option of_nat (find (port_matches upcase hub key) [i..<Suc n]))"
  using assms(2)
proof (induction "Suc n - i" arbitrary: i)
  case 0
  then show ?case by (simp add: find_port.simps [of upcase hub key i])
next
  case (Suc k)
  then have le: "i \<le> n" and IH: "find_port upcase hub key (Suc i) n =
      Some (map_option of_nat (find (port_matches upcase hub key) [Suc i..<Suc n]))" by simp_all
  have cons: "[i..<Suc n] = i # [Suc i..<Suc n]" using le by (simp add: upt_conv_Cons)
  have "case USBPcapGetDriverKeyName hub (of_nat i) of Inl _ \<Rightarrow> True | Inr block \<Rightarrow> wcs block \<noteq> None"
    using assms(1) Suc.prems le unfolding keys_terminated_def by (rule_tac bspec) auto
  then show ?case
    using le IH unfolding cons
    by (cases "USBPcapGetDriverKeyName hub (of_nat i)")
       (auto simp: find_port.simps [of upcase hub key i] port_matches_def
         simp del: upt_Suc split: option.splits)
qed

text \<open>
  C30. When a device behind a hub is started, it gets the port whose driver key is its own,
  the first one in the order of the ports, and the address and hub flag that the hub reports
  there. When new devices are to be captured (address 0 is selected) the filter of the root
  hub selects its address from then on, and it never changes in any other way.
\<close>

theorem started_device_captured:
  assumes "parentPort info = 0" and "ds_pdo dev = Some (r, ())" and "NT_SUCCESS (call_status r)"
    and "USBPcapGetNumberOfPorts hub = Inr n" and "keys_terminated hub (unat n)"
    and "USBPcapGetPDODriverKey dev = Some (Inr block)" and "wcs block = Some key"
    and "find (port_matches upcase hub key) [1..<Suc (unat n)] = Some p"
    and "USBPcapGetNodeInformation hub (of_nat p) = Inr con" and "filter_wf flt"
  shows "\<exists>info' flt'. USBPcapGetDeviceUSBInfo upcase hub dev info flt = Some (info', flt', STATUS_SUCCESS) \<and>
    info' = \<lparr>properData = True, parentPort = of_nat p, isHub = DeviceIsHub con,
      usbAddress = DeviceAddress con\<rparr> \<and> filterAll flt' = filterAll flt \<and> filter_wf flt' \<and>
    (\<forall>a. USBPcapIsDeviceFiltered flt' a \<longleftrightarrow> USBPcapIsDeviceFiltered flt a \<or>
       USBPcapIsDeviceFiltered flt 0 \<and> a = uint (DeviceAddress con))"
proof -
  have "find_port upcase hub key 1 (unat n) = Some (Some (of_nat p))"
    using find_port_first [OF assms(5), of 1 upcase key] assms(8) by simp
  then have "USBPcapGetTargetDevicePort upcase hub dev = Some (Inr (of_nat p))"
    using assms(4,6,7) by (simp add: USBPcapGetTargetDevicePort_def)
  moreover have "USBPcapGetTargetDevicePdo (ds_pdo dev) = Inr ()"
    using assms(2,3) by (simp add: USBPcapGetTargetDevicePdo_def io_request_def)
  ultimately have run: "USBPcapGetDeviceUSBInfo upcase hub dev info flt =
      Some (info\<lparr>parentPort := of_nat p, properData := True, isHub := DeviceIsHub con,
              usbAddress := DeviceAddress con\<rparr>,
            if USBPcapIsDeviceFiltered flt 0
            then fst (USBPcapSetDeviceFiltered flt (uint (DeviceAddress con))) else flt,
            STATUS_SUCCESS)"
    using assms(1,9) by (simp add: USBPcapGetDeviceUSBInfo_def Let_def)
  show ?thesis
    unfolding run using assms(10) drv.set_all drv.set_wf drv.is_filtered_set [OF assms(10)] by auto
qed

definition example_hub :: hub_stack where
  "example_hub = \<lparr>hs_node = Some (Returned 0, HubInformation 4), hs_key_length = \<lambda>p. Some (Returned 0, 12),
     hs_key_pool = \<lambda>_. True, hs_key_name = \<lambda>p. Some (PendingThen 0, [ucast p + 65]),
     hs_connection = \<lambda>p. Some (Returned 0, \<lparr>DeviceIsHub = False, DeviceAddress = ucast p + 10\<rparr>)\<rparr>"

definition example_child :: device_stack where
  "example_child = \<lparr>ds_pdo = Some (Returned 0, ()), ds_key_length = (STATUS_BUFFER_TOO_SMALL, 4),
     ds_key_pool = True, ds_key = (0, [68, 0])\<rparr>"

theorem started_device_captured_witness:
  "\<exists>info flt. USBPcapGetDeviceUSBInfo id example_hub example_child
      \<lparr>properData = False, parentPort = 0, isHub = False, usbAddress = 255\<rparr>
      (fst (USBPcapSetDeviceFiltered filter_zero 0)) = Some (info, flt, STATUS_SUCCESS) \<and>
    parentPort info = 3 \<and> usbAddress info = 13 \<and> USBPcapIsDeviceFiltered flt 13"
proof -
  have key: "USBPcapGetDriverKeyName example_hub p = Inr ((ucast p + 65) # replicate 7 0)" for p
    by (simp add: USBPcapGetDriverKeyName_def example_hub_def io_request_def NT_SUCCESS_def Let_def)
  have term7: "wcs (c # replicate 7 0) \<noteq> None" for c
    by (cases "c = 0") (simp_all add: numeral_eq_Suc)
  have "keys_terminated example_hub (unat (4 :: u32))"
    using term7 by (simp add: keys_terminated_def key)
  moreover have "find (port_matches id example_hub [68]) [1..<Suc (unat (4 :: u32))] = Some 3"
  proof -
    have "[1..<Suc (unat (4 :: u32))] = [1, 2, 3, 4]" by code_simp
    moreover have "wcs (replicate 7 0) = Some []" by (simp add: numeral_eq_Suc)
    ultimately show ?thesis
      by (simp only: find.simps) (simp add: port_matches_def key equal_unicode_def)
  qed
  moreover have "filter_wf (fst (USBPcapSetDeviceFiltered filter_zero 0))"
    using drv.set_wf [of filter_zero 0] by (simp add: filter_wf_def filter_zero_def)
  moreover have "USBPcapIsDeviceFiltered (fst (USBPcapSetDeviceFiltered filter_zero 0)) 0"
    using drv.set_same [of filter_zero 0] by (simp add: filter_wf_def filter_zero_def)
  ultimately show ?thesis
    using started_device_captured [of "\<lparr>properData = False, parentPort = 0, isHub = False, usbAddress = 255\<rparr>"
        example_child "Returned 0" example_hub 4 "[68, 0]" "[68]" id 3
        "\<lparr>DeviceIsHub = False, DeviceAddress = 13\<rparr>" "fst (USBPcapSetDeviceFiltered filter_zero 0)"]
    by (auto simp: example_child_def example_hub_def NT_SUCCESS_def USBPcapGetNumberOfPorts_def
        io_request_def USBPcapGetPDODriverKey_def USBPcapGetNodeInformation_def)
qed

section \<open>Which devices are root hubs\<close>

fun id_starts :: "nat \<Rightarrow> u16 list list \<Rightarrow> nat list" where
  "id_starts k [] = []"
| "id_starts k (s # ss) = k # id_starts (Suc (k + length s)) ss"

definition multi_sz :: "u16 list list \<Rightarrow> u16 list" where
  "multi_sz ss = concat (map (\<lambda>s. s @ [0]) ss) @ [0]"

lemma multi_sz_simps [simp]:
  "multi_sz [] = [0]" "multi_sz (s # ss) = s @ 0 # multi_sz ss"
  by (simp_all add: multi_sz_def)

lemma scan_string:
  assumes "0 \<notin> set s" "length a + length s < len"
  shows "scan_hardware_ids (a @ s @ r) len (length a) start ids =
    scan_hardware_ids (a @ s @ r) len (length a + length s) start ids"
  using assms
proof (induction s arbitrary: a)
  case (Cons c s)
  have "scan_hardware_ids (a @ c # s @ r) len (length a) start ids =
      scan_hardware_ids (a @ c # s @ r) len (Suc (length a)) start ids"
    using Cons.prems by (simp add: scan_hardware_ids.simps [of "a @ c # s @ r" len "length a"] nth_append)
  also have "\<dots> = scan_hardware_ids (a @ c # s @ r) len (Suc (length a) + length s) start ids"
    using Cons.IH [of "a @ [c]"] Cons.prems by simp
  finally show ?case by simp
qed simp

lemma scan_ids:
  assumes "\<forall>s\<in>set ss. s \<noteq> [] \<and> 0 \<notin> set s" "length (a @ multi_sz ss) \<le> len"
  shows "scan_hardware_ids (a @ multi_sz ss @ r) len (length a) (length a) ids =
    (if length ids + length ss \<le> MAX_HARDWARE_IDS \<or> ss = [] then Some (ids @ id_starts (length a) ss)
     else None)"
  using assms
proof (induction ss arbitrary: a ids)
  case Nil
  then show ?case
    by (simp add: scan_hardware_ids.simps [of "a @ 0 # r" len "length a"] nth_append)
next
  case (Cons s ss)
  let ?m = "a @ s @ 0 # multi_sz ss @ r" and ?e = "length a + length s"
  have "scan_hardware_ids ?m len (length a) (length a) ids = scan_hardware_ids ?m len ?e (length a) ids"
    using scan_string [of s a len "0 # multi_sz ss @ r" "length a" ids] Cons.prems by simp
  also have "\<dots> = (if length ids \<ge> MAX_HARDWARE_IDS then None
      else scan_hardware_ids ?m len (Suc ?e) (Suc ?e) (ids @ [length a]))"
    using Cons.prems by (simp add: scan_hardware_ids.simps [of ?m len ?e] nth_append)
  also have "scan_hardware_ids ?m len (Suc ?e) (Suc ?e) (ids @ [length a]) =
      (if length (ids @ [length a]) + length ss \<le> MAX_HARDWARE_IDS \<or> ss = []
       then Some ((ids @ [length a]) @ id_starts (Suc ?e) ss) else None)"
    using Cons.IH [of "a @ s @ [0]" "ids @ [length a]"] Cons.prems by simp
  finally show ?case by (auto simp: Suc_le_eq not_le)
qed

definition lists_hwid :: "registry_value \<Rightarrow> u16 list \<Rightarrow> bool" where
  "lists_hwid reg s \<longleftrightarrow> NT_SUCCESS (rv_status reg) \<and>
     (\<exists>(t, dat, n)\<in>set (rv_strings reg). t = REG_SZ \<and> n \<noteq> 2 \<and> wcs dat = Some s)"

definition registry_ok :: "registry_value \<Rightarrow> bool" where
  "registry_ok reg \<longleftrightarrow> (\<forall>(t, dat, n)\<in>set (rv_strings reg). wcs dat \<noteq> None)"

lemma query_strings_listed:
  assumes "\<forall>(t, dat, n)\<in>set vs. wcs dat \<noteq> None"
  shows "query_strings vs s m =
    Some (m \<or> (\<exists>(t, dat, n)\<in>set vs. t = REG_SZ \<and> n \<noteq> 2 \<and> wcs dat = Some s))"
  using assms
proof (induction vs arbitrary: m)
  case (Cons v vs)
  obtain t dat n where v: "v = (t, dat, n)" by (rule prod_cases3)
  then obtain x where "wcs dat = Some x" using Cons.prems by auto
  then show ?case using Cons v by (auto simp: QueryCompareHwid_def)
qed simp

lemma nonstandard_listed:
  "registry_ok reg \<Longrightarrow> IsHwidNonStandardRootHub reg s = Some (lists_hwid reg s)"
  by (auto simp: IsHwidNonStandardRootHub_def registry_ok_def query_strings_listed lists_hwid_def)

lemma any_root_hub_listed:
  assumes "registry_ok reg" "list_all2 (\<lambda>i s. wcs (drop i hwid) = Some s) is ss"
  shows "any_root_hub reg hwid is = Some (\<exists>s\<in>set ss. standard_root_hub s \<or> lists_hwid reg s)"
  using assms(2) by (induction rule: list_all2_induct) (auto simp: nonstandard_listed [OF assms(1)])

lemma id_starts_strings:
  assumes "\<forall>s\<in>set ss. 0 \<notin> set s"
  shows "list_all2 (\<lambda>i s. wcs (drop i (a @ multi_sz ss @ r)) = Some s) (id_starts (length a) ss) ss"
  using assms
proof (induction ss arbitrary: a)
  case (Cons s ss)
  from Cons.IH [of "a @ s @ [0]"] Cons.prems show ?case by simp
qed simp

lemma root_hub_test:
  assumes "\<forall>s\<in>set ss. s \<noteq> [] \<and> 0 \<notin> set s" and "length (multi_sz ss) \<le> 512" and "registry_ok reg"
    and "pdo = Some (r, ())" and "NT_SUCCESS (call_status r)" and "NT_SUCCESS st"
  shows "USBPcapIsDeviceRootHub True pdo (st, multi_sz ss) reg =
    (if length ss \<le> 64 then Some (\<exists>s\<in>set ss. standard_root_hub s \<or> lists_hwid reg s) else None)"
proof -
  let ?hwid = "multi_sz ss @ replicate (512 - length (multi_sz ss)) 0"
  have "scan_hardware_ids ?hwid (length (multi_sz ss)) 0 0 [] =
      (if length ss \<le> 64 then Some (id_starts 0 ss) else None)"
    using scan_ids [OF assms(1), of "[]"] by auto
  moreover have "any_root_hub reg ?hwid (rev (id_starts 0 ss)) =
      Some (\<exists>s\<in>set (rev ss). standard_root_hub s \<or> lists_hwid reg s)"
    using id_starts_strings [of ss "[]" "replicate (512 - length (multi_sz ss)) 0"] assms(1)
    by (intro any_root_hub_listed [OF assms(3)]) (simp add: list_all2_rev del: drop_append)
  moreover have "USBPcapGetTargetDevicePdo pdo = Inr ()"
    using assms(4,5) by (simp add: USBPcapGetTargetDevicePdo_def io_request_def)
  ultimately show ?thesis
    using assms(6) by (simp add: USBPcapIsDeviceRootHub_def Let_def)
qed

text \<open>
  C31. A device is taken for a root hub exactly when one of its hardware ids is a standard
  root hub id or is listed in the registry, for any property of at most 64 ids in the block
  of 1024 bytes. With more ids the array of 64 pointers on the stack is written beyond its
  end: the same property of 65 one-letter ids takes 262 bytes.
\<close>

theorem root_hub_recognised:
  assumes "\<forall>s\<in>set ss. s \<noteq> [] \<and> 0 \<notin> set s" and "length (multi_sz ss) \<le> 512" and "registry_ok reg"
    and "pdo = Some (r, ())" and "NT_SUCCESS (call_status r)" and "NT_SUCCESS st"
  shows "USBPcapIsDeviceRootHub True pdo (st, multi_sz ss) reg =
    (if length ss \<le> 64 then Some (\<exists>s\<in>set ss. standard_root_hub s \<or> lists_hwid reg s) else None)"
  using assms by (rule root_hub_test)

theorem root_hub_recognised_witness:
  "USBPcapIsDeviceRootHub True (Some (Returned 0, ()))
     (0, multi_sz [wide (''USB'' @ [CHR 0x5C] @ ''ROOT_HUB30''), wide ''X''])
     \<lparr>rv_strings = [], rv_status = 0\<rparr> = Some True \<and>
   USBPcapIsDeviceRootHub True (Some (PendingThen 0, ())) (0, multi_sz (replicate 65 [65]))
     \<lparr>rv_strings = [], rv_status = 0\<rparr> = None"
proof -
  have reg: "registry_ok \<lparr>rv_strings = [], rv_status = 0\<rparr>" by (simp add: registry_ok_def)
  have len: "length (multi_sz (replicate n [65])) = 2 * n + 1" for n
    by (induction n) simp_all
  have "set (replicate 65 [65 :: u16]) = {[65]}" by simp
  then have "USBPcapIsDeviceRootHub True (Some (PendingThen 0, ())) (0, multi_sz (replicate 65 [65]))
     \<lparr>rv_strings = [], rv_status = 0\<rparr> = None"
    using root_hub_recognised [OF _ _ reg, of "replicate 65 [65]" "Some (PendingThen 0, ())" "PendingThen 0" 0]
      len [of 65] by (simp add: NT_SUCCESS_def)
  moreover have "USBPcapIsDeviceRootHub True (Some (Returned 0, ()))
      (0, multi_sz [wide (''USB'' @ [CHR 0x5C] @ ''ROOT_HUB30''), wide ''X''])
      \<lparr>rv_strings = [], rv_status = 0\<rparr> = Some True"
    using root_hub_recognised [OF _ _ reg, of "[wide (''USB'' @ [CHR 0x5C] @ ''ROOT_HUB30''), wide ''X'']"
        "Some (Returned 0, ())" "Returned 0" 0]
    by (simp add: NT_SUCCESS_def wide_def standard_root_hub_def)
  ultimately show ?thesis by simp
qed

end
