(* ===== verification/DeviceTree.thy ===== *)
theory DeviceTree
  imports HubQueries RemoveLock Tables CaptureBuffer
begin

text \<open>
  The driver's device objects and how they come and go: a filter on every root hub with its
  control device (USBPcapFilterManager.c, USBPcapRootHubControl.c), a filter on every device
  behind it, and the plug and play requests that create and remove them (USBPcapPnP.c).

  Device objects and root hub data live in a heap and refer to each other by address, because
  the code shares them: the filters of a hub share its reference counted root hub data, and a
  child holds the remove lock of its parent. Reading through NULL or freed memory, and
  releasing a remove lock that is not held, is None. The results of the kernel's calls are
  arguments.
\<close>

section \<open>The heap\<close>

record filter_data =
  fd_parent :: "nat option"
  previousChildren :: "u64 list option"
  fd_info :: usb_info
  fd_endpointTable :: "endpoint_info list option"
  fd_URBIrpTable :: "urb_irp_info list option"
  fd_descriptor :: "bytes option"
  fd_root :: "nat option"

record root_entry =
  re_data :: root_data
  re_control :: "nat option"

text \<open>
  The device extension: whether there is a lower device, the lock, the device whose lock is
  the parent lock, the data of a filter, and the number and root hub of a control device.
\<close>

record filter_ext =
  fe_magic :: u32
  fe_next :: bool
  fe_lock :: remove_lock
  fe_parent :: "nat option"
  fe_data :: "filter_data option"
  fe_id :: u16
  fe_hub :: "nat option"

text \<open>
  Besides the two kinds of objects: where each filter is attached (the device stacks of the
  system), the symbolic links by number, the counter of control devices, and the next free
  address; addresses are not reused.
\<close>

record heap =
  devs :: "nat \<Rightarrow> filter_ext option"
  roots :: "nat \<Rightarrow> root_entry option"
  attached :: "nat \<Rightarrow> u64 option"
  symlinks :: "u16 set"
  controlId :: u32
  fresh :: nat

text \<open>What the kernel answers while device objects are created.\<close>

record create_env =
  ce_device :: ntstatus
  ce_data :: bool
  ce_root :: bool
  ce_junk :: u16
  ce_endpoints :: bool
  ce_urbs :: bool
  ce_attach :: bool
  ce_ntname :: ntstatus
  ce_symname :: ntstatus
  ce_control :: ntstatus
  ce_symlink :: ntstatus
  ce_csq :: ntstatus

definition put_dev :: "nat \<Rightarrow> filter_ext \<Rightarrow> heap \<Rightarrow> heap" where
  "put_dev d e h = h\<lparr>devs := (devs h)(d \<mapsto> e)\<rparr>"

definition delete_dev :: "nat \<Rightarrow> heap \<Rightarrow> heap" where
  "delete_dev d h = h\<lparr>devs := (devs h)(d := None)\<rparr>"

definition put_root :: "nat \<Rightarrow> root_entry \<Rightarrow> heap \<Rightarrow> heap" where
  "put_root r re h = h\<lparr>roots := (roots h)(r \<mapsto> re)\<rparr>"

definition free_lock :: remove_lock where
  "free_lock = \<lparr>lock_count = 0, lock_removed = False\<rparr>"

definition acquire_lock :: "nat \<Rightarrow> heap \<Rightarrow> (heap \<times> ntstatus) option" where
  "acquire_lock d h = do {
     e \<leftarrow> devs h d;
     let (l, st) = IoAcquireRemoveLock (fe_lock e);
     Some (put_dev d (e\<lparr>fe_lock := l\<rparr>) h, st) }"

definition release_lock :: "nat \<Rightarrow> heap \<Rightarrow> heap option" where
  "release_lock d h = do {
     e \<leftarrow> devs h d;
     l \<leftarrow> IoReleaseRemoveLock (fe_lock e);
     Some (put_dev d (e\<lparr>fe_lock := l\<rparr>) h) }"

text \<open>The flag is False when the release has to wait.\<close>

definition release_lock_and_wait :: "nat \<Rightarrow> heap \<Rightarrow> (heap \<times> bool) option" where
  "release_lock_and_wait d h = do {
     e \<leftarrow> devs h d;
     (l, idle) \<leftarrow> IoReleaseRemoveLockAndWait (fe_lock e);
     Some (put_dev d (e\<lparr>fe_lock := l\<rparr>) h, idle) }"

section \<open>Device data\<close>

definition USBPcapFreeDeviceData :: "nat \<Rightarrow> heap \<Rightarrow> heap option" where
  "USBPcapFreeDeviceData d h = do {
     e \<leftarrow> devs h d;
     case fe_data e of
       None \<Rightarrow> Some h
     | Some dd \<Rightarrow> do {
         h1 \<leftarrow> (case fd_root dd of
                 None \<Rightarrow> Some h
               | Some r \<Rightarrow> do {
                   re \<leftarrow> roots h r;
                   let count = refCount (re_data re) - 1;
                   Some (if count = 0 then h\<lparr>roots := (roots h)(r := None)\<rparr>
                         else put_root r (re\<lparr>re_data := (re_data re)\<lparr>refCount := count\<rparr>\<rparr>) h) });
         Some (put_dev d (e\<lparr>fe_data := None\<rparr>) h1) } }"

text \<open>The root hub data of the parent with one more reference, or new root hub data.\<close>

definition obtain_root :: "create_env \<Rightarrow> nat option \<Rightarrow> heap \<Rightarrow> (heap \<times> nat option) option" where
  "obtain_root env parent h =
     (case parent of
        Some p \<Rightarrow> do {
          pe \<leftarrow> devs h p;
          pd \<leftarrow> fe_data pe;
          r \<leftarrow> fd_root pd;
          re \<leftarrow> roots h r;
          Some (put_root r (re\<lparr>re_data := (re_data re)\<lparr>refCount := refCount (re_data re) + 1\<rparr>\<rparr>) h,
                Some r) }
      | None \<Rightarrow>
          Some (if ce_root env
                then ((put_root (fresh h) \<lparr>re_data = root_data_init (ce_junk env), re_control = None\<rparr> h)
                        \<lparr>fresh := fresh h + 1\<rparr>, Some (fresh h))
                else (h, None)))"

definition USBPcapAllocateDeviceData ::
  "create_env \<Rightarrow> nat \<Rightarrow> nat option \<Rightarrow> heap \<Rightarrow> (heap \<times> ntstatus) option" where
  "USBPcapAllocateDeviceData env d parent h = do {
     e \<leftarrow> devs h d;
     if \<not> ce_data env
     then do {
       h1 \<leftarrow> USBPcapFreeDeviceData d (put_dev d (e\<lparr>fe_data := None\<rparr>) h);
       Some (h1, STATUS_INSUFFICIENT_RESOURCES) }
     else do {
       (h1, r) \<leftarrow> obtain_root env parent h;
       let dd = \<lparr>fd_parent = None, previousChildren = None,
         fd_info = \<lparr>properData = False, parentPort = 0, isHub = (parent = None), usbAddress = 255\<rparr>,
         fd_endpointTable = USBPcapInitializeEndpointTable (ce_endpoints env),
         fd_URBIrpTable = USBPcapInitializeURBIRPInfoTable (ce_urbs env),
         fd_descriptor = None, fd_root = r\<rparr>;
       if r = None
       then do {
         h2 \<leftarrow> USBPcapFreeDeviceData d (put_dev d (e\<lparr>fe_data := Some dd\<rparr>) h1);
         Some (h2, STATUS_INSUFFICIENT_RESOURCES) }
       else Some (put_dev d (e\<lparr>fe_data := Some (dd\<lparr>fd_parent := parent\<rparr>)\<rparr>) h1, STATUS_SUCCESS) } }"

section \<open>The control device of a root hub\<close>

text \<open>As documented, a symbolic link is not created when one of that name exists.\<close>

definition symlink_status :: "create_env \<Rightarrow> u16 \<Rightarrow> heap \<Rightarrow> ntstatus" where
  "symlink_status env n h = (if n \<in> symlinks h then 0xC0000035 else ce_symlink env)"

text \<open>The heap, the status, the control device and its number.\<close>

definition USBPcapCreateRootHubControlDevice ::
  "create_env \<Rightarrow> nat \<Rightarrow> heap \<Rightarrow> (heap \<times> ntstatus \<times> nat option \<times> u16) option" where
  "USBPcapCreateRootHubControlDevice env hub h0 =
     (let n = controlId h0 + 1; id = ucast n; h = h0\<lparr>controlId := n\<rparr>; c = fresh h in
      if \<not> NT_SUCCESS (ce_ntname env) then Some (h, ce_ntname env, None, ce_junk env)
      else if \<not> NT_SUCCESS (ce_symname env) then Some (h, ce_symname env, None, ce_junk env)
      else if \<not> NT_SUCCESS (ce_control env) then Some (h, ce_control env, None, ce_junk env)
      else if \<not> NT_SUCCESS (symlink_status env id h)
      then Some (h\<lparr>fresh := fresh h + 1\<rparr>, symlink_status env id h, None, ce_junk env)
      else
        let ext = \<lparr>fe_magic = USBPCAP_MAGIC_CONTROL, fe_next = False, fe_lock = free_lock,
              fe_parent = Some hub, fe_data = None, fe_id = id, fe_hub = Some hub\<rparr>;
            h1 = (put_dev c ext h)\<lparr>fresh := fresh h + 1, symlinks := insert id (symlinks h)\<rparr>
        in if \<not> NT_SUCCESS (ce_csq env)
           then Some ((delete_dev c h1)\<lparr>symlinks := symlinks h1 - {id}\<rparr>, ce_csq env, None, ce_junk env)
           else do {
             (h2, _) \<leftarrow> acquire_lock hub h1;
             Some (h2, ce_csq env, Some c, id) })"

text \<open>
  Deleting it; the name is printed again for the symbolic link. The flag is False when the
  routine waits for the control device's remove lock.
\<close>

definition USBPcapDeleteRootHubControlDevice ::
  "ntstatus \<Rightarrow> nat \<Rightarrow> heap \<Rightarrow> (heap \<times> bool) option" where
  "USBPcapDeleteRootHubControlDevice name c h = do {
     (h1, _) \<leftarrow> acquire_lock c h;
     (h2, idle) \<leftarrow> release_lock_and_wait c h1;
     if \<not> idle then Some (h2, False)
     else do {
       e \<leftarrow> devs h2 c;
       p \<leftarrow> fe_parent e;
       h3 \<leftarrow> release_lock p h2;
       Some (if NT_SUCCESS name then (delete_dev c h3)\<lparr>symlinks := symlinks h3 - {fe_id e}\<rparr>
             else put_dev c (e\<lparr>fe_hub := None\<rparr>) h3, True) } }"

section \<open>Filters\<close>

text \<open>The end of AddDevice and of DkCreateAndAttachTgt when something failed.\<close>

definition give_up :: "nat \<Rightarrow> ntstatus \<Rightarrow> heap \<Rightarrow> (heap \<times> ntstatus) option" where
  "give_up d st h = do {
     h1 \<leftarrow> USBPcapFreeDeviceData d h;
     Some (delete_dev d h1, st) }"

definition new_filter :: "u32 \<Rightarrow> nat option \<Rightarrow> heap \<Rightarrow> heap" where
  "new_filter magic parent h =
     (put_dev (fresh h)
        \<lparr>fe_magic = magic, fe_next = False, fe_lock = free_lock, fe_parent = parent, fe_data = None,
         fe_id = 0, fe_hub = None\<rparr> h)\<lparr>fresh := fresh h + 1\<rparr>"

definition attach_filter :: "nat \<Rightarrow> u64 \<Rightarrow> heap \<Rightarrow> heap option" where
  "attach_filter d target h = do {
     e \<leftarrow> devs h d;
     Some ((put_dev d (e\<lparr>fe_next := True\<rparr>) h)\<lparr>attached := (attached h)(d \<mapsto> target)\<rparr>) }"

text \<open>The first argument is what USBPcapIsDeviceRootHub says of the target.\<close>

definition AddDevice :: "bool \<Rightarrow> create_env \<Rightarrow> u64 \<Rightarrow> heap \<Rightarrow> (heap \<times> ntstatus) option" where
  "AddDevice isRootHub env target h =
     (if \<not> isRootHub then Some (h, STATUS_SUCCESS)
      else if \<not> NT_SUCCESS (ce_device env) then Some (h, ce_device env)
      else do {
        let d = fresh h;
        (h1, st1) \<leftarrow> USBPcapAllocateDeviceData env d None (new_filter USBPCAP_MAGIC_ROOTHUB None h);
        if \<not> NT_SUCCESS st1 then give_up d st1 h1
        else if \<not> ce_attach env then give_up d STATUS_NO_SUCH_DEVICE h1
        else do {
          h2 \<leftarrow> attach_filter d target h1;
          (h3, st3, control, id) \<leftarrow> USBPcapCreateRootHubControlDevice env d h2;
          e \<leftarrow> devs h3 d;
          dd \<leftarrow> fe_data e;
          r \<leftarrow> fd_root dd;
          re \<leftarrow> roots h3 r;
          let h4 = put_root r (re\<lparr>re_data := (re_data re)\<lparr>busId := id\<rparr>, re_control := control\<rparr>) h3;
          if \<not> NT_SUCCESS st3 then give_up d st3 h4 else Some (h4, st3) } })"

definition DkCreateAndAttachTgt ::
  "create_env \<Rightarrow> nat \<Rightarrow> u64 \<Rightarrow> heap \<Rightarrow> (heap \<times> ntstatus) option" where
  "DkCreateAndAttachTgt env parent target h =
     (if \<not> NT_SUCCESS (ce_device env) then Some (h, ce_device env)
      else do {
        let d = fresh h;
        (h1, st1) \<leftarrow> USBPcapAllocateDeviceData env d (Some parent)
          (new_filter USBPCAP_MAGIC_DEVICE (Some parent) h);
        if \<not> NT_SUCCESS st1 then give_up d st1 h1
        else if \<not> ce_attach env then give_up d STATUS_NO_SUCH_DEVICE h1
        else do {
          h2 \<leftarrow> attach_filter d target h1;
          (h3, _) \<leftarrow> acquire_lock parent h2;
          Some (h3, STATUS_SUCCESS) } })"

text \<open>
  Detaching and deleting a filter. IoDeleteDevice comes before USBPcapFreeDeviceData in the
  code; the I/O manager's reference keeps the extension until the routine returns, so the
  object leaves the heap last.
\<close>

definition DkDetachAndDelete :: "nat \<Rightarrow> heap \<Rightarrow> heap option" where
  "DkDetachAndDelete d h = do {
     e \<leftarrow> devs h d;
     h1 \<leftarrow> (case fe_parent e of None \<Rightarrow> Some h | Some p \<Rightarrow> release_lock p h);
     let h2 = (if fe_next e then h1\<lparr>attached := (attached h1)(d := None)\<rparr> else h1);
     h3 \<leftarrow> USBPcapFreeDeviceData d h2;
     Some (delete_dev d h3) }"

definition DkDetachAndDeleteHubFilt :: "nat \<Rightarrow> heap \<Rightarrow> heap option" where
  "DkDetachAndDeleteHubFilt d h = DkDetachAndDelete d h"

definition DkDetachAndDeleteTgt :: "nat \<Rightarrow> heap \<Rightarrow> heap option" where
  "DkDetachAndDeleteTgt d h = DkDetachAndDelete d h"

section \<open>Plug and play requests\<close>

text \<open>
  The request: the minor function, with the type of a relations query (True for the bus
  relations). The environment: the status of the lower device, the relations it reports, the
  kernel's answers for each new filter, whether there is memory for the list of children, the
  status of printing the link name, and the answers of the USB stack.
\<close>

datatype pnp_minor = START_DEVICE | REMOVE_DEVICE | QUERY_DEVICE_RELATIONS bool | OtherMinor

record pnp_env =
  pe_lower :: ntstatus
  pe_relations :: "u64 list option"
  pe_create :: "nat \<Rightarrow> create_env"
  pe_children_pool :: bool
  pe_link_name :: ntstatus
  pe_upcase :: "u16 \<Rightarrow> u16"
  pe_hub :: hub_stack
  pe_device :: device_stack

datatype pnp_result = PnpDone ntstatus | PnpWaiting

text \<open>Forwarding, or completing with an error when there is no lower device.\<close>

definition forward_status :: "pnp_env \<Rightarrow> filter_ext \<Rightarrow> ntstatus" where
  "forward_status env e = (if fe_next e then pe_lower env else STATUS_INVALID_DEVICE_REQUEST)"

text \<open>The children that were not there before get a filter.\<close>

fun attach_new ::
  "(nat \<Rightarrow> create_env) \<Rightarrow> nat \<Rightarrow> u64 list option \<Rightarrow> nat \<Rightarrow> u64 list \<Rightarrow> heap \<Rightarrow> heap option" where
  "attach_new envs d previous i [] h = Some h"
| "attach_new envs d previous i (c # cs) h =
     (if (case previous of None \<Rightarrow> False | Some ps \<Rightarrow> c \<in> set ps)
      then attach_new envs d previous (Suc i) cs h
      else do { (h', _) \<leftarrow> DkCreateAndAttachTgt (envs i) d c h; attach_new envs d previous (Suc i) cs h' })"

definition put_children :: "nat \<Rightarrow> u64 list option \<Rightarrow> heap \<Rightarrow> heap option" where
  "put_children d cs h = do {
     e \<leftarrow> devs h d;
     dd \<leftarrow> fe_data e;
     Some (put_dev d (e\<lparr>fe_data := Some (dd\<lparr>previousChildren := cs\<rparr>)\<rparr>) h) }"

definition DkHubFltPnpHandleQryDevRels ::
  "pnp_env \<Rightarrow> nat \<Rightarrow> bool \<Rightarrow> heap \<Rightarrow> (heap \<times> ntstatus) option" where
  "DkHubFltPnpHandleQryDevRels env d bus h = do {
     (h1, st1) \<leftarrow> acquire_lock d h;
     if \<not> NT_SUCCESS st1 then Some (h1, st1)
     else do {
       e \<leftarrow> devs h1 d;
       dd \<leftarrow> fe_data e;
       h2 \<leftarrow> (if bus \<and> NT_SUCCESS (pe_lower env)
              then (case pe_relations env of
                  None \<Rightarrow> Some h1
                | Some cs \<Rightarrow> do {
                    h' \<leftarrow> attach_new (pe_create env) d (previousChildren dd) 0 cs h1;
                    put_children d (if cs \<noteq> [] \<and> pe_children_pool env then Some cs else None) h' })
              else Some h1);
       h3 \<leftarrow> release_lock d h2;
       Some (h3, if bus then pe_lower env else forward_status env e) } }"

text \<open>The control device in the root hub data of a filter, when these exist.\<close>

definition control_device :: "filter_ext \<Rightarrow> heap \<Rightarrow> nat option option" where
  "control_device e h =
     (case fe_data e of
        None \<Rightarrow> Some None
      | Some dd \<Rightarrow> (case fd_root dd of None \<Rightarrow> Some None | Some r \<Rightarrow> map_option re_control (roots h r)))"

definition DkHubFltPnP :: "pnp_env \<Rightarrow> nat \<Rightarrow> pnp_minor \<Rightarrow> heap \<Rightarrow> (heap \<times> pnp_result) option" where
  "DkHubFltPnP env d minor h = do {
     (h1, st1) \<leftarrow> acquire_lock d h;
     if \<not> NT_SUCCESS st1 then Some (h1, PnpDone st1)
     else do {
       e \<leftarrow> devs h1 d;
       case minor of
         START_DEVICE \<Rightarrow> do { h2 \<leftarrow> release_lock d h1; Some (h2, PnpDone (pe_lower env)) }
       | REMOVE_DEVICE \<Rightarrow> do {
           control \<leftarrow> control_device e h1;
           (h2, deleted) \<leftarrow> (case control of
               None \<Rightarrow> Some (h1, True)
             | Some c \<Rightarrow> USBPcapDeleteRootHubControlDevice (pe_link_name env) c h1);
           if \<not> deleted then Some (h2, PnpWaiting)
           else do {
             (h3, idle) \<leftarrow> release_lock_and_wait d h2;
             if \<not> idle then Some (h3, PnpWaiting)
             else do {
               h4 \<leftarrow> DkDetachAndDeleteHubFilt d h3;
               Some (h4, PnpDone (pe_lower env)) } } }
       | QUERY_DEVICE_RELATIONS bus \<Rightarrow> do {
           (h2, st2) \<leftarrow> DkHubFltPnpHandleQryDevRels env d bus h1;
           h3 \<leftarrow> release_lock d h2;
           Some (h3, PnpDone st2) }
       | OtherMinor \<Rightarrow> do {
           h2 \<leftarrow> release_lock d h1;
           Some (h2, PnpDone (forward_status env e)) } } }"

text \<open>The address and port of a started device, and the filter of its root hub.\<close>

definition start_target :: "pnp_env \<Rightarrow> nat \<Rightarrow> heap \<Rightarrow> heap option" where
  "start_target env d h = do {
     e \<leftarrow> devs h d;
     dd \<leftarrow> fe_data e;
     r \<leftarrow> fd_root dd;
     re \<leftarrow> roots h r;
     (info, flt, st) \<leftarrow> USBPcapGetDeviceUSBInfo (pe_upcase env) (pe_hub env) (pe_device env)
       (fd_info dd) (addr_filter (re_data re));
     Some (put_root r (re\<lparr>re_data := (re_data re)\<lparr>addr_filter := flt\<rparr>\<rparr>)
            (put_dev d (e\<lparr>fe_data := Some (dd\<lparr>fd_info := info\<rparr>)\<rparr>) h)) }"

definition DkTgtPnP :: "pnp_env \<Rightarrow> nat \<Rightarrow> pnp_minor \<Rightarrow> heap \<Rightarrow> (heap \<times> pnp_result) option" where
  "DkTgtPnP env d minor h = do {
     (h1, st1) \<leftarrow> acquire_lock d h;
     if \<not> NT_SUCCESS st1 then Some (h1, PnpDone st1)
     else do {
       e \<leftarrow> devs h1 d;
       case minor of
         START_DEVICE \<Rightarrow> do {
           h2 \<leftarrow> start_target env d h1;
           h3 \<leftarrow> release_lock d h2;
           Some (h3, PnpDone (pe_lower env)) }
       | REMOVE_DEVICE \<Rightarrow> do {
           (h2, idle) \<leftarrow> release_lock_and_wait d h1;
           if \<not> idle then Some (h2, PnpWaiting)
           else do {
             h3 \<leftarrow> DkDetachAndDeleteTgt d h2;
             Some (h3, PnpDone (pe_lower env)) } }
       | QUERY_DEVICE_RELATIONS bus \<Rightarrow> do {
           dd \<leftarrow> fe_data e;
           if isHub (fd_info dd)
           then do {
             (h2, st2) \<leftarrow> DkHubFltPnpHandleQryDevRels env d bus h1;
             h3 \<leftarrow> release_lock d h2;
             Some (h3, PnpDone st2) }
           else do { h2 \<leftarrow> release_lock d h1; Some (h2, PnpDone (forward_status env e)) } }
       | OtherMinor \<Rightarrow> do {
           h2 \<leftarrow> release_lock d h1;
           Some (h2, PnpDone (forward_status env e)) } } }"

definition DkPnP :: "pnp_env \<Rightarrow> nat \<Rightarrow> pnp_minor \<Rightarrow> heap \<Rightarrow> (heap \<times> pnp_result) option" where
  "DkPnP env d minor h = do {
     e \<leftarrow> devs h d;
     if fe_magic e = USBPCAP_MAGIC_ROOTHUB then DkHubFltPnP env d minor h
     else if fe_magic e = USBPCAP_MAGIC_DEVICE then DkTgtPnP env d minor h
     else do {
       (h1, st1) \<leftarrow> acquire_lock d h;
       if \<not> NT_SUCCESS st1 then Some (h1, PnpDone st1)
       else do {
         h2 \<leftarrow> release_lock d h1;
         Some (h2, PnpDone (forward_status env e)) } } }"

end
