(* ===== verification/DeviceTreeInv.thy ===== *)
theory DeviceTreeInv
  imports DeviceTree
begin

text \<open>
  The invariant of the device objects. A heap is described by its tree: what each device
  object is, its parent and its root hub data. The heap is well typed when every reference
  leads to an object of the kind that its user needs, and the counts are right when a remove
  lock counts the device's children and a reference count the filters that share the data.
\<close>

section \<open>The tree of a heap\<close>

datatype node = HubNode nat | DevNode nat nat | CtlNode nat | BadNode

fun node_parent :: "node \<Rightarrow> nat option" where
  "node_parent (DevNode p r) = Some p"
| "node_parent (CtlNode p) = Some p"
| "node_parent _ = None"

fun node_root :: "node \<Rightarrow> nat option" where
  "node_root (HubNode r) = Some r"
| "node_root (DevNode p r) = Some r"
| "node_root _ = None"

definition node_of :: "filter_ext \<Rightarrow> node" where
  "node_of e =
     (if fe_magic e = USBPCAP_MAGIC_CONTROL then
        (case fe_parent e of
           Some p \<Rightarrow> if fe_data e = None \<and> fe_hub e = Some p then CtlNode p else BadNode
         | None \<Rightarrow> BadNode)
      else case fe_data e of
        None \<Rightarrow> BadNode
      | Some dd \<Rightarrow>
          (case fd_root dd of
             None \<Rightarrow> BadNode
           | Some r \<Rightarrow>
               if fe_magic e = USBPCAP_MAGIC_ROOTHUB \<and> fe_parent e = None \<and> fe_next e then HubNode r
               else if fe_magic e = USBPCAP_MAGIC_DEVICE \<and> fe_next e \<and> fe_parent e = fd_parent dd
               then (case fe_parent e of Some p \<Rightarrow> DevNode p r | None \<Rightarrow> BadNode)
               else BadNode))"

definition tree :: "heap \<Rightarrow> nat \<Rightarrow> node option" where
  "tree h d = map_option node_of (devs h d)"

definition controls :: "heap \<Rightarrow> nat \<Rightarrow> nat option option" where
  "controls h r = map_option re_control (roots h r)"

definition node_typed :: "(nat \<Rightarrow> node option) \<Rightarrow> (nat \<Rightarrow> nat option option) \<Rightarrow> nat \<Rightarrow> node \<Rightarrow> bool" where
  "node_typed T R d n =
     (case n of
        HubNode r \<Rightarrow> (\<exists>c. R r = Some (Some c) \<and> T c = Some (CtlNode d))
      | DevNode p r \<Rightarrow> p < d \<and> (\<exists>n'. T p = Some n' \<and> node_root n' = Some r) \<and> R r \<noteq> None
      | CtlNode p \<Rightarrow> (\<exists>r. T p = Some (HubNode r) \<and> R r = Some (Some d))
      | BadNode \<Rightarrow> False)"

definition well_typed :: "(nat \<Rightarrow> node option) \<Rightarrow> (nat \<Rightarrow> nat option option) \<Rightarrow> bool" where
  "well_typed T R \<longleftrightarrow> (\<forall>d n. T d = Some n \<longrightarrow> node_typed T R d n)"

definition kids :: "(nat \<Rightarrow> node option) \<Rightarrow> nat \<Rightarrow> nat set" where
  "kids T p = {c. \<exists>n. T c = Some n \<and> node_parent n = Some p}"

definition users :: "(nat \<Rightarrow> node option) \<Rightarrow> nat \<Rightarrow> nat set" where
  "users T r = {d. \<exists>n. T d = Some n \<and> node_root n = Some r}"

lemma kids_users_upd:
  "T d = None \<Longrightarrow> kids (T(d \<mapsto> n)) p = (if node_parent n = Some p then insert d (kids T p) else kids T p)"
  "T d = None \<Longrightarrow> users (T(d \<mapsto> n)) r = (if node_root n = Some r then insert d (users T r) else users T r)"
  "kids (T(d := None)) p = kids T p - {d}"
  "users (T(d := None)) r = users T r - {d}"
  by (auto simp: kids_def users_def)

lemma kids_users_dom: "kids T p \<subseteq> dom T" "users T r \<subseteq> dom T"
  by (auto simp: kids_def users_def)

text \<open>The links are those of the control devices, one for each.\<close>

definition link_of :: "heap \<Rightarrow> nat \<Rightarrow> u16 option" where
  "link_of h d =
     (case devs h d of None \<Rightarrow> None
      | Some e \<Rightarrow> if fe_magic e = USBPCAP_MAGIC_CONTROL then Some (fe_id e) else None)"

definition links_ok :: "heap \<Rightarrow> bool" where
  "links_ok h \<longleftrightarrow> symlinks h = ran (link_of h) \<and> inj_on (link_of h) (dom (link_of h))"

lemma link_of_put:
  "link_of (put_dev d e h) =
     (link_of h)(d := if fe_magic e = USBPCAP_MAGIC_CONTROL then Some (fe_id e) else None)"
  "link_of (delete_dev d h) = (link_of h)(d := None)" "link_of (put_root r re h) = link_of h"
  by (auto simp: link_of_def put_dev_def delete_dev_def put_root_def)

text \<open>held d is how often the running request has acquired the lock of d.\<close>

definition locks_ok :: "(nat \<Rightarrow> nat) \<Rightarrow> heap \<Rightarrow> bool" where
  "locks_ok held h \<longleftrightarrow> (\<forall>d e. devs h d = Some e \<longrightarrow>
     fe_lock e = \<lparr>lock_count = card (kids (tree h) d) + held d, lock_removed = False\<rparr>)"

definition refs_ok :: "heap \<Rightarrow> bool" where
  "refs_ok h \<longleftrightarrow> (\<forall>r re. roots h r = Some re \<longrightarrow>
     refCount (re_data re) = int (card (users (tree h) r)) \<and> users (tree h) r \<noteq> {})"

definition bounded :: "heap \<Rightarrow> bool" where
  "bounded h \<longleftrightarrow> finite (dom (devs h)) \<and> (\<forall>d\<in>dom (devs h). d < fresh h) \<and>
     (\<forall>r\<in>dom (roots h). r < fresh h)"

definition tree_inv :: "(nat \<Rightarrow> nat) \<Rightarrow> heap \<Rightarrow> bool" where
  "tree_inv held h \<longleftrightarrow> well_typed (tree h) (controls h) \<and> locks_ok held h \<and> refs_ok h \<and>
     links_ok h \<and> bounded h"

abbreviation at_rest :: "nat \<Rightarrow> nat" where "at_rest \<equiv> \<lambda>_. 0"

lemma tree_dom: "dom (tree h) = dom (devs h)"
  by (auto simp: tree_def)

lemma finite_kids: "bounded h \<Longrightarrow> finite (kids (tree h) d)" "bounded h \<Longrightarrow> finite (users (tree h) r)"
  using finite_subset [OF kids_users_dom(1)] finite_subset [OF kids_users_dom(2)] tree_dom [of h]
  by (auto simp: bounded_def)

lemma node_of_lock [simp]: "node_of (e\<lparr>fe_lock := l\<rparr>) = node_of e"
  by (simp add: node_of_def cong: option.case_cong if_cong)

lemma tree_put_dev:
  "tree (put_dev d e h) = (tree h)(d \<mapsto> node_of e)" "tree (put_root r re h) = tree h"
  "tree (delete_dev d h) = (tree h)(d := None)"
  by (auto simp: tree_def put_dev_def put_root_def delete_dev_def)

lemma tree_put_same: "devs h d = Some e \<Longrightarrow> node_of e' = node_of e \<Longrightarrow> tree (put_dev d e' h) = tree h"
  by (auto simp: tree_def put_dev_def)

lemma controls_put:
  "controls (put_dev d e h) = controls h" "controls (delete_dev d h) = controls h"
  "controls (put_root r re h) = (controls h)(r \<mapsto> re_control re)"
  by (auto simp: controls_def put_dev_def put_root_def delete_dev_def)

section \<open>Remove locks\<close>

text \<open>Updates of a device that keep its kind, its references and its number.\<close>

lemma tree_inv_put:
  assumes inv: "tree_inv held h" and d: "devs h d = Some e"
    and same: "node_of e' = node_of e" "fe_id e' = fe_id e" "fe_magic e' = fe_magic e"
    and lock: "fe_lock e' = \<lparr>lock_count = card (kids (tree h) d) + n, lock_removed = False\<rparr>"
  shows "tree_inv (held(d := n)) (put_dev d e' h)"
proof -
  have t: "tree (put_dev d e' h) = tree h" by (rule tree_put_same [OF d same(1)])
  have dev: "devs (put_dev d e' h) = (devs h)(d \<mapsto> e')" "roots (put_dev d e' h) = roots h"
    "symlinks (put_dev d e' h) = symlinks h" "fresh (put_dev d e' h) = fresh h"
    by (simp_all add: put_dev_def)
  have "link_of (put_dev d e' h) = link_of h"
    using d same by (auto simp: link_of_put) (auto simp: link_of_def)
  then have "links_ok (put_dev d e' h) = links_ok h" by (simp add: links_ok_def dev)
  moreover have "bounded (put_dev d e' h)"
    using inv d by (auto simp: tree_inv_def bounded_def dev)
  moreover have "locks_ok (held(d := n)) (put_dev d e' h)"
    using inv lock by (auto simp: tree_inv_def locks_ok_def t dev)
  ultimately show ?thesis
    using inv by (simp add: tree_inv_def t controls_put refs_ok_def dev)
qed

lemma tree_inv_lock:
  "tree_inv held h \<Longrightarrow> devs h d = Some e \<Longrightarrow>
   fe_lock e = \<lparr>lock_count = card (kids (tree h) d) + held d, lock_removed = False\<rparr>"
  by (simp add: tree_inv_def locks_ok_def)

lemma acquire_lock_ok:
  assumes "tree_inv held h" "devs h d = Some e"
  shows "\<exists>e'. acquire_lock d h = Some (put_dev d e' h, STATUS_SUCCESS) \<and>
    e' = e\<lparr>fe_lock := acquired (fe_lock e)\<rparr> \<and>
    tree_inv (held(d := Suc (held d))) (put_dev d e' h) \<and> tree (put_dev d e' h) = tree h"
proof -
  note l = tree_inv_lock [OF assms]
  have "acquire_lock d h = Some (put_dev d (e\<lparr>fe_lock := acquired (fe_lock e)\<rparr>) h, STATUS_SUCCESS)"
    using assms(2) by (simp add: acquire_lock_def Acquire_eq l)
  moreover have "tree_inv (held(d := Suc (held d))) (put_dev d (e\<lparr>fe_lock := acquired (fe_lock e)\<rparr>) h)"
    by (rule tree_inv_put [OF assms]) (simp_all add: l acquired_def)
  ultimately show ?thesis using tree_put_same [OF assms(2)] by simp
qed

lemma release_lock_ok:
  assumes "tree_inv held h" "devs h d = Some e" "held d = Suc n"
  shows "\<exists>e'. release_lock d h = Some (put_dev d e' h) \<and>
    tree_inv (held(d := n)) (put_dev d e' h) \<and> tree (put_dev d e' h) = tree h \<and>
    e' = e\<lparr>fe_lock := fe_lock e'\<rparr>"
proof -
  note l = tree_inv_lock [OF assms(1,2)]
  let ?l = "\<lparr>lock_count = card (kids (tree h) d) + n, lock_removed = False\<rparr>"
  have "release_lock d h = Some (put_dev d (e\<lparr>fe_lock := ?l\<rparr>) h)"
    using assms(2,3) by (simp add: release_lock_def IoReleaseRemoveLock_def l)
  moreover have "tree_inv (held(d := n)) (put_dev d (e\<lparr>fe_lock := ?l\<rparr>) h)"
    by (rule tree_inv_put [OF assms(1,2)]) simp_all
  ultimately show ?thesis using tree_put_same [OF assms(2)] by (intro exI [of _ "e\<lparr>fe_lock := ?l\<rparr>"]) simp
qed

section \<open>Removing a filter\<close>

definition drop_reference :: "nat \<Rightarrow> root_entry \<Rightarrow> heap \<Rightarrow> heap" where
  "drop_reference r re h =
     (if refCount (re_data re) = 1 then h\<lparr>roots := (roots h)(r := None)\<rparr>
      else put_root r (re\<lparr>re_data := (re_data re)\<lparr>refCount := refCount (re_data re) - 1\<rparr>\<rparr>) h)"

lemma FreeDeviceData_eq:
  assumes "devs h d = Some e" "fe_data e = Some dd" "fd_root dd = Some r" "roots h r = Some re"
  shows "USBPcapFreeDeviceData d h = Some (put_dev d (e\<lparr>fe_data := None\<rparr>) (drop_reference r re h))"
  using assms by (simp add: USBPcapFreeDeviceData_def drop_reference_def Let_def)

lemma node_of_root: "node_root (node_of e) = Some r \<Longrightarrow> \<exists>dd. fe_data e = Some dd \<and> fd_root dd = Some r"
  by (auto simp: node_of_def split: if_splits option.splits)

lemma node_of_parent:
  "node_of e \<noteq> BadNode \<Longrightarrow> fe_parent e = node_parent (node_of e)"
  by (auto simp: node_of_def split: if_splits option.splits)

lemma node_of_kind:
  "node_of e = HubNode r \<Longrightarrow> fe_magic e = USBPCAP_MAGIC_ROOTHUB \<and> fe_next e"
  "node_of e = DevNode p r \<Longrightarrow> fe_magic e = USBPCAP_MAGIC_DEVICE \<and> fe_next e"
  "node_of e = CtlNode p \<longleftrightarrow> fe_magic e = USBPCAP_MAGIC_CONTROL \<and> fe_parent e = Some p \<and>
     fe_data e = None \<and> fe_hub e = Some p"
  by (auto simp: node_of_def split: if_splits option.splits)

text \<open>Every filter has its root hub data, counted once for each filter.\<close>

lemma filter_root:
  assumes inv: "tree_inv held h" and d: "devs h d = Some e" "node_root (node_of e) = Some r"
  obtains re where "roots h r = Some re" "refCount (re_data re) = int (card (users (tree h) r))"
    "d \<in> users (tree h) r" "finite (users (tree h) r)"
proof -
  have "node_typed (tree h) (controls h) d (node_of e)"
    using inv d(1) by (simp add: tree_inv_def well_typed_def tree_def)
  then have "controls h r \<noteq> None"
    using d(2) by (cases "node_of e") (auto simp: node_typed_def)
  then obtain re where "roots h r = Some re" by (auto simp: controls_def)
  moreover have "d \<in> users (tree h) r" using d by (simp add: users_def tree_def)
  moreover have "finite (users (tree h) r)" using inv finite_kids by (auto simp: tree_inv_def)
  ultimately show thesis using inv that by (simp add: tree_inv_def refs_ok_def)
qed

lemma remove_filter_inv:
  assumes inv: "tree_inv at_rest h" and d: "devs h d = Some e" and n: "node_of e = DevNode p r"
    and leaf: "kids (tree h) d = {}" and pe: "devs h p = Some pe" and re: "roots h r = Some re"
    and h': "devs h' = (devs h)(p \<mapsto> pe\<lparr>fe_lock := \<lparr>lock_count = card (kids (tree h) p) - 1,
        lock_removed = False\<rparr>\<rparr>, d := None)" "roots h' = roots (drop_reference r re h)"
      "symlinks h' = symlinks h" "fresh h' = fresh h"
  shows "tree_inv at_rest h'"
proof -
  let ?T = "tree h"
  have T: "?T d = Some (DevNode p r)" using d n by (simp add: tree_def)
  then have dkid: "d \<in> kids ?T p" by (simp add: kids_def)
  with leaf have "p \<noteq> d" by auto
  have typed: "well_typed ?T (controls h)" and b: "bounded h" using inv by (simp_all add: tree_inv_def)
  obtain n' where p: "?T p = Some n'" "node_root n' = Some r"
    using typed T by (fastforce simp: well_typed_def node_typed_def)
  have T': "tree h' = ?T(d := None)"
    using h'(1) pe \<open>p \<noteq> d\<close> by (auto simp: tree_def)
  have "{p, d} \<subseteq> users ?T r" using p T by (simp add: users_def)
  then have "card {p, d} \<le> card (users ?T r)" using finite_kids(2) [OF b] card_mono by blast
  then have two: "2 \<le> card (users ?T r)" using \<open>p \<noteq> d\<close> by simp
  have cnt: "refCount (re_data re) = int (card (users ?T r))"
    using inv re by (simp add: tree_inv_def refs_ok_def)
  then have r': "roots h' = (roots h)(r \<mapsto> re\<lparr>re_data := (re_data re)\<lparr>refCount := refCount (re_data re) - 1\<rparr>\<rparr>)"
    using h'(2) two by (simp add: drop_reference_def put_root_def)
  then have R': "controls h' = controls h" using re by (auto simp: controls_def)
  have link: "link_of h' = link_of h"
    using h'(1) pe d \<open>p \<noteq> d\<close> node_of_kind(2) [OF n] by (auto simp: link_of_def)
  have "well_typed (tree h') (controls h')"
    unfolding T' R' well_typed_def
  proof (intro allI impI)
    fix x m assume x: "(?T(d := None)) x = Some m"
    then have m: "node_typed ?T (controls h) x m" "x \<noteq> d" "?T x = Some m"
      using typed by (auto simp: well_typed_def split: if_splits)
    have parent: "q \<noteq> d" if "node_parent m = Some q" for q using m(3) leaf that by (auto simp: kids_def)
    show "node_typed (?T(d := None)) (controls h) x m"
    proof (cases m)
      case (HubNode r')
      then obtain c where "controls h r' = Some (Some c)" "?T c = Some (CtlNode x)"
        using m(1) by (auto simp: node_typed_def)
      moreover from this T have "c \<noteq> d" by auto
      ultimately show ?thesis by (simp add: HubNode node_typed_def)
    qed (use m(1) parent in \<open>auto simp: node_typed_def\<close>)
  qed
  moreover have "locks_ok at_rest h'"
  proof -
    have one: "kids ?T x - {d} = kids ?T x" if "x \<noteq> p" for x
      using T that by (auto simp: kids_def)
    show ?thesis
      using inv dkid one h'(1) finite_kids(1) [OF b]
      by (auto simp: tree_inv_def locks_ok_def T' kids_users_upd split: if_splits)
  qed
  moreover have "refs_ok h'"
  proof -
    have one: "users ?T x - {d} = users ?T x" if "x \<noteq> r" for x
      using T that by (auto simp: users_def)
    have "d \<in> users ?T r" using T by (simp add: users_def)
    then have "card (users ?T r - {d}) = card (users ?T r) - 1" by simp
    moreover from this two have "users ?T r - {d} \<noteq> {}" by force
    ultimately have self: "refCount (re_data re) - 1 = int (card (users ?T r - {d}))" "users ?T r - {d} \<noteq> {}"
      using cnt two by (simp_all add: of_nat_diff)
    show ?thesis
      unfolding refs_ok_def T' kids_users_upd
    proof (intro allI impI)
      fix x rex assume x: "roots h' x = Some rex"
      show "refCount (re_data rex) = int (card (users ?T x - {d})) \<and> users ?T x - {d} \<noteq> {}"
      proof (cases "x = r")
        case True then show ?thesis using x self r' by auto
      next
        case False then show ?thesis using x one inv r' by (simp add: tree_inv_def refs_ok_def)
      qed
    qed
  qed
  moreover have "bounded h'" using b pe h'(1,4) r' re by (auto simp: bounded_def)
  ultimately show ?thesis using inv link h'(3) by (simp add: tree_inv_def links_ok_def)
qed

lemma typed_at:
  "tree_inv held h \<Longrightarrow> devs h d = Some e \<Longrightarrow> node_typed (tree h) (controls h) d (node_of e)"
  by (simp add: tree_inv_def well_typed_def tree_def)

text \<open>The fields of the heap after the updates that the routines make.\<close>

lemma heap_put [simp]:
  "devs (put_dev d e h) = (devs h)(d \<mapsto> e)" "roots (put_dev d e h) = roots h"
  "symlinks (put_dev d e h) = symlinks h" "fresh (put_dev d e h) = fresh h"
  "attached (put_dev d e h) = attached h" "controlId (put_dev d e h) = controlId h"
  "devs (delete_dev d h) = (devs h)(d := None)" "roots (delete_dev d h) = roots h"
  "symlinks (delete_dev d h) = symlinks h" "fresh (delete_dev d h) = fresh h"
  "attached (delete_dev d h) = attached h"
  "devs (put_root r re h) = devs h" "roots (put_root r re h) = (roots h)(r \<mapsto> re)"
  "symlinks (put_root r re h) = symlinks h" "fresh (put_root r re h) = fresh h"
  "attached (put_root r re h) = attached h" "controlId (put_root r re h) = controlId h"
  by (simp_all add: put_dev_def delete_dev_def put_root_def)

lemma heap_drop [simp]:
  "devs (drop_reference r re h) = devs h" "symlinks (drop_reference r re h) = symlinks h"
  "fresh (drop_reference r re h) = fresh h" "attached (drop_reference r re h) = attached h"
  by (simp_all add: drop_reference_def)

lemma roots_drop: "roots h = roots h' \<Longrightarrow> roots (drop_reference r re h) = roots (drop_reference r re h')"
  by (simp add: drop_reference_def)

text \<open>The remove request up to the point where the lock is idle.\<close>

lemma release_wait_eq:
  assumes "devs h d = Some e" "fe_lock e = \<lparr>lock_count = Suc n, lock_removed = False\<rparr>"
  shows "release_lock_and_wait d h =
    Some (put_dev d (e\<lparr>fe_lock := \<lparr>lock_count = n, lock_removed = True\<rparr>\<rparr>) h, n = 0)"
  using assms by (simp add: release_lock_and_wait_def IoReleaseRemoveLockAndWait_def)

lemma remove_target:
  assumes inv: "tree_inv at_rest h" and d: "devs h d = Some e" and n: "node_of e = DevNode p r"
  shows "\<exists>h'. DkTgtPnP env d REMOVE_DEVICE h =
      Some (h', if kids (tree h) d = {} then PnpDone (pe_lower env) else PnpWaiting) \<and>
    (kids (tree h) d = {} \<longrightarrow> tree_inv at_rest h' \<and> devs h' d = None)"
proof -
  let ?n = "card (kids (tree h) d)"
  note l = tree_inv_lock [OF inv d]
  have fin: "finite (kids (tree h) x)" for x using inv finite_kids by (simp add: tree_inv_def)
  let ?e1 = "e\<lparr>fe_lock := \<lparr>lock_count = Suc ?n, lock_removed = False\<rparr>\<rparr>"
  let ?h1 = "put_dev d ?e1 h"
  have a: "acquire_lock d h = Some (?h1, STATUS_SUCCESS)"
    using d l by (simp add: acquire_lock_def Acquire_eq acquired_def)
  let ?e2 = "e\<lparr>fe_lock := \<lparr>lock_count = ?n, lock_removed = True\<rparr>\<rparr>"
  let ?h2 = "put_dev d ?e2 ?h1"
  have w: "release_lock_and_wait d ?h1 = Some (?h2, ?n = 0)"
    by (subst release_wait_eq [of _ _ ?e1 ?n]) simp_all
  show ?thesis
  proof (cases "kids (tree h) d = {}")
    case False
    then show ?thesis using fin a w by (simp add: DkTgtPnP_def)
  next
    case True
    have ty: "node_typed (tree h) (controls h) d (DevNode p r)" using typed_at [OF inv d] n by simp
    then have pd: "p \<noteq> d" and "tree h p \<noteq> None" by (auto simp: node_typed_def)
    then obtain pe where pe: "devs h p = Some pe" by (auto simp: tree_def)
    obtain dd where dd: "fe_data e = Some dd" "fd_root dd = Some r"
      using node_of_root [of e r] n by auto
    obtain re where re: "roots h r = Some re"
      using filter_root [OF inv d, of r] n by auto
    have parent: "fe_parent e = Some p" "fe_next e"
      using node_of_parent [of e] node_of_kind(2) [OF n] n by simp_all
    have "d \<in> kids (tree h) p" using d n by (simp add: kids_def tree_def)
    then obtain k where k: "card (kids (tree h) p) = Suc k" using fin by (metis card_Suc_Diff1)
    let ?pe = "pe\<lparr>fe_lock := \<lparr>lock_count = k, lock_removed = False\<rparr>\<rparr>"
    let ?h3 = "(put_dev p ?pe ?h2)\<lparr>attached := (attached (put_dev p ?pe ?h2))(d := None)\<rparr>"
    have r3: "release_lock p ?h2 = Some (put_dev p ?pe ?h2)"
      using pe pd tree_inv_lock [OF inv pe] k by (simp add: release_lock_def IoReleaseRemoveLock_def)
    have f: "USBPcapFreeDeviceData d ?h3 = Some (put_dev d (?e2\<lparr>fe_data := None\<rparr>) (drop_reference r re ?h3))"
      using pd dd re by (intro FreeDeviceData_eq [of _ _ ?e2 dd]) simp_all
    let ?h4 = "delete_dev d (put_dev d (?e2\<lparr>fe_data := None\<rparr>) (drop_reference r re ?h3))"
    have "DkDetachAndDelete d ?h2 = Some ?h4"
      using parent r3 f pd by (simp add: DkDetachAndDelete_def)
    then have "DkTgtPnP env d REMOVE_DEVICE h = Some (?h4, PnpDone (pe_lower env))"
      using a w True by (simp add: DkTgtPnP_def DkDetachAndDeleteTgt_def)
    moreover have "tree_inv at_rest ?h4"
    proof (rule remove_filter_inv [OF inv d n True pe re])
      show "roots ?h4 = roots (drop_reference r re h)"
        by (simp, rule roots_drop) simp
      show "devs ?h4 = (devs h)(p \<mapsto> pe\<lparr>fe_lock := \<lparr>lock_count = card (kids (tree h) p) - 1,
          lock_removed = False\<rparr>\<rparr>, d := None)"
        using pd k by auto
    qed simp_all
    ultimately show ?thesis using True by simp
  qed
qed

section \<open>Removing a root hub\<close>

text \<open>The control device of a root hub, and what it has below it.\<close>

lemma hub_control:
  assumes inv: "tree_inv held h" and d: "devs h d = Some e" and n: "node_of e = HubNode r"
  obtains c ce re where "roots h r = Some re" "re_control re = Some c" "devs h c = Some ce"
    "node_of ce = CtlNode d" "c \<noteq> d" "c \<in> kids (tree h) d"
proof -
  from typed_at [OF inv d] n obtain c where c: "controls h r = Some (Some c)" "tree h c = Some (CtlNode d)"
    by (auto simp: node_typed_def)
  then obtain re ce where "roots h r = Some re" "re_control re = Some c" "devs h c = Some ce" "node_of ce = CtlNode d"
    by (auto simp: controls_def tree_def)
  moreover from this d n have "c \<noteq> d" by auto
  moreover have "c \<in> kids (tree h) d" using c(2) by (simp add: kids_def)
  ultimately show thesis by (rule that)
qed

lemma control_kids:
  assumes typed: "well_typed T R" and c: "T c = Some (CtlNode d)"
  shows "kids T c = {}"
proof -
  have False if "T x = Some n" "node_parent n = Some c" for x n
  proof -
    have "node_typed T R x n" using typed that(1) by (simp add: well_typed_def)
    then show False using c that(2) by (cases n) (auto simp: node_typed_def)
  qed
  then show ?thesis by (auto simp: kids_def)
qed

text \<open>
  Root hub data is used by one root hub and by the filters below it, so a root hub without
  child filters is its only user.
\<close>

lemma hub_only_user:
  assumes typed: "well_typed T R" and d: "T d = Some (HubNode r)" and leaf: "kids T d \<subseteq> {c}"
    and c: "T c = Some (CtlNode d)"
  shows "users T r = {d}"
proof -
  have "x = d" if "x \<in> users T r" for x
    using that
  proof (induction x rule: less_induct)
    case (less x)
    then obtain n where x: "T x = Some n" "node_root n = Some r" by (auto simp: users_def)
    have ty: "node_typed T R x n" "node_typed T R d (HubNode r)"
      using typed x(1) d by (simp_all add: well_typed_def)
    show ?case
    proof (cases n)
      case (HubNode r')
      then show ?thesis using ty x(2) by (auto simp: node_typed_def)
    next
      case (DevNode p r')
      then have "p \<in> users T r" "p < x" using ty(1) x(2) by (auto simp: node_typed_def users_def)
      then have "p = d" by (rule less.IH [rotated])
      then have "x \<in> kids T d" using DevNode x(1) by (simp add: kids_def)
      then show ?thesis using leaf c x DevNode by auto
    qed (use x(2) in simp_all)
  qed
  moreover have "d \<in> users T r" using d by (simp add: users_def)
  ultimately show ?thesis by blast
qed

lemma remove_hub_inv:
  assumes inv: "tree_inv at_rest h" and d: "devs h d = Some e" and n: "node_of e = HubNode r"
    and ce: "devs h c = Some ce" and nc: "node_of ce = CtlNode d" and leaf: "kids (tree h) d = {c}"
    and h': "devs h' = (devs h)(c := None, d := None)" "roots h' = (roots h)(r := None)"
      "symlinks h' = symlinks h - {fe_id ce}" "fresh h' = fresh h"
  shows "tree_inv at_rest h'"
proof -
  let ?T = "tree h"
  have T: "?T d = Some (HubNode r)" "?T c = Some (CtlNode d)" using d n ce nc by (simp_all add: tree_def)
  have typed: "well_typed ?T (controls h)" and b: "bounded h" using inv by (simp_all add: tree_inv_def)
  have user: "users ?T r = {d}" using hub_only_user [OF typed T(1) _ T(2)] leaf by simp
  have ckids: "kids ?T c = {}" by (rule control_kids [OF typed T(2)])
  have T': "tree h' = ?T(c := None, d := None)" using h'(1) by (auto simp: tree_def)
  have R': "controls h' = (controls h)(r := None)" using h'(2) by (auto simp: controls_def)
  have away: "node_parent m \<noteq> Some d \<and> node_parent m \<noteq> Some c \<and> node_root m \<noteq> Some r"
    if "?T x = Some m" "x \<noteq> c" "x \<noteq> d" for x m
    using that leaf ckids user by (auto simp: kids_def users_def)
  have "well_typed (tree h') (controls h')"
    unfolding T' R' well_typed_def
  proof (intro allI impI)
    fix x m assume x: "(?T(c := None, d := None)) x = Some m"
    then have m: "node_typed ?T (controls h) x m" "x \<noteq> d" "x \<noteq> c" "?T x = Some m"
      using typed by (auto simp: well_typed_def split: if_splits)
    note a = away [OF m(4) m(3) m(2)]
    show "node_typed (?T(c := None, d := None)) ((controls h)(r := None)) x m"
    proof (cases m)
      case (HubNode r')
      then obtain k where k: "controls h r' = Some (Some k)" "?T k = Some (CtlNode x)"
        using m(1) by (auto simp: node_typed_def)
      have "k \<noteq> d" "k \<noteq> c" "r' \<noteq> r" using k(2) T m(2) a HubNode by auto
      then show ?thesis using k by (simp add: HubNode node_typed_def)
    next
      case (CtlNode q)
      then obtain r' where q: "?T q = Some (HubNode r')" "controls h r' = Some (Some x)"
        using m(1) by (auto simp: node_typed_def)
      have "q \<noteq> d" "q \<noteq> c" using a CtlNode by auto
      moreover from this q user have "r' \<noteq> r" by (auto simp: users_def)
      ultimately show ?thesis using q by (simp add: CtlNode node_typed_def)
    qed (use m(1) a in \<open>auto simp: node_typed_def\<close>)
  qed
  moreover have "locks_ok at_rest h'"
  proof -
    have "kids ?T x - {c} - {d} = kids ?T x" if "x \<noteq> d" for x
      using T that by (auto simp: kids_def)
    then show ?thesis using inv h'(1) by (auto simp: tree_inv_def locks_ok_def T' kids_users_upd)
  qed
  moreover have "refs_ok h'"
  proof -
    have keep: "users ?T x - {c} - {d} = users ?T x" if "x \<noteq> r" for x
      using T that by (auto simp: users_def)
    show ?thesis
      unfolding refs_ok_def T' kids_users_upd
    proof (intro allI impI)
      fix x rex assume "roots h' x = Some rex"
      then have "x \<noteq> r" "roots h x = Some rex" using h'(2) by (auto split: if_splits)
      then show "refCount (re_data rex) = int (card (users ?T x - {c} - {d})) \<and> users ?T x - {c} - {d} \<noteq> {}"
        unfolding keep [OF \<open>x \<noteq> r\<close>] using inv by (simp add: tree_inv_def refs_ok_def)
    qed
  qed
  moreover have "links_ok h'"
  proof -
    have lk: "link_of h' = (link_of h)(c := None)"
      using h'(1) d node_of_kind(1) [OF n] by (auto simp: link_of_def)
    have lc: "link_of h c = Some (fe_id ce)" using ce node_of_kind(3) [of ce d] nc by (simp add: link_of_def)
    have "inj_on (link_of h) (dom (link_of h))" using inv by (simp add: tree_inv_def links_ok_def)
    then have only: "link_of h x = Some (fe_id ce) \<Longrightarrow> x = c" for x
      by (rule inj_onD) (use lc in auto)
    have "ran ((link_of h)(c := None)) = ran (link_of h) - {fe_id ce}"
      using lc by (auto simp: ran_def dest: only) (metis option.inject)
    moreover have "inj_on ((link_of h)(c := None)) (dom ((link_of h)(c := None)))"
      using inv by (auto simp: tree_inv_def links_ok_def inj_on_def)
    ultimately show ?thesis using inv h'(3) lk by (simp add: tree_inv_def links_ok_def)
  qed
  moreover have "bounded h'" using b h' by (auto simp: bounded_def)
  ultimately show ?thesis by (simp add: tree_inv_def)
qed

lemma control_device_hub:
  assumes "node_of e = HubNode r" "roots h r = Some re"
  shows "control_device e h = Some (re_control re)"
  using node_of_root [of e r] assms by (auto simp: control_device_def)

text \<open>Deleting the control device of a hub whose lock the remove request holds.\<close>

lemma delete_control_eq:
  assumes inv: "tree_inv at_rest h" and d: "devs h d = Some e" and n: "node_of e = HubNode r"
    and ce: "devs h c = Some ce" and nc: "node_of ce = CtlNode d" and cd: "c \<noteq> d"
    and name: "NT_SUCCESS name" and e1: "fe_lock e1 = \<lparr>lock_count = Suc k, lock_removed = False\<rparr>"
  obtains h' where "USBPcapDeleteRootHubControlDevice name c (put_dev d e1 h) = Some (h', True)"
    "devs h' = (devs h)(d \<mapsto> e1\<lparr>fe_lock := \<lparr>lock_count = k, lock_removed = False\<rparr>\<rparr>, c := None)"
    "roots h' = roots h" "symlinks h' = symlinks h - {fe_id ce}" "fresh h' = fresh h"
    "attached h' = attached h"
proof -
  have "well_typed (tree h) (controls h)" using inv by (simp add: tree_inv_def)
  from control_kids [OF this, of c d] ce nc have "kids (tree h) c = {}" by (simp add: tree_def)
  then have lc: "fe_lock ce = free_lock" using tree_inv_lock [OF inv ce] by (simp add: free_lock_def)
  let ?c1 = "ce\<lparr>fe_lock := \<lparr>lock_count = 1, lock_removed = False\<rparr>\<rparr>"
  let ?c2 = "ce\<lparr>fe_lock := \<lparr>lock_count = 0, lock_removed = True\<rparr>\<rparr>"
  let ?e2 = "e1\<lparr>fe_lock := \<lparr>lock_count = k, lock_removed = False\<rparr>\<rparr>"
  let ?h1 = "put_dev c ?c1 (put_dev d e1 h)"
  let ?h2 = "put_dev c ?c2 ?h1"
  have a: "acquire_lock c (put_dev d e1 h) = Some (?h1, STATUS_SUCCESS)"
    using ce cd lc by (simp add: acquire_lock_def Acquire_eq acquired_def free_lock_def)
  have w: "release_lock_and_wait c ?h1 = Some (?h2, True)"
    by (subst release_wait_eq [of _ _ ?c1 0]) simp_all
  have r: "release_lock d ?h2 = Some (put_dev d ?e2 ?h2)"
    using cd e1 by (simp add: release_lock_def IoReleaseRemoveLock_def)
  have "fe_parent ce = Some d" using node_of_kind(3) [of ce d] nc by simp
  then have "USBPcapDeleteRootHubControlDevice name c (put_dev d e1 h) =
      Some ((delete_dev c (put_dev d ?e2 ?h2))\<lparr>symlinks := symlinks h - {fe_id ce}\<rparr>, True)"
    using a w r name by (simp add: USBPcapDeleteRootHubControlDevice_def)
  then show thesis by (rule that) (use cd in auto)
qed

lemma remove_hub:
  assumes inv: "tree_inv at_rest h" and d: "devs h d = Some e" and n: "node_of e = HubNode r"
    and name: "NT_SUCCESS (pe_link_name env)" and kid: "kids (tree h) d = insert c K" "c \<notin> K"
    and re: "roots h r = Some re" "re_control re = Some c"
  shows "\<exists>h'. DkHubFltPnP env d REMOVE_DEVICE h =
      Some (h', if K = {} then PnpDone (pe_lower env) else PnpWaiting) \<and>
    (K = {} \<longrightarrow> tree_inv at_rest h' \<and> devs h' d = None)"
proof -
  obtain ce where ce: "devs h c = Some ce" "node_of ce = CtlNode d" "c \<noteq> d"
    using hub_control [OF inv d n] re by auto
  have "finite K" using kid inv finite_kids(1) [of h d] by (simp add: tree_inv_def)
  then have l: "fe_lock e = \<lparr>lock_count = Suc (card K), lock_removed = False\<rparr>"
    using tree_inv_lock [OF inv d] kid by simp
  let ?e1 = "e\<lparr>fe_lock := \<lparr>lock_count = Suc (Suc (card K)), lock_removed = False\<rparr>\<rparr>"
  let ?e2 = "e\<lparr>fe_lock := \<lparr>lock_count = Suc (card K), lock_removed = False\<rparr>\<rparr>"
  let ?e3 = "e\<lparr>fe_lock := \<lparr>lock_count = card K, lock_removed = True\<rparr>\<rparr>"
  have a: "acquire_lock d h = Some (put_dev d ?e1 h, STATUS_SUCCESS)"
    using d l by (simp add: acquire_lock_def Acquire_eq acquired_def)
  have "node_of ?e1 = HubNode r" using n by simp
  then have ctl: "control_device ?e1 (put_dev d ?e1 h) = Some (Some c)"
    using control_device_hub [of ?e1 r "put_dev d ?e1 h" re] re by simp
  obtain h2 where del: "USBPcapDeleteRootHubControlDevice (pe_link_name env) c (put_dev d ?e1 h) = Some (h2, True)"
    and h2: "devs h2 = (devs h)(d \<mapsto> ?e2, c := None)" "roots h2 = roots h"
      "symlinks h2 = symlinks h - {fe_id ce}" "fresh h2 = fresh h"
    using delete_control_eq [OF inv d n ce name, of ?e1 "Suc (card K)"] by auto
  have w: "release_lock_and_wait d h2 = Some (put_dev d ?e3 h2, card K = 0)"
    using h2 ce by (subst release_wait_eq [of _ _ ?e2 "card K"]) auto
  show ?thesis
  proof (cases "K = {}")
    case False
    then show ?thesis using \<open>finite K\<close> a ctl del w by (simp add: DkHubFltPnP_def)
  next
    case True
    obtain dd where dd: "fe_data e = Some dd" "fd_root dd = Some r" using node_of_root [of e r] n by auto
    have parent: "fe_parent e = None" "fe_next e"
      using node_of_parent [of e] node_of_kind(1) [OF n] n by simp_all
    have typed: "well_typed (tree h) (controls h)" using inv by (simp add: tree_inv_def)
    have user: "users (tree h) r = {d}"
      using hub_only_user [OF typed, of d r c] d n ce kid True by (simp add: tree_def)
    obtain re' where "roots h r = Some re'" "refCount (re_data re') = int (card (users (tree h) r))"
      using filter_root [OF inv d, of r] n by auto
    then have cnt: "refCount (re_data re) = 1" using re user by simp
    let ?h3 = "(put_dev d ?e3 h2)\<lparr>attached := (attached (put_dev d ?e3 h2))(d := None)\<rparr>"
    have f: "USBPcapFreeDeviceData d ?h3 = Some (put_dev d (?e3\<lparr>fe_data := None\<rparr>) (drop_reference r re ?h3))"
      using dd re h2 by (intro FreeDeviceData_eq [of _ _ ?e3 dd]) simp_all
    let ?h4 = "delete_dev d (put_dev d (?e3\<lparr>fe_data := None\<rparr>) (drop_reference r re ?h3))"
    have "DkDetachAndDelete d (put_dev d ?e3 h2) = Some ?h4"
      using parent f by (simp add: DkDetachAndDelete_def)
    then have "DkHubFltPnP env d REMOVE_DEVICE h = Some (?h4, PnpDone (pe_lower env))"
      using a ctl del w True by (simp add: DkHubFltPnP_def DkDetachAndDeleteHubFilt_def)
    moreover have "tree_inv at_rest ?h4"
    proof (rule remove_hub_inv [OF inv d n ce(1,2)])
      show "kids (tree h) d = {c}" using kid True by simp
      show "roots ?h4 = (roots h)(r := None)" using cnt h2 by (simp add: drop_reference_def)
      show "devs ?h4 = (devs h)(c := None, d := None)" using h2 ce by auto
    qed (use h2 in simp_all)
    ultimately show ?thesis using True by simp
  qed
qed

end
