(* ===== verification/DeviceTreeLife.thy ===== *)
theory DeviceTreeLife
  imports DeviceTreeInv
begin

text \<open>
  What the plug and play requests do to the tree of device objects: filters appear for new
  devices and disappear with them, and the invariant holds after every request.
\<close>

section \<open>New filters\<close>

lemma same_objects_inv:
  assumes "tree_inv held h" "devs h' = devs h" "roots h' = roots h" "symlinks h' = symlinks h"
    "fresh h \<le> fresh h'"
  shows "tree_inv held h'"
proof -
  have "tree h' = tree h" "controls h' = controls h" "link_of h' = link_of h"
    using assms by (auto simp: tree_def controls_def link_of_def)
  then show ?thesis
    using assms(1) unfolding tree_inv_def locks_ok_def refs_ok_def links_ok_def bounded_def assms(2-4)
    using assms(5) by (auto dest: order_less_le_trans)
qed

lemma fresh_new:
  assumes "tree_inv held h"
  shows "devs h (fresh h) = None" "roots h (fresh h) = None" "devs h (Suc (fresh h)) = None"
    "devs h d = Some e \<Longrightarrow> d < fresh h" "roots h r = Some re \<Longrightarrow> r < fresh h"
proof -
  have b: "devs h x = Some y \<Longrightarrow> x < fresh h" "roots h x = Some z \<Longrightarrow> x < fresh h" for x y z
    using assms by (auto simp: tree_inv_def bounded_def)
  then show "devs h d = Some e \<Longrightarrow> d < fresh h" "roots h r = Some re \<Longrightarrow> r < fresh h" by blast+
  show "devs h (fresh h) = None" by (cases "devs h (fresh h)") (auto dest: b)
  show "roots h (fresh h) = None" by (cases "roots h (fresh h)") (auto dest: b)
  show "devs h (Suc (fresh h)) = None" by (cases "devs h (Suc (fresh h))") (auto dest: b)
qed

lemma beyond_fresh: "tree_inv held h \<Longrightarrow> fresh h \<le> x \<Longrightarrow> devs h x = None \<and> roots h x = None"
  using fresh_new(4) [of held h x] fresh_new(5) [of held h x]
  by (cases "devs h x"; cases "roots h x") fastforce+

lemma node_typed_mono:
  assumes "node_typed T R x m" "\<And>y n. T y = Some n \<Longrightarrow> T' y = Some n" "\<And>r v. R r = Some v \<Longrightarrow> R' r = Some v"
  shows "node_typed T' R' x m"
proof (cases m)
  case (DevNode p r)
  then obtain n' where "p < x" "T p = Some n'" "node_root n' = Some r" "R r \<noteq> None"
    using assms(1) by (auto simp: node_typed_def)
  then show ?thesis using DevNode assms(2) [of p n'] assms(3) [of r] by (auto simp: node_typed_def)
qed (use assms in \<open>auto simp: node_typed_def, blast?\<close>)

text \<open>One more child filter, of a filter whose root hub data it shares.\<close>

definition one_more :: "root_entry \<Rightarrow> root_entry" where
  "one_more re = re\<lparr>re_data := (re_data re)\<lparr>refCount := refCount (re_data re) + 1\<rparr>\<rparr>"

lemma grow_inv:
  assumes inv: "tree_inv held h" and p: "devs h p = Some pe" "node_root (node_of pe) = Some r"
    and re: "roots h r = Some re" and held: "held (fresh h) = 0"
    and e: "node_of e = DevNode p r" "fe_lock e = free_lock"
    and h': "devs h' = (devs h)(fresh h \<mapsto> e, p \<mapsto> pe\<lparr>fe_lock := acquired (fe_lock pe)\<rparr>)"
      "roots h' = (roots h)(r \<mapsto> one_more re)" "symlinks h' = symlinks h" "fresh h' = Suc (fresh h)"
  shows "tree_inv held h' \<and> tree h' = (tree h)(fresh h \<mapsto> DevNode p r)"
proof -
  let ?T = "tree h" let ?d = "fresh h"
  note new = fresh_new [OF inv]
  have b: "bounded h" and typed: "well_typed ?T (controls h)" using inv by (simp_all add: tree_inv_def)
  have T: "?T ?d = None" "?T p = Some (node_of pe)" using new(1) p by (simp_all add: tree_def)
  have pd: "p < ?d" by (rule new(4) [OF p(1)])
  have T': "tree h' = ?T(?d \<mapsto> DevNode p r)"
    using h'(1) e p pd by (auto simp: tree_def fun_eq_iff)
  have R': "controls h' = controls h" using h'(2) re by (auto simp: controls_def one_more_def fun_eq_iff)
  have nokids: "kids ?T ?d = {}"
  proof -
    have False if "?T x = Some n" "node_parent n = Some ?d" for x n
      using typed that T by (cases n) (auto simp: well_typed_def node_typed_def dest!: spec [of _ x])
    then show ?thesis by (auto simp: kids_def)
  qed
  have "well_typed (tree h') (controls h')"
    unfolding T' R' well_typed_def
  proof (intro allI impI)
    fix x m assume x: "(?T(?d \<mapsto> DevNode p r)) x = Some m"
    show "node_typed (?T(?d \<mapsto> DevNode p r)) (controls h) x m"
    proof (cases "x = ?d")
      case True
      then show ?thesis using x T p re pd by (auto simp: node_typed_def controls_def)
    next
      case False
      then have m: "node_typed ?T (controls h) x m" using x typed by (simp add: well_typed_def)
      show ?thesis by (rule node_typed_mono [OF m]) (use T in auto)
    qed
  qed
  moreover have "locks_ok held h'"
    unfolding locks_ok_def T' kids_users_upd(1) [of ?T, OF T(1)]
  proof (intro allI impI)
    fix x ex assume x: "devs h' x = Some ex"
    have k: "kids ?T p \<union> {?d} = insert ?d (kids ?T p)" "?d \<notin> kids ?T p" using T by (auto simp: kids_def)
    have l: "fe_lock pe = \<lparr>lock_count = card (kids ?T p) + held p, lock_removed = False\<rparr>"
      using inv p by (rule_tac tree_inv_lock)
    consider "x = p" | "x = ?d" "x \<noteq> p" | "x \<noteq> p" "x \<noteq> ?d" by blast
    then show "fe_lock ex = \<lparr>lock_count = card (if node_parent (DevNode p r) = Some x
        then insert ?d (kids ?T x) else kids ?T x) + held x, lock_removed = False\<rparr>"
    proof cases
      case 1
      then show ?thesis using x h'(1) l k finite_kids(1) [OF b] by (auto simp: acquired_def)
    next
      case 2
      then show ?thesis using x h'(1) e held nokids pd by (simp add: free_lock_def)
    next
      case 3
      then show ?thesis using x h'(1) inv by (simp add: tree_inv_def locks_ok_def)
    qed
  qed
  moreover have "refs_ok h'"
  proof -
    have "?d \<notin> users ?T r" using T by (auto simp: users_def)
    then have "int (card (insert ?d (users ?T r))) = int (card (users ?T r)) + 1"
      using finite_kids(2) [OF b] by simp
    then show ?thesis
      using inv re unfolding refs_ok_def T' kids_users_upd(2) [of ?T, OF T(1)] h'(2)
      by (auto simp: tree_inv_def refs_ok_def one_more_def)
  qed
  moreover have "links_ok h'"
  proof -
    have "fe_magic e \<noteq> USBPCAP_MAGIC_CONTROL" using node_of_kind(2) [OF e(1)] by simp
    then have "link_of h' = link_of h"
      using h'(1) p pd new(1) by (auto simp: link_of_def fun_eq_iff)
    then show ?thesis using inv h'(3) by (simp add: tree_inv_def links_ok_def)
  qed
  moreover have "bounded h'"
    using b pd new(5) [OF re] by (auto simp: bounded_def h' intro: less_SucI dest: new(4,5))
  ultimately show ?thesis using T' by (simp add: tree_inv_def)
qed

text \<open>The heap after a failed attempt, whatever was allocated for it.\<close>

lemma allocate_child:
  assumes inv: "tree_inv held h" and p: "devs h p = Some pe" "node_root (node_of pe) = Some r"
    and re: "roots h r = Some re" and d: "devs h d = None" "p \<noteq> d" and ext: "fe_data ext = None"
  shows "USBPcapAllocateDeviceData env d (Some p) (put_dev d ext h) =
    (if ce_data env
     then Some (put_dev d (ext\<lparr>fe_data := Some \<lparr>fd_parent = Some p, previousChildren = None,
         fd_info = \<lparr>properData = False, parentPort = 0, isHub = False, usbAddress = 255\<rparr>,
         fd_endpointTable = USBPcapInitializeEndpointTable (ce_endpoints env),
         fd_URBIrpTable = USBPcapInitializeURBIRPInfoTable (ce_urbs env),
         fd_descriptor = None, fd_root = Some r\<rparr>\<rparr>) (put_root r (one_more re) (put_dev d ext h)), STATUS_SUCCESS)
     else Some (put_dev d ext (put_dev d ext h), STATUS_INSUFFICIENT_RESOURCES))"
proof -
  obtain dd where dd: "fe_data pe = Some dd" "fd_root dd = Some r" using node_of_root [OF p(2)] by blast
  have same: "ext\<lparr>fe_data := None\<rparr> = ext" using ext by (cases ext) simp
  show ?thesis
  proof (cases "ce_data env")
    case True
    have "obtain_root env (Some p) (put_dev d ext h) =
        Some (put_root r (one_more re) (put_dev d ext h), Some r)"
      using p d dd re by (simp add: obtain_root_def one_more_def)
    then show ?thesis using True by (simp add: USBPcapAllocateDeviceData_def)
  next
    case False
    then show ?thesis by (simp add: USBPcapAllocateDeviceData_def USBPcapFreeDeviceData_def same ext)
  qed
qed

abbreviation create_ok :: "create_env \<Rightarrow> bool" where
  "create_ok env \<equiv> NT_SUCCESS (ce_device env) \<and> ce_data env \<and> ce_attach env"

lemma drop_one_more:
  "roots h r = Some re \<Longrightarrow> refCount (re_data re) \<noteq> 0 \<Longrightarrow>
   roots (drop_reference r (one_more re) (put_root r (one_more re) h)) = roots h"
  by (auto simp: drop_reference_def one_more_def)

lemma create_target:
  assumes inv: "tree_inv held h" and p: "devs h p = Some pe" "node_root (node_of pe) = Some r"
    and held: "held (fresh h) = 0"
  obtains h' st where "DkCreateAndAttachTgt env p t h = Some (h', st)"
    "tree_inv held h'" "NT_SUCCESS st \<longleftrightarrow> create_ok env"
    "if create_ok env
     then fresh h' = Suc (fresh h) \<and> tree h' = (tree h)(fresh h \<mapsto> DevNode p r) \<and>
       attached h' = (attached h)(fresh h \<mapsto> t) \<and>
       devs h' p = Some (pe\<lparr>fe_lock := acquired (fe_lock pe)\<rparr>)
     else fresh h \<le> fresh h' \<and> devs h' = devs h \<and> roots h' = roots h \<and> attached h' = attached h"
proof -
  let ?d = "fresh h"
  note new = fresh_new [OF inv]
  have pd: "p < ?d" by (rule new(4) [OF p(1)])
  obtain re where re: "roots h r = Some re" "refCount (re_data re) \<noteq> 0"
    using filter_root [OF inv p] by (metis card_eq_0_iff empty_iff of_nat_eq_0_iff)
  let ?ext = "\<lparr>fe_magic = USBPCAP_MAGIC_DEVICE, fe_next = False, fe_lock = free_lock,
    fe_parent = Some p, fe_data = None, fe_id = 0, fe_hub = None\<rparr>"
  let ?h0 = "h\<lparr>fresh := Suc (fresh h)\<rparr>"
  have inv0: "tree_inv held ?h0" by (rule same_objects_inv [OF inv]) simp_all
  have nf: "new_filter USBPCAP_MAGIC_DEVICE (Some p) h = put_dev ?d ?ext ?h0"
    by (simp add: new_filter_def put_dev_def)
  let ?dd = "\<lparr>fd_parent = Some p, previousChildren = None,
    fd_info = \<lparr>properData = False, parentPort = 0, isHub = False, usbAddress = 255\<rparr>,
    fd_endpointTable = USBPcapInitializeEndpointTable (ce_endpoints env),
    fd_URBIrpTable = USBPcapInitializeURBIRPInfoTable (ce_urbs env),
    fd_descriptor = None, fd_root = Some r\<rparr>"
  let ?e1 = "?ext\<lparr>fe_data := Some ?dd\<rparr>"
  let ?h1 = "put_dev ?d ?e1 (put_root r (one_more re) (put_dev ?d ?ext ?h0))"
  have alloc: "USBPcapAllocateDeviceData env ?d (Some p) (put_dev ?d ?ext ?h0) =
      (if ce_data env then Some (?h1, STATUS_SUCCESS)
       else Some (put_dev ?d ?ext (put_dev ?d ?ext ?h0), STATUS_INSUFFICIENT_RESOURCES))"
    by (rule allocate_child [OF inv0]) (use p re new in auto)
  show thesis
  proof (cases "NT_SUCCESS (ce_device env)")
    case False
    then show ?thesis by (intro that [of h "ce_device env"]) (simp_all add: DkCreateAndAttachTgt_def inv)
  next
    case dev: True
    show ?thesis
    proof (cases "ce_data env")
      case False
      let ?h' = "delete_dev ?d (put_dev ?d ?ext (put_dev ?d ?ext ?h0))"
      have run: "DkCreateAndAttachTgt env p t h = Some (?h', STATUS_INSUFFICIENT_RESOURCES)"
        using dev False by (simp add: DkCreateAndAttachTgt_def nf alloc give_up_def USBPcapFreeDeviceData_def NT_SUCCESS_def Let_def)
      have "devs ?h' = devs h" using new(1) by auto
      then show ?thesis
        using False by (intro that [OF run]) (auto intro: same_objects_inv [OF inv] simp: NT_SUCCESS_def)
    next
      case data: True
      show ?thesis
      proof (cases "ce_attach env")
        case False
        let ?h' = "delete_dev ?d (put_dev ?d (?e1\<lparr>fe_data := None\<rparr>) (drop_reference r (one_more re) ?h1))"
        have "USBPcapFreeDeviceData ?d ?h1 =
            Some (put_dev ?d (?e1\<lparr>fe_data := None\<rparr>) (drop_reference r (one_more re) ?h1))"
          by (rule FreeDeviceData_eq [of _ _ ?e1 ?dd]) simp_all
        then have run: "DkCreateAndAttachTgt env p t h = Some (?h', STATUS_NO_SUCH_DEVICE)"
          using dev data False by (simp add: DkCreateAndAttachTgt_def nf alloc give_up_def NT_SUCCESS_def Let_def)
        have "roots ?h' = roots h" using re by (auto simp: drop_reference_def one_more_def)
        moreover have "devs ?h' = devs h" using new(1) by auto
        ultimately show ?thesis
          using False by (intro that [OF run]) (auto intro: same_objects_inv [OF inv] simp: NT_SUCCESS_def)
      next
        case True
        let ?e2 = "?e1\<lparr>fe_next := True\<rparr>"
        let ?pe = "pe\<lparr>fe_lock := acquired (fe_lock pe)\<rparr>"
        let ?h2 = "(put_dev ?d ?e2 ?h1)\<lparr>attached := (attached h)(?d \<mapsto> t)\<rparr>"
        have att: "attach_filter ?d t ?h1 = Some ?h2" by (simp add: attach_filter_def)
        have acq: "acquire_lock p ?h2 = Some (put_dev p ?pe ?h2, STATUS_SUCCESS)"
          using p pd tree_inv_lock [OF inv p(1)] by (simp add: acquire_lock_def Acquire_eq)
        have run: "DkCreateAndAttachTgt env p t h = Some (put_dev p ?pe ?h2, STATUS_SUCCESS)"
          using dev data True att acq by (simp add: DkCreateAndAttachTgt_def nf alloc NT_SUCCESS_def Let_def)
        have "tree_inv held (put_dev p ?pe ?h2) \<and> tree (put_dev p ?pe ?h2) = (tree h)(?d \<mapsto> DevNode p r)"
          by (rule grow_inv [OF inv p re(1) held, of ?e2]) (simp_all add: node_of_def)
        then show ?thesis
          using dev data True by (intro that [OF run]) (auto simp: NT_SUCCESS_def)
      qed
    qed
  qed
qed

section \<open>The children of a hub\<close>

definition known :: "u64 list option \<Rightarrow> u64 \<Rightarrow> bool" where
  "known previous c = (case previous of None \<Rightarrow> False | Some ps \<Rightarrow> c \<in> set ps)"

text \<open>Nothing but the lock of the hub's filter changes in the objects that were there.\<close>

lemma attach_new_ok:
  assumes "tree_inv held h" "devs h p = Some pe" "node_root (node_of pe) = Some r"
    "\<forall>x\<ge>fresh h. held x = 0"
  shows "\<exists>h' l. attach_new envs p previous i cs h = Some h' \<and> tree_inv held h' \<and>
    devs h' p = Some (pe\<lparr>fe_lock := l\<rparr>) \<and> fresh h \<le> fresh h'"
  using assms
proof (induction cs arbitrary: i h pe)
  case Nil
  then show ?case by (auto intro: exI [of _ "fe_lock pe"])
next
  case (Cons c cs)
  note prems = Cons.prems
  show ?case
  proof (cases "known previous c")
    case True
    then show ?thesis using Cons.IH [OF prems] by (auto simp: known_def)
  next
    case False
    have held0: "held (fresh h) = 0" using prems(4) by simp
    obtain h1 st where h1: "DkCreateAndAttachTgt (envs i) p c h = Some (h1, st)" "tree_inv held h1"
      "NT_SUCCESS st \<longleftrightarrow> create_ok (envs i)"
      and res: "if create_ok (envs i)
       then fresh h1 = Suc (fresh h) \<and> tree h1 = (tree h)(fresh h \<mapsto> DevNode p r) \<and>
         attached h1 = (attached h)(fresh h \<mapsto> c) \<and> devs h1 p = Some (pe\<lparr>fe_lock := acquired (fe_lock pe)\<rparr>)
       else fresh h \<le> fresh h1 \<and> devs h1 = devs h \<and> roots h1 = roots h \<and> attached h1 = attached h"
      by (rule create_target [OF prems(1-3) held0, of "envs i" c])
    obtain l1 where l1: "devs h1 p = Some (pe\<lparr>fe_lock := l1\<rparr>)" "fresh h \<le> fresh h1"
    proof (cases "create_ok (envs i)")
      case True
      then show thesis using res by (intro that) auto
    next
      case False
      then show thesis using res prems(2) by (intro that [of "fe_lock pe"]) auto
    qed
    obtain h' l where "attach_new envs p previous (Suc i) cs h1 = Some h'" "tree_inv held h'"
      "devs h' p = Some (pe\<lparr>fe_lock := l\<rparr>)" "fresh h1 \<le> fresh h'"
      using Cons.IH [OF h1(2) l1(1), of "Suc i"] prems(3,4) l1(2) by auto
    then show ?thesis using h1(1) False l1(2) by (auto simp: known_def split: option.splits)
  qed
qed

text \<open>When nothing fails, there is one new filter for each new child, attached to it.\<close>

definition gained :: "heap \<Rightarrow> nat \<Rightarrow> u64 list \<Rightarrow> heap \<Rightarrow> bool" where
  "gained h p new h' \<longleftrightarrow> fresh h' = fresh h + length new \<and>
     kids (tree h') p = kids (tree h) p \<union> {fresh h ..< fresh h + length new} \<and>
     (\<forall>x. attached h' x = (if x \<in> {fresh h ..< fresh h + length new}
        then Some (new ! (x - fresh h)) else attached h x))"

lemma attach_new_exact:
  assumes "tree_inv held h" "devs h p = Some pe" "node_root (node_of pe) = Some r"
    "\<forall>x\<ge>fresh h. held x = 0" "\<forall>k. create_ok (envs k)"
    "attach_new envs p previous i cs h = Some h'"
  shows "gained h p (filter (\<lambda>c. \<not> known previous c) cs) h'"
  using assms
proof (induction cs arbitrary: i h pe)
  case Nil
  then show ?case by (auto simp: gained_def)
next
  case (Cons c cs)
  note prems = Cons.prems
  show ?case
  proof (cases "known previous c")
    case True
    then have "attach_new envs p previous (Suc i) cs h = Some h'"
      using prems(6) by (auto simp: known_def split: option.splits)
    then show ?thesis using Cons.IH [OF prems(1-5)] True by simp
  next
    case False
    have held0: "held (fresh h) = 0" using prems(4) by simp
    obtain h1 st where h1: "DkCreateAndAttachTgt (envs i) p c h = Some (h1, st)" "tree_inv held h1"
      "NT_SUCCESS st \<longleftrightarrow> create_ok (envs i)"
      and res': "if create_ok (envs i)
       then fresh h1 = Suc (fresh h) \<and> tree h1 = (tree h)(fresh h \<mapsto> DevNode p r) \<and>
         attached h1 = (attached h)(fresh h \<mapsto> c) \<and> devs h1 p = Some (pe\<lparr>fe_lock := acquired (fe_lock pe)\<rparr>)
       else fresh h \<le> fresh h1 \<and> devs h1 = devs h \<and> roots h1 = roots h \<and> attached h1 = attached h"
      by (rule create_target [OF prems(1-3) held0, of "envs i" c])
    then have res: "fresh h1 = Suc (fresh h)" "tree h1 = (tree h)(fresh h \<mapsto> DevNode p r)"
         "attached h1 = (attached h)(fresh h \<mapsto> c)" "devs h1 p = Some (pe\<lparr>fe_lock := acquired (fe_lock pe)\<rparr>)"
      using prems(5) by simp_all
    have "attach_new envs p previous (Suc i) cs h1 = Some h'"
      using prems(6) h1(1) False by (auto simp: known_def split: option.splits)
    then have IH: "gained h1 p (filter (\<lambda>c. \<not> known previous c) cs) h'"
      using Cons.IH [OF h1(2) res(4), of "Suc i"] prems(3,4,5) res(1) by simp
    have "tree h (fresh h) = None" using fresh_new(1) [OF prems(1)] by (simp add: tree_def)
    then have "kids (tree h1) p = insert (fresh h) (kids (tree h) p)"
      by (simp add: res(2) kids_users_upd)
    moreover have "(c # filter (\<lambda>c. \<not> known previous c) cs) ! (x - fresh h) =
        filter (\<lambda>c. \<not> known previous c) cs ! (x - Suc (fresh h))" if "fresh h < x" for x
      using that by (auto simp: less_iff_Suc_add Suc_diff_le)
    ultimately show ?thesis using IH False res(1,3) by (auto simp: gained_def)
  qed
qed

section \<open>The queries and the start of a device\<close>

text \<open>Updates that keep the lock and the references of a filter.\<close>

lemma put_data_ok:
  assumes inv: "tree_inv held h" and d: "devs h d = Some e" "fe_data e = Some dd"
    and same: "fd_root dd' = fd_root dd" "fd_parent dd' = fd_parent dd"
  shows "tree_inv held (put_dev d (e\<lparr>fe_data := Some dd'\<rparr>) h)"
    and "node_of (e\<lparr>fe_data := Some dd'\<rparr>) = node_of e"
proof -
  show n: "node_of (e\<lparr>fe_data := Some dd'\<rparr>) = node_of e"
    using d same by (simp add: node_of_def cong: option.case_cong if_cong)
  have "tree_inv (held(d := held d)) (put_dev d (e\<lparr>fe_data := Some dd'\<rparr>) h)"
    by (rule tree_inv_put [OF inv d(1) n]) (use tree_inv_lock [OF inv d(1)] in simp_all)
  then show "tree_inv held (put_dev d (e\<lparr>fe_data := Some dd'\<rparr>) h)" by simp
qed

lemma put_root_ok:
  assumes inv: "tree_inv held h" and r: "roots h r = Some re"
    and same: "refCount (re_data re') = refCount (re_data re)" "re_control re' = re_control re"
  shows "tree_inv held (put_root r re' h)"
proof -
  have "tree (put_root r re' h) = tree h" "link_of (put_root r re' h) = link_of h"
    by (simp_all add: tree_put_dev link_of_put)
  moreover have "controls (put_root r re' h) = controls h"
    using r same by (auto simp: controls_put) (auto simp: controls_def)
  ultimately show ?thesis
    using inv r same
    by (auto simp: tree_inv_def locks_ok_def refs_ok_def links_ok_def bounded_def)
qed

text \<open>
  A relations query keeps the invariant; one for the bus relations that succeeds with nothing
  failing adds exactly the filters of the new children and remembers the children.
\<close>

lemma query_relations_ok:
  assumes inv: "tree_inv held h" and d: "devs h d = Some e" "node_root (node_of e) = Some r"
    and dd: "fe_data e = Some dd" and held: "\<forall>x\<ge>fresh h. held x = 0"
  obtains h' st e' where "DkHubFltPnpHandleQryDevRels env d bus h = Some (h', st)"
    "tree_inv held h'" "devs h' d = Some e'" "fe_magic e' = fe_magic e"
    "\<And>cs. bus \<Longrightarrow> NT_SUCCESS (pe_lower env) \<Longrightarrow> pe_relations env = Some cs \<Longrightarrow>
       \<forall>k. create_ok (pe_create env k) \<Longrightarrow>
       gained h d (filter (\<lambda>c. \<not> known (previousChildren dd) c) cs) h' \<and>
       fe_data e' = Some (dd\<lparr>previousChildren := if cs \<noteq> [] \<and> pe_children_pool env then Some cs else None\<rparr>)"
    "bus \<Longrightarrow> st = pe_lower env"
proof -
  let ?held = "held(d := Suc (held d))"
  have df: "d < fresh h" by (rule fresh_new(4) [OF inv d(1)])
  obtain e1 where e1: "acquire_lock d h = Some (put_dev d e1 h, STATUS_SUCCESS)"
    "e1 = e\<lparr>fe_lock := acquired (fe_lock e)\<rparr>" "tree_inv ?held (put_dev d e1 h)"
    "tree (put_dev d e1 h) = tree h"
    using acquire_lock_ok [OF inv d(1)] by auto
  let ?h1 = "put_dev d e1 h"
  have d1: "devs ?h1 d = Some e1" "fe_data e1 = Some dd" "node_root (node_of e1) = Some r"
    "fe_magic e1 = fe_magic e" using e1(2) dd d(2) by simp_all
  let ?dd = "\<lambda>cs. dd\<lparr>previousChildren := if cs \<noteq> [] \<and> pe_children_pool env then Some cs else None\<rparr>"
  let ?step = "if bus \<and> NT_SUCCESS (pe_lower env)
    then (case pe_relations env of
        None \<Rightarrow> Some ?h1
      | Some cs \<Rightarrow> do {
          h' \<leftarrow> attach_new (pe_create env) d (previousChildren dd) 0 cs ?h1;
          put_children d (if cs \<noteq> [] \<and> pe_children_pool env then Some cs else None) h' })
    else Some ?h1"
  have "\<exists>h2 e2. ?step = Some h2 \<and> tree_inv ?held h2 \<and> devs h2 d = Some e2 \<and> fe_magic e2 = fe_magic e \<and>
      (\<forall>cs. bus \<and> NT_SUCCESS (pe_lower env) \<and> pe_relations env = Some cs \<and>
        (\<forall>k. create_ok (pe_create env k)) \<longrightarrow>
        gained h d (filter (\<lambda>c. \<not> known (previousChildren dd) c) cs) h2 \<and> fe_data e2 = Some (?dd cs))"
  proof (cases "\<exists>cs. bus \<and> NT_SUCCESS (pe_lower env) \<and> pe_relations env = Some cs")
    case False
    then have "?step = Some ?h1" by (auto split: option.splits)
    then show ?thesis using e1(3) d1 False by auto
  next
    case True
    then obtain cs where cs: "bus" "NT_SUCCESS (pe_lower env)" "pe_relations env = Some cs" by blast
    have held1: "\<forall>x\<ge>fresh ?h1. ?held x = 0" using held df by simp
    obtain h2 l where h2: "attach_new (pe_create env) d (previousChildren dd) 0 cs ?h1 = Some h2"
      "tree_inv ?held h2" "devs h2 d = Some (e1\<lparr>fe_lock := l\<rparr>)"
      using attach_new_ok [OF e1(3) d1(1,3) held1, of "pe_create env" "previousChildren dd" 0 cs] by blast
    let ?e2 = "e1\<lparr>fe_lock := l, fe_data := Some (?dd cs)\<rparr>"
    have dd2: "fe_data (e1\<lparr>fe_lock := l\<rparr>) = Some dd" using d1(2) by simp
    have step: "?step = Some (put_dev d ?e2 h2)"
      using cs h2(1,3) dd2 by (simp add: put_children_def)
    have inv2: "tree_inv ?held (put_dev d ?e2 h2)"
      by (rule put_data_ok(1) [OF h2(2,3) dd2]) simp_all
    have "node_of ?e2 = node_of (e1\<lparr>fe_lock := l\<rparr>)"
      by (rule put_data_ok(2) [OF h2(2,3) dd2]) simp_all
    then have tree2: "tree (put_dev d ?e2 h2) = tree h2" by (rule tree_put_same [OF h2(3)])
    have "gained h d (filter (\<lambda>c. \<not> known (previousChildren dd) c) cs) (put_dev d ?e2 h2)"
      if "\<forall>k. create_ok (pe_create env k)"
      using attach_new_exact [OF e1(3) d1(1,3) held1 that h2(1)] by (simp add: gained_def tree2 e1(4))
    then show ?thesis
      using step inv2 cs d1(4) by (intro exI [of _ "put_dev d ?e2 h2"] exI [of _ ?e2]) simp
  qed
  then obtain h2 e2 where h2: "?step = Some h2" "tree_inv ?held h2" "devs h2 d = Some e2"
    "fe_magic e2 = fe_magic e"
    and exact: "\<And>cs. bus \<Longrightarrow> NT_SUCCESS (pe_lower env) \<Longrightarrow> pe_relations env = Some cs \<Longrightarrow>
        \<forall>k. create_ok (pe_create env k) \<Longrightarrow>
        gained h d (filter (\<lambda>c. \<not> known (previousChildren dd) c) cs) h2 \<and> fe_data e2 = Some (?dd cs)"
    by blast
  obtain e3 where e3: "release_lock d h2 = Some (put_dev d e3 h2)" "tree_inv (?held(d := held d)) (put_dev d e3 h2)"
    "tree (put_dev d e3 h2) = tree h2" "e3 = e2\<lparr>fe_lock := fe_lock e3\<rparr>"
    using release_lock_ok [OF h2(2,3), of "held d"] by auto
  have keep: "fe_magic e3 = fe_magic e" "fe_data e3 = fe_data e2"
    by (subst e3(4), simp add: h2(4)) (subst e3(4), simp)
  have run: "DkHubFltPnpHandleQryDevRels env d bus h =
      Some (put_dev d e3 h2, if bus then pe_lower env else forward_status env e1)"
    unfolding DkHubFltPnpHandleQryDevRels_def using e1(1) d1(1,2) h2(1) e3(1) by simp
  show thesis
  proof (rule that [OF run])
    show "tree_inv held (put_dev d e3 h2)" using e3(2) by simp
    show "devs (put_dev d e3 h2) d = Some e3" by simp
    show "fe_magic e3 = fe_magic e" by (rule keep)
    show "gained h d (filter (\<lambda>c. \<not> known (previousChildren dd) c) cs) (put_dev d e3 h2) \<and>
        fe_data e3 = Some (?dd cs)"
      if "bus" "NT_SUCCESS (pe_lower env)" "pe_relations env = Some cs"
        "\<forall>k. create_ok (pe_create env k)" for cs
      using exact [OF that] by (simp add: gained_def e3(3) keep(2))
  qed simp
qed

lemma query_relations_inv:
  assumes "tree_inv held h" "devs h d = Some e" "node_root (node_of e) = Some r"
    "fe_data e = Some dd" "\<forall>x\<ge>fresh h. held x = 0"
  shows "\<exists>h' st e'. DkHubFltPnpHandleQryDevRels env d bus h = Some (h', st) \<and> tree_inv held h' \<and>
    devs h' d = Some e'"
  by (rule query_relations_ok [OF assms, of env bus]) (intro exI conjI)

lemma query_relations_exact:
  assumes inv: "tree_inv held h" "devs h d = Some e" "node_root (node_of e) = Some r"
    "fe_data e = Some dd" "\<forall>x\<ge>fresh h. held x = 0"
    and env: "NT_SUCCESS (pe_lower env)" "pe_relations env = Some cs" "\<forall>k. create_ok (pe_create env k)"
  shows "\<exists>h' e'. DkHubFltPnpHandleQryDevRels env d True h = Some (h', pe_lower env) \<and>
    tree_inv held h' \<and> devs h' d = Some e' \<and> fe_magic e' = fe_magic e \<and>
    gained h d (filter (\<lambda>c. \<not> known (previousChildren dd) c) cs) h' \<and>
    fe_data e' = Some (dd\<lparr>previousChildren := if cs \<noteq> [] \<and> pe_children_pool env then Some cs else None\<rparr>)"
proof (rule query_relations_ok [OF inv, of env True], goal_cases)
  case (1 h' st e')
  have "st = pe_lower env" using 1(6) by simp
  then show ?case using 1(1-4) 1(5) [OF TrueI env] by blast
qed

lemma start_target_ok:
  assumes inv: "tree_inv held h" and d: "devs h d = Some e" "node_root (node_of e) = Some r"
    and query: "\<And>info flt. USBPcapGetDeviceUSBInfo (pe_upcase env) (pe_hub env) (pe_device env) info flt \<noteq> None"
  shows "\<exists>h' e'. start_target env d h = Some h' \<and> tree_inv held h' \<and> devs h' d = Some e'"
proof -
  obtain dd where dd: "fe_data e = Some dd" "fd_root dd = Some r" using node_of_root [OF d(2)] by blast
  obtain re where re: "roots h r = Some re" using filter_root [OF inv d] by blast
  obtain info flt st where q: "USBPcapGetDeviceUSBInfo (pe_upcase env) (pe_hub env) (pe_device env)
      (fd_info dd) (addr_filter (re_data re)) = Some (info, flt, st)"
    using query by (metis not_Some_eq prod_cases3)
  let ?e = "e\<lparr>fe_data := Some (dd\<lparr>fd_info := info\<rparr>)\<rparr>"
  let ?h = "put_root r (re\<lparr>re_data := (re_data re)\<lparr>addr_filter := flt\<rparr>\<rparr>) (put_dev d ?e h)"
  have "start_target env d h = Some ?h" using d(1) dd re q by (simp add: start_target_def)
  moreover have "tree_inv held (put_dev d ?e h)"
    by (rule put_data_ok(1) [OF inv d(1) dd(1)]) (use dd in simp_all)
  then have "tree_inv held ?h" by (rule put_root_ok) (use re in simp_all)
  ultimately show ?thesis by auto
qed

section \<open>Adding a root hub\<close>

text \<open>A new root hub filter, its root hub data and its control device.\<close>

lemma add_hub_inv:
  assumes inv: "tree_inv at_rest h"
    and d: "d = fresh h" and r: "r = Suc d" and c: "c = Suc r"
    and e: "node_of e = HubNode r" "fe_lock e = \<lparr>lock_count = 1, lock_removed = False\<rparr>"
    and ce: "node_of ce = CtlNode d" "fe_lock ce = free_lock" "fe_id ce \<notin> symlinks h"
    and re: "refCount (re_data re) = 1" "re_control re = Some c"
    and h': "devs h' = (devs h)(d \<mapsto> e, c \<mapsto> ce)" "roots h' = (roots h)(r \<mapsto> re)"
      "symlinks h' = insert (fe_id ce) (symlinks h)" "fresh h' = Suc c"
  shows "tree_inv at_rest h'"
proof -
  let ?T = "tree h"
  note new = fresh_new(4,5) [OF inv]
  have b: "bounded h" and typed: "well_typed ?T (controls h)" using inv by (simp_all add: tree_inv_def)
  have T: "?T d = None" "?T c = None" "controls h r = None"
    using beyond_fresh [OF inv, of d] beyond_fresh [OF inv, of c] beyond_fresh [OF inv, of r] d r c
    by (simp_all add: tree_def controls_def)
  have T': "tree h' = ?T(d \<mapsto> HubNode r, c \<mapsto> CtlNode d)"
    using h'(1) e(1) ce(1) by (auto simp: tree_def fun_eq_iff)
  have R': "controls h' = (controls h)(r \<mapsto> Some c)" using h'(2) re by (auto simp: controls_def fun_eq_iff)
  have typed_new: "node_typed ?T (controls h) x m" if "?T x = Some m" for x m
    using typed that by (simp add: well_typed_def)
  have away: "node_parent m \<noteq> Some d \<and> node_parent m \<noteq> Some c \<and> node_root m \<noteq> Some r" if "?T x = Some m" for x m
    using typed_new [OF that] T by (cases m) (auto simp: node_typed_def)
  then have none: "kids ?T d = {}" "kids ?T c = {}" "users ?T r = {}"
    by (auto simp: kids_def users_def)
  have "well_typed (tree h') (controls h')"
    unfolding T' R' well_typed_def
  proof (intro allI impI)
    fix x m assume x: "(?T(d \<mapsto> HubNode r, c \<mapsto> CtlNode d)) x = Some m"
    have "(x = d \<and> m = HubNode r) \<or> (x = c \<and> m = CtlNode d) \<or> ?T x = Some m"
      using x by (cases "x = c"; cases "x = d") simp_all
    then consider "x = d" "m = HubNode r" | "x = c" "m = CtlNode d" | "?T x = Some m" by blast
    then show "node_typed (?T(d \<mapsto> HubNode r, c \<mapsto> CtlNode d)) ((controls h)(r \<mapsto> Some c)) x m"
    proof cases
      case 3
      show ?thesis by (rule node_typed_mono [OF typed_new [OF 3]]) (use T in auto)
    qed (use r c in \<open>auto simp: node_typed_def\<close>)
  qed
  moreover have "locks_ok at_rest h'"
  proof -
    have "kids (tree h') x = (if x = d then {c} else kids ?T x)" for x
      using T none r c by (auto simp: T' kids_users_upd)
    then show ?thesis
      using inv e(2) ce(2) none r c h'(1) by (auto simp: tree_inv_def locks_ok_def free_lock_def)
  qed
  moreover have "refs_ok h'"
  proof -
    have "users (tree h') x = (if x = r then {d} else users ?T x)" for x
      using T none r c by (auto simp: T' kids_users_upd)
    then show ?thesis using inv re h'(2) by (auto simp: tree_inv_def refs_ok_def)
  qed
  moreover have "links_ok h'"
  proof -
    have lk: "link_of h' = (link_of h)(c \<mapsto> fe_id ce)"
      using h'(1) node_of_kind(1) [OF e(1)] node_of_kind(3) [of ce d] ce(1) T r c
      by (auto simp: link_of_def tree_def fun_eq_iff)
    have lc: "link_of h c = None" using T by (simp add: link_of_def tree_def)
    have "fe_id ce \<notin> ran (link_of h)" "inj_on (link_of h) (dom (link_of h))"
      using inv ce(3) by (simp_all add: tree_inv_def links_ok_def)
    then have "inj_on (link_of h') (dom (link_of h'))" by (auto simp: lk inj_on_def ran_def)
    moreover have "ran (link_of h') = insert (fe_id ce) (ran (link_of h))" using lc by (simp add: lk)
    ultimately show ?thesis using inv h'(3) by (simp add: tree_inv_def links_ok_def)
  qed
  moreover have "bounded h'"
    using b d r c by (auto simp: bounded_def h' dest: new)
  ultimately show ?thesis by (simp add: tree_inv_def)
qed

text \<open>Everything that a root hub needs could be created.\<close>

definition control_ok :: "create_env \<Rightarrow> heap \<Rightarrow> bool" where
  "control_ok env h \<longleftrightarrow> NT_SUCCESS (ce_ntname env) \<and> NT_SUCCESS (ce_symname env) \<and>
     NT_SUCCESS (ce_control env) \<and> NT_SUCCESS (symlink_status env (ucast (controlId h + 1)) h) \<and>
     NT_SUCCESS (ce_csq env)"

definition hub_ok :: "create_env \<Rightarrow> heap \<Rightarrow> bool" where
  "hub_ok env h \<longleftrightarrow> create_ok env \<and> ce_root env \<and> control_ok env h"

lemma create_control_fails:
  assumes "\<not> control_ok env h" "devs h (fresh h) = None"
  obtains h' st n where "USBPcapCreateRootHubControlDevice env d h = Some (h', st, None, n)"
    "\<not> NT_SUCCESS st" "devs h' = devs h" "roots h' = roots h" "symlinks h' = symlinks h"
    "attached h' = attached h" "fresh h \<le> fresh h'"
proof -
  have notin: "ucast (controlId h + 1) \<notin> symlinks h"
    if "NT_SUCCESS (symlink_status env (ucast (controlId h + 1)) h)"
    using that by (auto simp: symlink_status_def NT_SUCCESS_def split: if_splits)
  have "\<exists>h' st n. USBPcapCreateRootHubControlDevice env d h = Some (h', st, None, n) \<and>
    \<not> NT_SUCCESS st \<and> devs h' = devs h \<and> roots h' = roots h \<and> symlinks h' = symlinks h \<and>
    attached h' = attached h \<and> fresh h \<le> fresh h'"
  proof (cases "NT_SUCCESS (ce_ntname env) \<and> NT_SUCCESS (ce_symname env) \<and> NT_SUCCESS (ce_control env) \<and>
      NT_SUCCESS (symlink_status env (ucast (controlId h + 1)) h)")
    case True
    have "symlink_status env n (h\<lparr>controlId := m\<rparr>) = symlink_status env n h" for n m
      by (simp add: symlink_status_def)
    then show ?thesis
      using True notin assms by (auto simp: USBPcapCreateRootHubControlDevice_def control_ok_def Let_def)
  next
    case False
    have "symlink_status env n (h\<lparr>controlId := m\<rparr>) = symlink_status env n h" for n m
      by (simp add: symlink_status_def)
    then show ?thesis
      using False by (auto simp: USBPcapCreateRootHubControlDevice_def Let_def)
  qed
  then show thesis using that by blast
qed

lemma create_control_ok:
  assumes "control_ok env h" "devs h d = Some e" "fe_lock e = free_lock" "d \<noteq> fresh h"
  obtains h' st ce where
    "USBPcapCreateRootHubControlDevice env d h = Some (h', st, Some (fresh h), ucast (controlId h + 1))"
    "NT_SUCCESS st" "node_of ce = CtlNode d" "fe_lock ce = free_lock"
    "fe_id ce = ucast (controlId h + 1)" "fe_id ce \<notin> symlinks h"
    "devs h' = (devs h)(fresh h \<mapsto> ce, d \<mapsto> e\<lparr>fe_lock := \<lparr>lock_count = 1, lock_removed = False\<rparr>\<rparr>)"
    "roots h' = roots h" "symlinks h' = insert (fe_id ce) (symlinks h)" "fresh h' = Suc (fresh h)"
    "attached h' = attached h"
proof -
  let ?n = "ucast (controlId h + 1) :: u16"
  let ?ce = "\<lparr>fe_magic = USBPCAP_MAGIC_CONTROL, fe_next = False, fe_lock = free_lock,
    fe_parent = Some d, fe_data = None, fe_id = ?n, fe_hub = Some d\<rparr>"
  let ?h1 = "(put_dev (fresh h) ?ce (h\<lparr>controlId := controlId h + 1\<rparr>))\<lparr>fresh := fresh h + 1, symlinks := insert ?n (symlinks h)\<rparr>"
  let ?e = "e\<lparr>fe_lock := \<lparr>lock_count = 1, lock_removed = False\<rparr>\<rparr>"
  have notin: "?n \<notin> symlinks h"
    using assms(1) by (auto simp: control_ok_def symlink_status_def NT_SUCCESS_def split: if_splits)
  have ss: "symlink_status env n (h\<lparr>controlId := m\<rparr>) = symlink_status env n h" for n m
    by (simp add: symlink_status_def)
  have acq: "acquire_lock d ?h1 = Some (put_dev d ?e ?h1, STATUS_SUCCESS)"
    using assms by (simp add: acquire_lock_def Acquire_eq acquired_def free_lock_def)
  have run: "USBPcapCreateRootHubControlDevice env d h =
      Some (put_dev d ?e ?h1, ce_csq env, Some (fresh h), ?n)"
    using assms(1) acq unfolding USBPcapCreateRootHubControlDevice_def Let_def
    by (simp add: control_ok_def ss)
  show thesis
    by (rule that [OF run, of ?ce]) (use assms notin in \<open>simp_all add: control_ok_def node_of_def\<close>)
qed

lemma allocate_hub:
  assumes "fe_data ext = None" "fresh h \<noteq> d"
  shows "USBPcapAllocateDeviceData env d None (put_dev d ext h) =
    (if \<not> ce_data env then Some (put_dev d ext (put_dev d ext h), STATUS_INSUFFICIENT_RESOURCES)
     else if \<not> ce_root env then
       Some (put_dev d ext (put_dev d (ext\<lparr>fe_data := Some \<lparr>fd_parent = None, previousChildren = None,
         fd_info = \<lparr>properData = False, parentPort = 0, isHub = True, usbAddress = 255\<rparr>,
         fd_endpointTable = USBPcapInitializeEndpointTable (ce_endpoints env),
         fd_URBIrpTable = USBPcapInitializeURBIRPInfoTable (ce_urbs env),
         fd_descriptor = None, fd_root = None\<rparr>\<rparr>) (put_dev d ext h)), STATUS_INSUFFICIENT_RESOURCES)
     else Some (put_dev d (ext\<lparr>fe_data := Some \<lparr>fd_parent = None, previousChildren = None,
         fd_info = \<lparr>properData = False, parentPort = 0, isHub = True, usbAddress = 255\<rparr>,
         fd_endpointTable = USBPcapInitializeEndpointTable (ce_endpoints env),
         fd_URBIrpTable = USBPcapInitializeURBIRPInfoTable (ce_urbs env),
         fd_descriptor = None, fd_root = Some (fresh h)\<rparr>\<rparr>)
         ((put_root (fresh h) \<lparr>re_data = root_data_init (ce_junk env), re_control = None\<rparr>
            (put_dev d ext h))\<lparr>fresh := fresh h + 1\<rparr>), STATUS_SUCCESS))"
proof -
  have same: "ext\<lparr>fe_data := None\<rparr> = ext" using assms(1) by (cases ext) simp
  show ?thesis
    using assms by (simp add: USBPcapAllocateDeviceData_def obtain_root_def USBPcapFreeDeviceData_def same)
qed

lemma hub_ok_fields: "controlId h' = controlId h \<Longrightarrow> symlinks h' = symlinks h \<Longrightarrow> control_ok env h' = control_ok env h"
  by (simp add: control_ok_def symlink_status_def)

text \<open>A root hub is added completely or, but for its place in the device stack, not at all.\<close>

lemma AddDevice_outcome:
  assumes inv: "tree_inv at_rest h"
  obtains h' st where "AddDevice True env t h = Some (h', st)" "tree_inv at_rest h'"
    "NT_SUCCESS st \<longleftrightarrow> hub_ok env h"
    "if hub_ok env h
     then tree h' = (tree h)(fresh h \<mapsto> HubNode (Suc (fresh h)), Suc (Suc (fresh h)) \<mapsto> CtlNode (fresh h)) \<and>
       symlinks h' = insert (ucast (controlId h + 1)) (symlinks h) \<and>
       attached h' = (attached h)(fresh h \<mapsto> t)
     else devs h' = devs h \<and> roots h' = roots h \<and> symlinks h' = symlinks h \<and>
       attached h' = (if create_ok env \<and> ce_root env then (attached h)(fresh h \<mapsto> t) else attached h)"
proof -
  let ?d = "fresh h" let ?r = "Suc (fresh h)"
  note new = fresh_new [OF inv]
  have new_r: "roots h ?r = None" using beyond_fresh [OF inv, of ?r] by simp
  let ?ext = "\<lparr>fe_magic = USBPCAP_MAGIC_ROOTHUB, fe_next = False, fe_lock = free_lock,
    fe_parent = None, fe_data = None, fe_id = 0, fe_hub = None\<rparr>"
  let ?h0 = "h\<lparr>fresh := Suc (fresh h)\<rparr>"
  have nf: "new_filter USBPCAP_MAGIC_ROOTHUB None h = put_dev ?d ?ext ?h0"
    by (simp add: new_filter_def put_dev_def)
  note alloc = allocate_hub [of ?ext ?h0 ?d env, simplified]
  have same: "tree_inv at_rest h'" if "devs h' = devs h" "roots h' = roots h" "symlinks h' = symlinks h"
    "fresh h \<le> fresh h'" for h'
    by (rule same_objects_inv [OF inv that])
  show thesis
  proof (cases "NT_SUCCESS (ce_device env) \<and> ce_data env \<and> ce_root env")
    case False
    have "\<exists>h' st. AddDevice True env t h = Some (h', st) \<and> \<not> NT_SUCCESS st \<and> devs h' = devs h \<and>
        roots h' = roots h \<and> symlinks h' = symlinks h \<and> attached h' = attached h \<and> fresh h \<le> fresh h'"
      using False new(1)
      by (auto simp: AddDevice_def nf alloc give_up_def USBPcapFreeDeviceData_def NT_SUCCESS_def Let_def)
    then obtain h' st where "AddDevice True env t h = Some (h', st)" "\<not> NT_SUCCESS st" "devs h' = devs h"
        "roots h' = roots h" "symlinks h' = symlinks h" "attached h' = attached h" "fresh h \<le> fresh h'"
      by blast
    then show ?thesis using False by (intro that [of h' st] same) (auto simp: hub_ok_def)
  next
    case dev: True
    let ?dd = "\<lparr>fd_parent = None, previousChildren = None,
      fd_info = \<lparr>properData = False, parentPort = 0, isHub = True, usbAddress = 255\<rparr>,
      fd_endpointTable = USBPcapInitializeEndpointTable (ce_endpoints env),
      fd_URBIrpTable = USBPcapInitializeURBIRPInfoTable (ce_urbs env),
      fd_descriptor = None, fd_root = Some ?r\<rparr>"
    let ?e1 = "?ext\<lparr>fe_data := Some ?dd\<rparr>"
    let ?re = "\<lparr>re_data = root_data_init (ce_junk env), re_control = None\<rparr>"
    let ?h1 = "put_dev ?d ?e1 ((put_root ?r ?re (put_dev ?d ?ext ?h0))\<lparr>fresh := Suc ?r\<rparr>)"
    have al: "USBPcapAllocateDeviceData env ?d None (put_dev ?d ?ext ?h0) = Some (?h1, STATUS_SUCCESS)"
      using alloc dev by simp
    have free: "roots (drop_reference ?r x y) = roots h"
      if "roots y = (roots h)(?r \<mapsto> z)" "refCount (re_data x) = 1" for x y z
      using that new_r by (auto simp: drop_reference_def)
    show ?thesis
    proof (cases "ce_attach env")
      case False
      let ?h' = "delete_dev ?d (put_dev ?d (?e1\<lparr>fe_data := None\<rparr>) (drop_reference ?r ?re ?h1))"
      have "USBPcapFreeDeviceData ?d ?h1 = Some (put_dev ?d (?e1\<lparr>fe_data := None\<rparr>) (drop_reference ?r ?re ?h1))"
        by (rule FreeDeviceData_eq [of _ _ ?e1 ?dd]) simp_all
      then have run: "AddDevice True env t h = Some (?h', STATUS_NO_SUCH_DEVICE)"
        using dev False by (simp add: AddDevice_def nf al give_up_def NT_SUCCESS_def Let_def)
      have "roots ?h' = roots h" by (simp add: free root_data_init_def)
      moreover have "devs ?h' = devs h" using new(1) by auto
      ultimately show ?thesis using False by (intro that [OF run] same) (simp_all add: hub_ok_def NT_SUCCESS_def)
    next
      case att: True
      let ?e2 = "?e1\<lparr>fe_next := True\<rparr>"
      let ?h2 = "(put_dev ?d ?e2 ?h1)\<lparr>attached := (attached h)(?d \<mapsto> t)\<rparr>"
      have attach: "attach_filter ?d t ?h1 = Some ?h2" by (simp add: attach_filter_def)
      have ctl_iff: "control_ok env ?h2 = control_ok env h" by (rule hub_ok_fields) simp_all
      have unfold: "AddDevice True env t h = do {
          (h3, st3, control, id) \<leftarrow> USBPcapCreateRootHubControlDevice env ?d ?h2;
          e \<leftarrow> devs h3 ?d;
          dd \<leftarrow> fe_data e;
          r \<leftarrow> fd_root dd;
          re \<leftarrow> roots h3 r;
          let h4 = put_root r (re\<lparr>re_data := (re_data re)\<lparr>busId := id\<rparr>, re_control := control\<rparr>) h3;
          if \<not> NT_SUCCESS st3 then give_up ?d st3 h4 else Some (h4, st3) }"
        using dev att attach by (simp add: AddDevice_def nf al Let_def)
      show ?thesis
      proof (cases "control_ok env h")
        case False
        have "devs ?h2 (fresh ?h2) = None" using beyond_fresh [OF inv, of "Suc ?r"] by simp
        then obtain h3 st n where h3: "USBPcapCreateRootHubControlDevice env ?d ?h2 = Some (h3, st, None, n)"
          "\<not> NT_SUCCESS st" "devs h3 = devs ?h2" "roots h3 = roots ?h2" "symlinks h3 = symlinks ?h2"
          "attached h3 = attached ?h2" "fresh ?h2 \<le> fresh h3"
          using create_control_fails [of env ?h2 ?d] False ctl_iff by blast
        let ?re' = "?re\<lparr>re_data := (re_data ?re)\<lparr>busId := n\<rparr>, re_control := None\<rparr>"
        let ?h4 = "put_root ?r ?re' h3"
        let ?h' = "delete_dev ?d (put_dev ?d (?e2\<lparr>fe_data := None\<rparr>) (drop_reference ?r ?re' ?h4))"
        have "USBPcapFreeDeviceData ?d ?h4 = Some (put_dev ?d (?e2\<lparr>fe_data := None\<rparr>) (drop_reference ?r ?re' ?h4))"
          by (rule FreeDeviceData_eq [of _ _ ?e2 ?dd]) (simp_all add: h3)
        then have "give_up ?d st ?h4 = Some (?h', st)" by (simp add: give_up_def)
        then have run: "AddDevice True env t h = Some (?h', st)"
          unfolding unfold using h3 by (simp add: Let_def)
        have "roots ?h' = roots h" using h3(4) by (simp add: free root_data_init_def)
        moreover have "devs ?h' = devs h" using new(1) h3(3) by auto
        ultimately show ?thesis
          using False h3 dev att by (intro that [OF run] same) (simp_all add: hub_ok_def)
      next
        case True
        obtain h3 st ce where run3: "USBPcapCreateRootHubControlDevice env ?d ?h2 =
            Some (h3, st, Some (fresh ?h2), ucast (controlId ?h2 + 1))" "NT_SUCCESS st"
          and ce: "node_of ce = CtlNode ?d" "fe_lock ce = free_lock"
            "fe_id ce = ucast (controlId ?h2 + 1)" "fe_id ce \<notin> symlinks ?h2"
          and h3: "devs h3 = (devs ?h2)(fresh ?h2 \<mapsto> ce,
              ?d \<mapsto> ?e2\<lparr>fe_lock := \<lparr>lock_count = 1, lock_removed = False\<rparr>\<rparr>)"
            "roots h3 = roots ?h2" "symlinks h3 = insert (fe_id ce) (symlinks ?h2)"
            "fresh h3 = Suc (fresh ?h2)" "attached h3 = attached ?h2"
          by (rule create_control_ok [of env ?h2 ?d ?e2]) (use True ctl_iff in simp_all)
        let ?e3 = "?e2\<lparr>fe_lock := \<lparr>lock_count = 1, lock_removed = False\<rparr>\<rparr>"
        let ?re' = "?re\<lparr>re_data := (re_data ?re)\<lparr>busId := ucast (controlId h + 1)\<rparr>, re_control := Some (Suc ?r)\<rparr>"
        let ?h4 = "put_root ?r ?re' h3"
        have run: "AddDevice True env t h = Some (?h4, st)"
          unfolding unfold using run3 h3 by (simp add: Let_def)
        have n3: "node_of ?e3 = HubNode ?r" by (simp add: node_of_def)
        have dev4: "devs ?h4 = (devs h)(?d \<mapsto> ?e3, Suc ?r \<mapsto> ce)" using h3(1) by auto
        have "tree_inv at_rest ?h4"
          by (rule add_hub_inv [OF inv, of ?d ?r "Suc ?r" ?e3 ce ?re'])
            (use h3 ce dev4 n3 in \<open>simp_all add: root_data_init_def\<close>)
        moreover have "tree ?h4 = (tree h)(?d \<mapsto> HubNode ?r, Suc ?r \<mapsto> CtlNode ?d)"
          using dev4 n3 ce(1) by (auto simp: tree_def fun_eq_iff)
        ultimately show ?thesis
          using True run3(2) ce(3) h3(3,5) dev att by (intro that [OF run]) (simp_all add: hub_ok_def)
      qed
    qed
  qed
qed

end
