(* ===== verification/PlugAndPlay.thy ===== *)
theory PlugAndPlay
  imports DeviceTreeLife
begin

text \<open>
  The plug and play requests as a whole: what DkPnP and AddDevice return, the heaps that they
  can reach as a step relation, and the properties of these heaps.
\<close>

section \<open>One request\<close>

definition child_filters :: "(nat \<Rightarrow> node option) \<Rightarrow> nat \<Rightarrow> nat set" where
  "child_filters T d = {c. \<exists>r. T c = Some (DevNode d r)}"

lemma child_filters_kids: "child_filters T d \<subseteq> kids T d"
  by (auto simp: child_filters_def kids_def)

lemma kids_of_hub:
  assumes "well_typed T R" "T d = Some (HubNode r)" "R r = Some (Some c)" "T c = Some (CtlNode d)"
  shows "kids T d = insert c (child_filters T d)" "c \<notin> child_filters T d"
proof -
  have "x = c \<or> x \<in> child_filters T d" if "x \<in> kids T d" for x
  proof -
    obtain n where x: "T x = Some n" "node_parent n = Some d" using \<open>x \<in> kids T d\<close> by (auto simp: kids_def)
    have "node_typed T R x n" using x(1) assms(1) by (simp add: well_typed_def)
    then show ?thesis using x assms(2,3) by (cases n) (auto simp: node_typed_def child_filters_def)
  qed
  moreover have "insert c (child_filters T d) \<subseteq> kids T d"
    using assms(4) by (auto simp: kids_def child_filters_def)
  ultimately show "kids T d = insert c (child_filters T d)" by blast
  show "c \<notin> child_filters T d" using assms(4) by (simp add: child_filters_def)
qed

lemma kids_of_device:
  assumes "well_typed T R" "T d = Some (DevNode p r)"
  shows "kids T d = child_filters T d"
proof -
  have "x \<in> child_filters T d" if "T x = Some n" "node_parent n = Some d" for x n
  proof -
    have "node_typed T R x n" using that(1) assms(1) by (simp add: well_typed_def)
    then show ?thesis using that assms(2) by (cases n) (auto simp: node_typed_def child_filters_def)
  qed
  then show ?thesis by (auto simp: kids_def child_filters_def)
qed

text \<open>The lock that a request takes first and gives back last.\<close>

lemma request_acquires:
  assumes "tree_inv at_rest h" "devs h d = Some e"
  obtains e1 where "acquire_lock d h = Some (put_dev d e1 h, STATUS_SUCCESS)"
    "e1 = e\<lparr>fe_lock := acquired (fe_lock e)\<rparr>" "tree_inv (at_rest(d := 1)) (put_dev d e1 h)"
    "tree (put_dev d e1 h) = tree h"
  using acquire_lock_ok [OF assms] by auto

lemma request_releases:
  assumes "tree_inv (at_rest(d := 1)) h" "devs h d = Some e"
  obtains e1 where "release_lock d h = Some (put_dev d e1 h)" "tree_inv at_rest (put_dev d e1 h)"
    "tree (put_dev d e1 h) = tree h" "e1 = e\<lparr>fe_lock := fe_lock e1\<rparr>"
proof -
  have "at_rest(d := 1, d := 0) = at_rest" by auto
  then show thesis using release_lock_ok [OF assms, of 0] that by auto
qed

text \<open>
  The requests of the operating system: the queries of a started device return, and the name
  of a symbolic link can be printed.
\<close>

definition request_ok :: "pnp_env \<Rightarrow> pnp_minor \<Rightarrow> bool" where
  "request_ok env minor \<longleftrightarrow>
     (minor = START_DEVICE \<longrightarrow> (\<forall>info flt.
        USBPcapGetDeviceUSBInfo (pe_upcase env) (pe_hub env) (pe_device env) info flt \<noteq> None)) \<and>
     (minor = REMOVE_DEVICE \<longrightarrow> NT_SUCCESS (pe_link_name env))"

definition waits :: "heap \<Rightarrow> nat \<Rightarrow> pnp_minor \<Rightarrow> bool" where
  "waits h d minor \<longleftrightarrow> minor = REMOVE_DEVICE \<and> child_filters (tree h) d \<noteq> {}"

lemma hub_request:
  assumes inv: "tree_inv at_rest h" and d: "devs h d = Some e" "node_of e = HubNode r"
    and ok: "request_ok env minor"
  shows "\<exists>h' res. DkHubFltPnP env d minor h = Some (h', res) \<and> (res = PnpWaiting \<longleftrightarrow> waits h d minor) \<and>
    (res \<noteq> PnpWaiting \<longrightarrow> tree_inv at_rest h')"
proof -
  obtain e1 where e1: "acquire_lock d h = Some (put_dev d e1 h, STATUS_SUCCESS)"
    "e1 = e\<lparr>fe_lock := acquired (fe_lock e)\<rparr>" "tree_inv (at_rest(d := 1)) (put_dev d e1 h)"
    "tree (put_dev d e1 h) = tree h"
    by (rule request_acquires [OF inv d(1)])
  have d1: "devs (put_dev d e1 h) d = Some e1" "node_of e1 = HubNode r" using e1(2) d(2) by simp_all
  obtain e2 where e2: "release_lock d (put_dev d e1 h) = Some (put_dev d e2 (put_dev d e1 h))"
    "tree_inv at_rest (put_dev d e2 (put_dev d e1 h))"
    using request_releases [OF e1(3) d1(1)] by blast
  show ?thesis
  proof (cases minor)
    case REMOVE_DEVICE
    obtain c ce re where c: "roots h r = Some re" "re_control re = Some c" "devs h c = Some ce"
      "node_of ce = CtlNode d" by (rule hub_control [OF inv d])
    have typed: "well_typed (tree h) (controls h)" using inv by (simp add: tree_inv_def)
    note kid = kids_of_hub [OF typed, of d r c]
    have "kids (tree h) d = insert c (child_filters (tree h) d)" "c \<notin> child_filters (tree h) d"
      using kid d c by (simp_all add: tree_def controls_def)
    from remove_hub [OF inv d _ this c(1,2), of env] show ?thesis
      using ok REMOVE_DEVICE
      by (cases "child_filters (tree h) d = {}") (auto simp: request_ok_def waits_def)
  next
    case (QUERY_DEVICE_RELATIONS bus)
    obtain dd where dd: "fe_data e1 = Some dd" using node_of_root [of e1 r] d1(2) by auto
    have held: "\<forall>x\<ge>fresh (put_dev d e1 h). (at_rest(d := 1)) x = 0"
      using fresh_new(4) [OF inv d(1)] by simp
    have root: "node_root (node_of e1) = Some r" using d1(2) by simp
    obtain h2 st e3 where h2: "DkHubFltPnpHandleQryDevRels env d bus (put_dev d e1 h) = Some (h2, st)"
      "tree_inv (at_rest(d := 1)) h2" "devs h2 d = Some e3"
      using query_relations_inv [OF e1(3) d1(1) root dd held, of env bus] by blast
    obtain e4 where "release_lock d h2 = Some (put_dev d e4 h2)" "tree_inv at_rest (put_dev d e4 h2)"
      using request_releases [OF h2(2,3)] by blast
    then show ?thesis
      using e1(1) d1 h2(1) QUERY_DEVICE_RELATIONS by (simp add: DkHubFltPnP_def waits_def)
  qed (use e1(1) e2 d1 in \<open>simp_all add: DkHubFltPnP_def waits_def\<close>)
qed

lemma device_request:
  assumes inv: "tree_inv at_rest h" and d: "devs h d = Some e" "node_of e = DevNode p r"
    and ok: "request_ok env minor"
  shows "\<exists>h' res. DkTgtPnP env d minor h = Some (h', res) \<and> (res = PnpWaiting \<longleftrightarrow> waits h d minor) \<and>
    (res \<noteq> PnpWaiting \<longrightarrow> tree_inv at_rest h')"
proof -
  obtain e1 where e1: "acquire_lock d h = Some (put_dev d e1 h, STATUS_SUCCESS)"
    "e1 = e\<lparr>fe_lock := acquired (fe_lock e)\<rparr>" "tree_inv (at_rest(d := 1)) (put_dev d e1 h)"
    "tree (put_dev d e1 h) = tree h"
    by (rule request_acquires [OF inv d(1)])
  have d1: "devs (put_dev d e1 h) d = Some e1" "node_root (node_of e1) = Some r"
    using e1(2) d(2) by simp_all
  obtain e2 where e2: "release_lock d (put_dev d e1 h) = Some (put_dev d e2 (put_dev d e1 h))"
    "tree_inv at_rest (put_dev d e2 (put_dev d e1 h))"
    using request_releases [OF e1(3) d1(1)] by blast
  obtain dd where dd: "fe_data e1 = Some dd" using node_of_root [OF d1(2)] by auto
  show ?thesis
  proof (cases minor)
    case START_DEVICE
    have q: "\<And>info flt. USBPcapGetDeviceUSBInfo (pe_upcase env) (pe_hub env) (pe_device env) info flt \<noteq> None"
      using ok START_DEVICE by (simp add: request_ok_def)
    from start_target_ok [OF e1(3) d1 q]
    obtain h2 e3 where h2: "start_target env d (put_dev d e1 h) = Some h2"
      "tree_inv (at_rest(d := 1)) h2" "devs h2 d = Some e3" by blast
    obtain e4 where "release_lock d h2 = Some (put_dev d e4 h2)" "tree_inv at_rest (put_dev d e4 h2)"
      using request_releases [OF h2(2,3)] by blast
    then show ?thesis using e1(1) d1 h2(1) START_DEVICE by (simp add: DkTgtPnP_def waits_def)
  next
    case REMOVE_DEVICE
    have "well_typed (tree h) (controls h)" using inv by (simp add: tree_inv_def)
    then have "kids (tree h) d = child_filters (tree h) d"
      using kids_of_device d by (simp add: tree_def)
    then show ?thesis
      using remove_target [OF inv d, of env] REMOVE_DEVICE
      by (cases "child_filters (tree h) d = {}") (auto simp: waits_def)
  next
    case (QUERY_DEVICE_RELATIONS bus)
    have held: "\<forall>x\<ge>fresh (put_dev d e1 h). (at_rest(d := 1)) x = 0"
      using fresh_new(4) [OF inv d(1)] by simp
    obtain h2 st e3 where h2: "DkHubFltPnpHandleQryDevRels env d bus (put_dev d e1 h) = Some (h2, st)"
      "tree_inv (at_rest(d := 1)) h2" "devs h2 d = Some e3"
      using query_relations_inv [OF e1(3) d1 dd held, of env bus] by blast
    obtain e4 where "release_lock d h2 = Some (put_dev d e4 h2)" "tree_inv at_rest (put_dev d e4 h2)"
      using request_releases [OF h2(2,3)] by blast
    then show ?thesis
      using e1(1) e2 d1 dd h2(1) QUERY_DEVICE_RELATIONS by (simp add: DkTgtPnP_def waits_def)
  qed (use e1(1) e2 d1 in \<open>simp_all add: DkTgtPnP_def waits_def\<close>)
qed

lemma control_request:
  assumes inv: "tree_inv at_rest h" and d: "devs h d = Some e" "node_of e = CtlNode p"
  shows "\<exists>h' res. DkPnP env d minor h = Some (h', res) \<and> (res = PnpWaiting \<longleftrightarrow> waits h d minor) \<and>
    (res \<noteq> PnpWaiting \<longrightarrow> tree_inv at_rest h')"
proof -
  obtain e1 where e1: "acquire_lock d h = Some (put_dev d e1 h, STATUS_SUCCESS)"
    "e1 = e\<lparr>fe_lock := acquired (fe_lock e)\<rparr>" "tree_inv (at_rest(d := 1)) (put_dev d e1 h)"
    by (rule request_acquires [OF inv d(1)])
  obtain e2 where e2: "release_lock d (put_dev d e1 h) = Some (put_dev d e2 (put_dev d e1 h))"
    "tree_inv at_rest (put_dev d e2 (put_dev d e1 h))"
    using request_releases [OF e1(3), of e1] by auto
  have typed: "well_typed (tree h) (controls h)" using inv by (simp add: tree_inv_def)
  have "kids (tree h) d = {}" by (rule control_kids [OF typed, of d p]) (use d in \<open>simp add: tree_def\<close>)
  then have "\<not> waits h d minor" using child_filters_kids [of "tree h" d] by (simp add: waits_def)
  moreover have "fe_magic e = USBPCAP_MAGIC_CONTROL" using node_of_kind(3) [of e p] d(2) by simp
  ultimately show ?thesis using d e1(1) e2 by (simp add: DkPnP_def)
qed

lemma pnp_request:
  assumes inv: "tree_inv at_rest h" and d: "devs h d = Some e" and ok: "request_ok env minor"
  shows "\<exists>h' res. DkPnP env d minor h = Some (h', res) \<and> (res = PnpWaiting \<longleftrightarrow> waits h d minor) \<and>
    (res \<noteq> PnpWaiting \<longrightarrow> tree_inv at_rest h')"
proof (cases "node_of e")
  case (HubNode r)
  then have "DkPnP env d minor h = DkHubFltPnP env d minor h"
    using d node_of_kind(1) [OF HubNode] by (simp add: DkPnP_def)
  then show ?thesis using hub_request [OF inv d HubNode ok] by simp
next
  case (DevNode p r)
  then have "DkPnP env d minor h = DkTgtPnP env d minor h"
    using d node_of_kind(2) [OF DevNode] by (simp add: DkPnP_def)
  then show ?thesis using device_request [OF inv d DevNode ok] by simp
next
  case (CtlNode p)
  then show ?thesis by (rule control_request [OF inv d])
next
  case BadNode
  then show ?thesis using typed_at [OF inv d] by (simp add: node_typed_def)
qed

section \<open>The heaps that the requests reach\<close>

text \<open>
  The driver starts without device objects. The system asks it to add filters to devices and
  sends plug and play requests to its device objects; a remove request that has to wait for
  child filters has not been completed, so it is no step.
\<close>

definition no_devices :: "u32 \<Rightarrow> heap" where
  "no_devices n = \<lparr>devs = \<lambda>_. None, roots = \<lambda>_. None, attached = \<lambda>_. None, symlinks = {},
     controlId = n, fresh = 0\<rparr>"

inductive pnp_step :: "heap \<Rightarrow> heap \<Rightarrow> bool" where
  add: "AddDevice isRootHub env target h = Some (h', st) \<Longrightarrow> pnp_step h h'"
| request: "devs h d = Some e \<Longrightarrow> request_ok env minor \<Longrightarrow>
    DkPnP env d minor h = Some (h', PnpDone st) \<Longrightarrow> pnp_step h h'"

inductive tree_reachable :: "heap \<Rightarrow> bool" where
  start: "tree_reachable (no_devices n)"
| step: "tree_reachable h \<Longrightarrow> pnp_step h h' \<Longrightarrow> tree_reachable h'"

lemma no_devices_inv: "tree_inv at_rest (no_devices n)"
proof -
  have "link_of (no_devices n) = Map.empty" "tree (no_devices n) = Map.empty"
    by (auto simp: link_of_def tree_def no_devices_def)
  then show ?thesis
    by (simp add: tree_inv_def well_typed_def locks_ok_def refs_ok_def links_ok_def bounded_def)
      (simp add: no_devices_def)
qed

lemma add_request:
  assumes "tree_inv at_rest h"
  shows "\<exists>h' st. AddDevice isRootHub env target h = Some (h', st) \<and> tree_inv at_rest h'"
proof (cases isRootHub)
  case True
  obtain h' st where "AddDevice True env target h = Some (h', st)" "tree_inv at_rest h'"
    by (rule AddDevice_outcome [OF assms, of env target]) blast
  then show ?thesis using True by simp
qed (use assms in \<open>simp add: AddDevice_def\<close>)

lemma pnp_step_inv:
  assumes "pnp_step h h'" "tree_inv at_rest h"
  shows "tree_inv at_rest h'"
  using assms
proof (cases rule: pnp_step.cases)
  case (add isRootHub env target st)
  then show ?thesis using add_request [OF assms(2), of isRootHub env target] by simp
next
  case (request d e env minor st)
  then show ?thesis using pnp_request [OF assms(2), of d e env minor] by auto
qed

lemma tree_reachable_inv: "tree_reachable h \<Longrightarrow> tree_inv at_rest h"
  by (induction rule: tree_reachable.induct) (auto intro: no_devices_inv pnp_step_inv)

lemma no_leak:
  assumes "tree_inv held h" "\<forall>d e. devs h d = Some e \<longrightarrow> fe_magic e \<noteq> USBPCAP_MAGIC_ROOTHUB"
  shows "devs h = Map.empty \<and> roots h = Map.empty \<and> symlinks h = {}"
proof -
  have typed: "node_typed (tree h) (controls h) d n" if "tree h d = Some n" for d n
    using assms(1) that by (simp add: tree_inv_def well_typed_def)
  have nohub: "tree h d \<noteq> Some (HubNode r)" for d r
    using assms(2) node_of_kind(1) by (auto simp: tree_def)
  have none: "tree h d = None" for d
  proof (induction d rule: less_induct)
    case (less d)
    show ?case
    proof (cases "tree h d")
      case (Some n)
      then show ?thesis using typed [OF Some] nohub less.IH
        by (cases n) (auto simp: node_typed_def)
    qed
  qed
  then have d: "devs h = Map.empty" by (auto simp: tree_def)
  moreover have "roots h r = None" for r
  proof (rule ccontr)
    assume "roots h r \<noteq> None"
    then have "users (tree h) r \<noteq> {}" using assms(1) by (auto simp: tree_inv_def refs_ok_def)
    then show False by (simp add: users_def none)
  qed
  moreover have "link_of h = Map.empty" using d by (auto simp: link_of_def)
  then have "symlinks h = {}" using assms(1) by (simp add: tree_inv_def links_ok_def)
  ultimately show ?thesis by auto
qed



section \<open>The filters of new devices\<close>

lemma bus_query:
  assumes inv: "tree_inv at_rest h" and d: "devs h d = Some e" "fe_data e = Some dd"
    and hub: "fe_magic e = USBPCAP_MAGIC_ROOTHUB \<or> fe_magic e = USBPCAP_MAGIC_DEVICE \<and> isHub (fd_info dd)"
    and env: "NT_SUCCESS (pe_lower env)" "pe_relations env = Some cs" "\<forall>k. create_ok (pe_create env k)"
  shows "\<exists>h' e'. DkPnP env d (QUERY_DEVICE_RELATIONS True) h = Some (h', PnpDone (pe_lower env)) \<and>
    tree_inv at_rest h' \<and> devs h' d = Some e' \<and> fe_magic e' = fe_magic e \<and>
    fe_data e' = Some (dd\<lparr>previousChildren := if cs \<noteq> [] \<and> pe_children_pool env then Some cs else None\<rparr>) \<and>
    gained h d (filter (\<lambda>c. \<not> known (previousChildren dd) c) cs) h'"
proof -
  obtain e1 where e1: "acquire_lock d h = Some (put_dev d e1 h, STATUS_SUCCESS)"
    "e1 = e\<lparr>fe_lock := acquired (fe_lock e)\<rparr>" "tree_inv (at_rest(d := 1)) (put_dev d e1 h)"
    "tree (put_dev d e1 h) = tree h"
    by (rule request_acquires [OF inv d(1)])
  have d1: "devs (put_dev d e1 h) d = Some e1" "fe_data e1 = Some dd" "fe_magic e1 = fe_magic e"
    using e1(2) d(2) by simp_all
  have "node_typed (tree h) (controls h) d (node_of e1)" using typed_at [OF inv d(1)] e1(2) by simp
  then obtain r where root: "node_root (node_of e1) = Some r"
    using d1(2) node_of_kind(3) [of e1] by (cases "node_of e1") (auto simp: node_typed_def)
  have held: "\<forall>x\<ge>fresh (put_dev d e1 h). (at_rest(d := 1)) x = 0"
    using fresh_new(4) [OF inv d(1)] by simp
  obtain h2 e2 where h2: "DkHubFltPnpHandleQryDevRels env d True (put_dev d e1 h) = Some (h2, pe_lower env)"
    "tree_inv (at_rest(d := 1)) h2" "devs h2 d = Some e2" "fe_magic e2 = fe_magic e1"
    "gained (put_dev d e1 h) d (filter (\<lambda>c. \<not> known (previousChildren dd) c) cs) h2"
    "fe_data e2 = Some (dd\<lparr>previousChildren := if cs \<noteq> [] \<and> pe_children_pool env then Some cs else None\<rparr>)"
    using query_relations_exact [OF e1(3) d1(1) root d1(2) held env] by blast
  obtain e3 where e3: "release_lock d h2 = Some (put_dev d e3 h2)" "tree_inv at_rest (put_dev d e3 h2)"
    "tree (put_dev d e3 h2) = tree h2" "e3 = e2\<lparr>fe_lock := fe_lock e3\<rparr>"
    by (rule request_releases [OF h2(2,3)])
  have keep: "fe_magic e3 = fe_magic e2" "fe_data e3 = fe_data e2" by (subst e3(4), simp)+
  have "DkPnP env d (QUERY_DEVICE_RELATIONS True) h = Some (put_dev d e3 h2, PnpDone (pe_lower env))"
    using hub d(1) e1(1) d1 h2(1) e3(1) by (auto simp: DkPnP_def DkHubFltPnP_def DkTgtPnP_def)
  moreover have "gained h d (filter (\<lambda>c. \<not> known (previousChildren dd) c) cs) (put_dev d e3 h2)"
    using h2(5) e3(3) e1(4) by (simp add: gained_def)
  ultimately show ?thesis using h2(4,6) e3(2) keep d1(3) by auto
qed


text \<open>
  When there is no memory to remember the children, the next query attaches a second filter
  to every device, where the comment in the code expects new devices to be missed.
\<close>

lemma forgotten_children_attached_twice:
  assumes "tree_inv at_rest h" "devs h d = Some e" "fe_data e = Some dd" "fe_magic e = USBPCAP_MAGIC_ROOTHUB"
    "previousChildren dd = None" "NT_SUCCESS (pe_lower env)" "pe_relations env = Some cs"
    "\<forall>k. create_ok (pe_create env k)" "\<not> pe_children_pool env"
  shows "\<exists>h1 h2. DkPnP env d (QUERY_DEVICE_RELATIONS True) h = Some (h1, PnpDone (pe_lower env)) \<and>
    DkPnP env d (QUERY_DEVICE_RELATIONS True) h1 = Some (h2, PnpDone (pe_lower env)) \<and>
    (\<forall>k < length cs. attached h2 (fresh h + k) = Some (cs ! k) \<and>
      attached h2 (fresh h + length cs + k) = Some (cs ! k))"
proof -
  have new: "filter (\<lambda>c. \<not> known None c) cs = cs" by (simp add: known_def)
  obtain h1 e1 where h1: "DkPnP env d (QUERY_DEVICE_RELATIONS True) h = Some (h1, PnpDone (pe_lower env))"
    "tree_inv at_rest h1" "devs h1 d = Some e1" "fe_magic e1 = USBPCAP_MAGIC_ROOTHUB"
    "fe_data e1 = Some (dd\<lparr>previousChildren := None\<rparr>)" "gained h d cs h1"
    using bus_query [OF assms(1-3) disjI1 [OF assms(4)] assms(6-8)] assms(4,5,9) new by auto
  obtain h2 where "DkPnP env d (QUERY_DEVICE_RELATIONS True) h1 = Some (h2, PnpDone (pe_lower env))"
    "gained h1 d cs h2"
    using bus_query [OF h1(2,3,5) disjI1 [OF h1(4)] assms(6-8)] new by auto
  then show ?thesis using h1(1,6) by (intro exI [of _ h1] exI [of _ h2]) (simp add: gained_def)
qed

section \<open>A root hub with two devices\<close>

definition example_create :: create_env where
  "example_create = \<lparr>ce_device = 0, ce_data = True, ce_root = True, ce_junk = 0, ce_endpoints = True,
     ce_urbs = True, ce_attach = True, ce_ntname = 0, ce_symname = 0, ce_control = 0, ce_symlink = 0,
     ce_csq = 0\<rparr>"

definition example_requests :: pnp_env where
  "example_requests = \<lparr>pe_lower = 0, pe_relations = Some [7, 8], pe_create = \<lambda>_. example_create,
     pe_children_pool = True, pe_link_name = 0, pe_upcase = \<lambda>c. c, pe_hub = example_hub,
     pe_device = example_child\<rparr>"

lemma example_added:
  "\<exists>h e dd. tree_reachable h \<and> fresh h = 3 \<and> devs h 0 = Some e \<and> fe_magic e = USBPCAP_MAGIC_ROOTHUB \<and>
     fe_data e = Some dd \<and> previousChildren dd = None \<and> tree h = [0 \<mapsto> HubNode 1, 2 \<mapsto> CtlNode 0]"
proof -
  have "\<exists>h e dd. AddDevice True example_create 5 (no_devices 0) = Some (h, 0) \<and> fresh h = 3 \<and>
      devs h 0 = Some e \<and> fe_magic e = USBPCAP_MAGIC_ROOTHUB \<and>
      fe_data e = Some dd \<and> previousChildren dd = None"
    by (simp add: AddDevice_def example_create_def no_devices_def new_filter_def obtain_root_def
        USBPcapAllocateDeviceData_def attach_filter_def USBPcapCreateRootHubControlDevice_def
        symlink_status_def acquire_lock_def Acquire_eq free_lock_def Let_def numeral_3_eq_3)
  then obtain h e dd where h: "AddDevice True example_create 5 (no_devices 0) = Some (h, 0)"
    "fresh h = 3" "devs h 0 = Some e" "fe_magic e = USBPCAP_MAGIC_ROOTHUB" "fe_data e = Some dd"
    "previousChildren dd = None" by blast
  have "NT_SUCCESS (0 :: ntstatus)" by simp
  then have "tree h = (tree (no_devices 0))(0 \<mapsto> HubNode 1, 2 \<mapsto> CtlNode 0)"
    by (rule_tac AddDevice_outcome [OF no_devices_inv [of 0], of example_create 5])
      (use h(1) in \<open>auto simp: no_devices_def numeral_2_eq_2\<close>)
  then have "tree h = [0 \<mapsto> HubNode 1, 2 \<mapsto> CtlNode 0]"
    by (auto simp: tree_def no_devices_def fun_eq_iff)
  moreover have "tree_reachable h" using h(1) by (meson tree_reachable.intros pnp_step.add)
  ultimately show ?thesis using h by blast
qed




end
