(* ===== verification/DeviceWalk.thy ===== *)
theory DeviceWalk
  imports CLib
begin

text \<open>
  The walks over the system's device tree in the command line tool (enum.c): the search for
  the device with a given driver key, and the listing of everything below a device with
  running numbers. The configuration manager's functions are parameters; the theorems are
  about a configuration manager that holds a tree.
\<close>

section \<open>The configuration manager\<close>

datatype 'd cm_result = CrSuccess 'd | CrNoSuchDevnode | CrOther u32

datatype reg_string = RegString string | RegNoSuchValue | RegFail u32

text \<open>
  CM_Locate_DevNode, the functions that move in the tree, and the properties of a device:
  driver key, friendly name and description (16-bit characters).
\<close>

record 'd cm =
  cm_root :: "'d option"
  cm_child :: "'d \<Rightarrow> 'd cm_result"
  cm_sibling :: "'d \<Rightarrow> 'd cm_result"
  cm_parent :: "'d \<Rightarrow> 'd cm_result"
  cm_driver :: "'d \<Rightarrow> reg_string"
  cm_friendly :: "'d \<Rightarrow> u16 list option"
  cm_desc :: "'d \<Rightarrow> u16 list option"

abbreviation LOOP_SANITY_LIMIT :: nat where "LOOP_SANITY_LIMIT \<equiv> 10000"

text \<open>One call of the callback of type EnumDeviceInfoCallback.\<close>

record enum_info =
  ei_level :: nat
  ei_port :: nat
  ei_display :: "u16 list"
  ei_address :: u16
  ei_parent :: u16
  ei_node :: u16
  ei_parent_node :: u16

section \<open>The devices below a device\<close>

text \<open>
  The inner loop of PrintDevinstChildren: across to the next sibling, or up and on. The depth
  is level - indent, which is positive in the loop; None is a return of the function.
\<close>

fun climb_children ::
  "'d cm \<Rightarrow> 'd \<Rightarrow> nat \<Rightarrow> 'd \<Rightarrow> u16 list \<Rightarrow> (nat \<times> 'd \<times> u16 list) option" where
  "climb_children cm parent 0 current stack = None"
| "climb_children cm parent (Suc depth) current stack =
     (case cm_sibling cm current of
        CrSuccess next \<Rightarrow> Some (Suc depth, next, stack)
      | CrNoSuchDevnode \<Rightarrow>
          (case cm_parent cm current of
             CrSuccess next \<Rightarrow>
               if next = parent \<or> depth = 0 then None
               else climb_children cm parent depth next (tl stack)
           | _ \<Rightarrow> None)
      | CrOther _ \<Rightarrow> None)"

definition display_name :: "'d cm \<Rightarrow> 'd \<Rightarrow> u16 list option" where
  "display_name cm d = (case cm_friendly cm d of Some s \<Rightarrow> Some s | None \<Rightarrow> cm_desc cm d)"

text \<open>A call of the callback, unless there is no name or an empty one.\<close>

definition child_info ::
  "nat \<Rightarrow> u16 \<Rightarrow> u16 \<Rightarrow> u16 \<Rightarrow> u16 list option \<Rightarrow> enum_info list" where
  "child_info level address node parentNode name =
     (case name of
        Some (c # cs) \<Rightarrow>
          [\<lparr>ei_level = level, ei_port = 0, ei_display = c # cs, ei_address = address,
            ei_parent = address, ei_node = node, ei_parent_node = parentNode\<rparr>]
      | _ \<Rightarrow> [])"

function walk_children ::
  "'d cm \<Rightarrow> 'd \<Rightarrow> nat \<Rightarrow> u16 \<Rightarrow> nat \<Rightarrow> nat \<Rightarrow> 'd \<Rightarrow> u16 list \<Rightarrow> u16 \<Rightarrow> enum_info list" where
  "walk_children cm parent indent address sanity depth current stack nextNode =
     (if depth = 0 \<or> sanity + 1 > LOOP_SANITY_LIMIT then []
      else child_info (indent + depth) address nextNode (case stack of [] \<Rightarrow> 0 | p # _ \<Rightarrow> p)
             (display_name cm current) @
        (case cm_child cm current of
           CrSuccess next \<Rightarrow>
             walk_children cm parent indent address (sanity + 1) (Suc depth) next
               (nextNode # stack) (nextNode + 1)
         | _ \<Rightarrow>
             (case climb_children cm parent depth current stack of
                None \<Rightarrow> []
              | Some (depth', next, stack') \<Rightarrow>
                  walk_children cm parent indent address (sanity + 1) depth' next stack' (nextNode + 1))))"
  by pat_completeness auto
termination
  by (relation "measure (\<lambda>(cm, p, i, a, sanity, d, c, s, n). LOOP_SANITY_LIMIT - sanity)") auto

declare walk_children.simps [simp del]

definition PrintDevinstChildren :: "'d cm \<Rightarrow> 'd \<Rightarrow> nat \<Rightarrow> u16 \<Rightarrow> enum_info list" where
  "PrintDevinstChildren cm parent indent address =
     (case cm_child cm parent of
        CrSuccess next \<Rightarrow> walk_children cm parent indent address 0 1 next [0] 1
      | _ \<Rightarrow> [])"

section \<open>The search for a driver key\<close>

text \<open>_tcsicmp: the comparison ignores the case of ASCII letters.\<close>

definition tolower :: "char \<Rightarrow> char" where
  "tolower c = (if CHR ''A'' \<le> c \<and> c \<le> CHR ''Z'' then char_of (of_char c + 32 :: nat) else c)"

definition stricmp_eq :: "string \<Rightarrow> string \<Rightarrow> bool" where
  "stricmp_eq s t \<longleftrightarrow> map tolower s = map tolower t"

text \<open>The inner loop of PrintDeviceDesc, with the number of iterations left.\<close>

fun climb_search :: "'d cm \<Rightarrow> nat \<Rightarrow> 'd \<Rightarrow> 'd option" where
  "climb_search cm 0 d = None"
| "climb_search cm (Suc n) d =
     (case cm_sibling cm d of
        CrSuccess next \<Rightarrow> Some next
      | CrNoSuchDevnode \<Rightarrow>
          (case cm_parent cm d of CrSuccess next \<Rightarrow> climb_search cm n next | _ \<Rightarrow> None)
      | CrOther _ \<Rightarrow> None)"

fun search_driver :: "'d cm \<Rightarrow> string \<Rightarrow> nat \<Rightarrow> 'd \<Rightarrow> 'd option" where
  "search_driver cm name 0 d = None"
| "search_driver cm name (Suc n) d =
     (let onward =
        (case cm_child cm d of
           CrSuccess next \<Rightarrow> search_driver cm name n next
         | _ \<Rightarrow> (case climb_search cm LOOP_SANITY_LIMIT d of
                 None \<Rightarrow> None | Some next \<Rightarrow> search_driver cm name n next))
      in case cm_driver cm d of
           RegString key \<Rightarrow> if stricmp_eq name key then Some d else onward
         | RegNoSuchValue \<Rightarrow> onward
         | RegFail _ \<Rightarrow> None)"

definition PrintDeviceDesc ::
  "'d cm \<Rightarrow> string \<Rightarrow> nat \<Rightarrow> nat \<Rightarrow> bool \<Rightarrow> u16 \<Rightarrow> u16 \<Rightarrow> enum_info list" where
  "PrintDeviceDesc cm DriverName Index Level PrintAllChildren deviceAddress parentAddress =
     (case cm_root cm of
        None \<Rightarrow> []
      | Some root \<Rightarrow>
          (case search_driver cm DriverName LOOP_SANITY_LIMIT root of
             None \<Rightarrow> []
           | Some devInst \<Rightarrow>
               (case cm_desc cm devInst of
                  None \<Rightarrow> []
                | Some name \<Rightarrow>
                    \<lparr>ei_level = Level, ei_port = Index, ei_display = name, ei_address = deviceAddress,
                     ei_parent = parentAddress, ei_node = 0, ei_parent_node = 0\<rparr> #
                    (if PrintAllChildren
                     then PrintDevinstChildren cm devInst Level deviceAddress else []))))"

section \<open>A configuration manager that holds a tree\<close>

datatype devnode = DevNode (dn_driver: reg_string) (dn_friendly: "u16 list option")
  (dn_desc: "u16 list option") (dn_children: "devnode list")

text \<open>A place in the tree: the node, and for each level up the siblings after it and the parent.\<close>

type_synonym place = "devnode \<times> (devnode list \<times> devnode) list"

fun child_of :: "place \<Rightarrow> place cm_result" where
  "child_of (n, ups) =
     (case dn_children n of [] \<Rightarrow> CrNoSuchDevnode | c # cs \<Rightarrow> CrSuccess (c, (cs, n) # ups))"

fun sibling_of :: "place \<Rightarrow> place cm_result" where
  "sibling_of (n, (s # ss, p) # ups) = CrSuccess (s, (ss, p) # ups)"
| "sibling_of _ = CrNoSuchDevnode"

fun parent_of :: "place \<Rightarrow> place cm_result" where
  "parent_of (n, (ss, p) # ups) = CrSuccess (p, ups)"
| "parent_of (n, []) = CrNoSuchDevnode"

definition tree_cm :: "devnode \<Rightarrow> place cm" where
  "tree_cm root =
     \<lparr>cm_root = Some (root, []), cm_child = child_of, cm_sibling = sibling_of, cm_parent = parent_of,
      cm_driver = \<lambda>(n, _). dn_driver n, cm_friendly = \<lambda>(n, _). dn_friendly n,
      cm_desc = \<lambda>(n, _). dn_desc n\<rparr>"

section \<open>What the listing has to be\<close>

definition node_name :: "devnode \<Rightarrow> u16 list option" where
  "node_name n = (case dn_friendly n of Some s \<Rightarrow> Some s | None \<Rightarrow> dn_desc n)"

text \<open>
  The nodes are numbered depth first from k on; each is listed with its own number and that
  of its parent, before its children. The second component is the next free number.
\<close>

fun node_infos :: "nat \<Rightarrow> u16 \<Rightarrow> u16 \<Rightarrow> u16 \<Rightarrow> devnode \<Rightarrow> enum_info list \<times> u16"
  and forest_infos :: "nat \<Rightarrow> u16 \<Rightarrow> u16 \<Rightarrow> u16 \<Rightarrow> devnode list \<Rightarrow> enum_info list \<times> u16" where
  "node_infos level address up k (DevNode drv fr ds cs) =
     (let (below, k') = forest_infos (Suc level) address k (k + 1) cs in
      (child_info level address k up (node_name (DevNode drv fr ds cs)) @ below, k'))"
| "forest_infos level address up k [] = ([], k)"
| "forest_infos level address up k (t # ts) =
     (let (own, k1) = node_infos level address up k t;
          (rest, k2) = forest_infos level address up k1 ts
      in (own @ rest, k2))"

fun node_count :: "devnode \<Rightarrow> nat" and forest_count :: "devnode list \<Rightarrow> nat" where
  "node_count (DevNode drv fr ds cs) = Suc (forest_count cs)"
| "forest_count [] = 0"
| "forest_count (t # ts) = node_count t + forest_count ts"

lemma infos_next:
  "snd (node_infos level address up k t) = k + of_nat (node_count t)"
  "snd (forest_infos level address up k ts) = k + of_nat (forest_count ts)"
  by (induction level address up k t and level address up k ts rule: node_infos_forest_infos.induct)
     (auto simp: Let_def algebra_simps split: prod.splits)

lemma tree_cm_simps [simp]:
  "cm_child (tree_cm r) = child_of" "cm_sibling (tree_cm r) = sibling_of"
  "cm_parent (tree_cm r) = parent_of" "cm_root (tree_cm r) = Some (r, [])"
  "cm_driver (tree_cm r) (n, ups) = dn_driver n" "cm_desc (tree_cm r) (n, ups) = dn_desc n"
  "display_name (tree_cm r) (n, ups) = node_name n"
  by (simp_all add: tree_cm_def display_name_def node_name_def split: option.split)

text \<open>What remains to be done when everything at and below a place has been listed.\<close>

definition resume ::
  "devnode \<Rightarrow> place \<Rightarrow> nat \<Rightarrow> u16 \<Rightarrow> nat \<Rightarrow> nat \<Rightarrow> place \<Rightarrow> u16 list \<Rightarrow> u16 \<Rightarrow> enum_info list" where
  "resume r parent indent address sanity depth current stack k =
     (case climb_children (tree_cm r) parent depth current stack of
        None \<Rightarrow> []
      | Some (depth', next, stack') \<Rightarrow>
          walk_children (tree_cm r) parent indent address sanity depth' next stack' k)"

lemma walk_visit:
  assumes "0 < depth" "sanity < LOOP_SANITY_LIMIT"
  shows "walk_children (tree_cm r) parent indent address sanity depth (n, ups) (up # stack) k =
    child_info (indent + depth) address k up (node_name n) @
    (case dn_children n of
       [] \<Rightarrow> resume r parent indent address (Suc sanity) depth (n, ups) (up # stack) (k + 1)
     | c # cs \<Rightarrow> walk_children (tree_cm r) parent indent address (Suc sanity) (Suc depth)
         (c, (cs, n) # ups) (k # up # stack) (k + 1))"
  using assms by (auto simp: walk_children.simps [of "tree_cm r" parent indent address sanity]
      resume_def split: list.split option.split)

lemma resume_last:
  assumes "length (snd parent) < length ups" "0 < depth"
  shows "resume r parent indent address sanity (Suc depth) (t, ([], n) # ups) (up # stack) k =
    resume r parent indent address sanity depth (n, ups) stack k"
proof -
  have "(n, ups) \<noteq> parent" using assms(1) by auto
  then show ?thesis using assms(2) by (simp add: resume_def)
qed

lemma resume_sibling:
  "resume r parent indent address sanity (Suc depth) (t, (s # ss, n) # ups) stack k =
    walk_children (tree_cm r) parent indent address sanity (Suc depth) (s, (ss, n) # ups) stack k"
  by (simp add: resume_def)

text \<open>The walk lists a node with everything below it, and then goes on.\<close>

lemma walk_lists:
  "length (snd parent) < length ups \<Longrightarrow> 0 < depth \<Longrightarrow> sanity + node_count t \<le> LOOP_SANITY_LIMIT \<Longrightarrow>
   walk_children (tree_cm r) parent indent address sanity depth (t, ups) (up # stack) k =
     fst (node_infos (indent + depth) address up k t) @
     resume r parent indent address (sanity + node_count t) depth (t, ups) (up # stack)
       (k + of_nat (node_count t))"
  "length (snd parent) < length ups \<Longrightarrow> 0 < depth \<Longrightarrow> ts \<noteq> [] \<Longrightarrow>
   sanity + forest_count ts \<le> LOOP_SANITY_LIMIT \<Longrightarrow>
   walk_children (tree_cm r) parent indent address sanity (Suc depth)
       (hd ts, (tl ts, n) # ups) (up # stack) k =
     fst (forest_infos (indent + Suc depth) address up k ts) @
     resume r parent indent address (sanity + forest_count ts) depth (n, ups) stack
       (k + of_nat (forest_count ts))"
proof (induction t and ts arbitrary: ups depth sanity up stack k and ups depth sanity up stack k n
    rule: node_count_forest_count.induct)
  case (1 drv fr ds cs)
  let ?t = "DevNode drv fr ds cs"
  have v: "walk_children (tree_cm r) parent indent address sanity depth (?t, ups) (up # stack) k =
    child_info (indent + depth) address k up (node_name ?t) @
    (case cs of
       [] \<Rightarrow> resume r parent indent address (Suc sanity) depth (?t, ups) (up # stack) (k + 1)
     | c # cs \<Rightarrow> walk_children (tree_cm r) parent indent address (Suc sanity) (Suc depth)
         (c, (cs, ?t) # ups) (k # up # stack) (k + 1))"
    using walk_visit [of depth sanity r parent indent address ?t] 1(3,4) by simp
  show ?case
  proof (cases cs)
    case Nil
    then show ?thesis using v by (simp add: case_prod_beta Let_def)
  next
    case (Cons c cs')
    have "Suc sanity + forest_count cs \<le> LOOP_SANITY_LIMIT" using 1(4) by simp
    from 1(1) [OF 1(2,3) _ this, of ?t k "up # stack" "k + 1"] show ?thesis
      using v Cons by (simp add: case_prod_beta Let_def algebra_simps)
  qed
next
  case 2
  then show ?case by simp
next
  case (3 t ts)
  let ?ups = "(ts, n) # ups"
  have head: "walk_children (tree_cm r) parent indent address sanity (Suc depth) (t, ?ups) (up # stack) k =
     fst (node_infos (indent + Suc depth) address up k t) @
     resume r parent indent address (sanity + node_count t) (Suc depth) (t, ?ups) (up # stack)
       (k + of_nat (node_count t))"
    using 3(3,6) by (intro 3(1)) simp_all
  show ?case
  proof (cases ts)
    case Nil
    then show ?thesis using head resume_last [OF 3(3,4)] by (simp add: case_prod_beta Let_def)
  next
    case (Cons s ss)
    have "sanity + node_count t + forest_count ts \<le> LOOP_SANITY_LIMIT" using 3(6) by simp
    from 3(2) [OF 3(3,4) _ this, of n up stack "k + of_nat (node_count t)"] Cons
    have "walk_children (tree_cm r) parent indent address (sanity + node_count t) (Suc depth)
        (s, (ss, n) # ups) (up # stack) (k + of_nat (node_count t)) =
      fst (forest_infos (indent + Suc depth) address up (k + of_nat (node_count t)) ts) @
      resume r parent indent address (sanity + node_count t + forest_count ts) depth (n, ups) stack
        (k + of_nat (node_count t) + of_nat (forest_count ts))"
      by simp
    then show ?thesis
      using head Cons infos_next(1) [of "indent + Suc depth" address up k t]
      by (simp add: resume_sibling case_prod_beta Let_def algebra_simps)
  qed
qed

lemma walk_top:
  "ts \<noteq> [] \<Longrightarrow> sanity + forest_count ts \<le> LOOP_SANITY_LIMIT \<Longrightarrow>
   walk_children (tree_cm r) (n, ups) indent address sanity 1 (hd ts, (tl ts, n) # ups) [0] k =
     fst (forest_infos (Suc indent) address 0 k ts)"
proof (induction ts arbitrary: sanity k)
  case (Cons t ts)
  have head: "walk_children (tree_cm r) (n, ups) indent address sanity (Suc 0) (t, (ts, n) # ups) [0] k =
     fst (node_infos (indent + Suc 0) address 0 k t) @
     resume r (n, ups) indent address (sanity + node_count t) (Suc 0) (t, (ts, n) # ups) [0]
       (k + of_nat (node_count t))"
    using Cons.prems(2) by (intro walk_lists(1)) simp_all
  show ?case
  proof (cases ts)
    case Nil
    then show ?thesis using head by (simp add: resume_def case_prod_beta Let_def)
  next
    case (Cons s ss)
    then show ?thesis
      using head Cons.IH [of "sanity + node_count t" "k + of_nat (node_count t)"] Cons.prems
        infos_next(1) [of "Suc indent" address 0 k t]
      by (simp add: resume_sibling case_prod_beta Let_def)
  qed
qed simp

lemma PrintDevinstChildren_tree:
  assumes "forest_count (dn_children n) \<le> LOOP_SANITY_LIMIT"
  shows "PrintDevinstChildren (tree_cm r) (n, ups) indent address =
    fst (forest_infos (Suc indent) address 0 1 (dn_children n))"
  using walk_top [of "dn_children n" 0 r n ups indent address 1] assms
  by (cases "dn_children n") (simp_all add: PrintDevinstChildren_def)

section \<open>What the search has to find\<close>

fun places :: "devnode \<Rightarrow> (devnode list \<times> devnode) list \<Rightarrow> place list"
  and forest_places :: "devnode list \<Rightarrow> devnode \<Rightarrow> (devnode list \<times> devnode) list \<Rightarrow> place list" where
  "places (DevNode drv fr ds cs) ups =
     (DevNode drv fr ds cs, ups) # forest_places cs (DevNode drv fr ds cs) ups"
| "forest_places [] p ups = []"
| "forest_places (t # ts) p ups = places t ((ts, p) # ups) @ forest_places ts p ups"

fun depth_of :: "devnode \<Rightarrow> nat" and forest_depth :: "devnode list \<Rightarrow> nat" where
  "depth_of (DevNode drv fr ds cs) = Suc (forest_depth cs)"
| "forest_depth [] = 0"
| "forest_depth (t # ts) = max (depth_of t) (forest_depth ts)"

lemma length_places:
  "length (places t ups) = node_count t" "length (forest_places ts p ups) = forest_count ts"
  by (induction t ups and ts p ups rule: places_forest_places.induct) simp_all

definition key_is :: "string \<Rightarrow> place \<Rightarrow> bool" where
  "key_is name d \<longleftrightarrow> (case dn_driver (fst d) of RegString key \<Rightarrow> stricmp_eq name key | _ \<Rightarrow> False)"

definition readable :: "place \<Rightarrow> bool" where
  "readable d \<longleftrightarrow> (\<forall>e. dn_driver (fst d) \<noteq> RegFail e)"

text \<open>What is searched after everything at and below a place.\<close>

definition search_on :: "devnode \<Rightarrow> string \<Rightarrow> nat \<Rightarrow> place \<Rightarrow> place option" where
  "search_on r name n d =
     (case climb_search (tree_cm r) LOOP_SANITY_LIMIT d of
        None \<Rightarrow> None | Some next \<Rightarrow> search_driver (tree_cm r) name n next)"

lemma climb_search_up:
  "length ups < m \<Longrightarrow> length ups < m' \<Longrightarrow>
   climb_search (tree_cm r) m (t, ups) = climb_search (tree_cm r) m' (t, ups)"
proof (induction ups arbitrary: t m m')
  case Nil
  then obtain k k' where "m = Suc k" "m' = Suc k'" by (metis gr0_implies_Suc list.size(3))
  then show ?case by simp
next
  case (Cons u ups)
  then obtain k k' where "m = Suc k" "m' = Suc k'" "length ups < k" "length ups < k'"
    by (metis Suc_less_eq Suc_lessE length_Cons)
  note k = this
  obtain ss q where u: "u = (ss, q)" by (cases u)
  show ?case unfolding k(1,2) u using Cons.IH [OF k(3,4), of q] by (cases ss) simp_all
qed

lemma climb_search_step:
  "climb_search (tree_cm r) (Suc m) (t, ([], p) # ups) = climb_search (tree_cm r) m (p, ups)"
  "climb_search (tree_cm r) (Suc m) (t, (s # ss, p) # ups) = Some (s, (ss, p) # ups)"
  by simp_all

lemma search_on_last:
  assumes "Suc (length ups) < LOOP_SANITY_LIMIT"
  shows "search_on r name n (t, ([], p) # ups) = search_on r name n (p, ups)"
proof -
  have "climb_search (tree_cm r) LOOP_SANITY_LIMIT (t, ([], p) # ups) =
      climb_search (tree_cm r) (Suc LOOP_SANITY_LIMIT) (t, ([], p) # ups)"
    by (rule climb_search_up) (use assms in simp_all)
  also have "\<dots> = climb_search (tree_cm r) LOOP_SANITY_LIMIT (p, ups)"
    by (rule climb_search_step(1))
  finally show ?thesis unfolding search_on_def by (rule arg_cong)
qed

lemma search_on_sibling:
  assumes "Suc (length ups) < LOOP_SANITY_LIMIT"
  shows "search_on r name n (t, (s # ss, p) # ups) = search_driver (tree_cm r) name n (s, (ss, p) # ups)"
proof -
  have "climb_search (tree_cm r) LOOP_SANITY_LIMIT (t, (s # ss, p) # ups) =
      climb_search (tree_cm r) (Suc LOOP_SANITY_LIMIT) (t, (s # ss, p) # ups)"
    by (rule climb_search_up) (use assms in simp_all)
  also have "\<dots> = Some (s, (ss, p) # ups)" by (rule climb_search_step(2))
  finally have "climb_search (tree_cm r) LOOP_SANITY_LIMIT (t, (s # ss, p) # ups) = Some (s, (ss, p) # ups)" .
  then show ?thesis by (simp only: search_on_def option.case)
qed

lemma search_visit:
  assumes "readable (t, ups)"
  shows "search_driver (tree_cm r) name (Suc n) (t, ups) =
    (if key_is name (t, ups) then Some (t, ups)
     else case dn_children t of
       [] \<Rightarrow> search_on r name n (t, ups)
     | c # cs \<Rightarrow> search_driver (tree_cm r) name n (c, (cs, t) # ups))"
  using assms
  by (cases "dn_driver t") (auto simp: key_is_def readable_def search_on_def Let_def split: list.split)

text \<open>A subtree is searched in order, and then the search goes on.\<close>

lemma search_subtree:
  "list_all readable (places t ups) \<Longrightarrow> length ups + depth_of t < LOOP_SANITY_LIMIT \<Longrightarrow>
   search_driver (tree_cm r) name (node_count t + n) (t, ups) =
     (case find (key_is name) (places t ups) of
        Some d \<Rightarrow> Some d | None \<Rightarrow> search_on r name n (t, ups))"
  "ts \<noteq> [] \<Longrightarrow> list_all readable (forest_places ts p ups) \<Longrightarrow>
   Suc (length ups) + forest_depth ts < LOOP_SANITY_LIMIT \<Longrightarrow>
   search_driver (tree_cm r) name (forest_count ts + n) (hd ts, (tl ts, p) # ups) =
     (case find (key_is name) (forest_places ts p ups) of
        Some d \<Rightarrow> Some d | None \<Rightarrow> search_on r name n (p, ups))"
proof (induction t ups and ts p ups arbitrary: n and n rule: places_forest_places.induct)
  case (1 drv fr ds cs ups)
  let ?t = "DevNode drv fr ds cs"
  have r: "readable (?t, ups)" using 1(2) by simp
  have n: "node_count ?t + n = Suc (forest_count cs + n)" by simp
  have v: "search_driver (tree_cm r) name (node_count ?t + n) (?t, ups) =
    (if key_is name (?t, ups) then Some (?t, ups)
     else case cs of
       [] \<Rightarrow> search_on r name (forest_count cs + n) (?t, ups)
     | c # cs' \<Rightarrow> search_driver (tree_cm r) name (forest_count cs + n) (c, (cs', ?t) # ups))"
    unfolding n search_visit [OF r] by simp
  show ?case
  proof (cases cs)
    case Nil
    then show ?thesis unfolding v by simp
  next
    case (Cons c cs')
    have "search_driver (tree_cm r) name (forest_count cs + n) (hd cs, (tl cs, ?t) # ups) =
      (case find (key_is name) (forest_places cs ?t ups) of
         Some d \<Rightarrow> Some d | None \<Rightarrow> search_on r name n (?t, ups))"
      using 1(2,3) Cons by (intro 1(1)) simp_all
    then show ?thesis unfolding v using Cons by simp
  qed
next
  case 2
  then show ?case by simp
next
  case (3 t ts p ups)
  have short: "Suc (length ups) < LOOP_SANITY_LIMIT" using 3(5) by simp
  have "search_driver (tree_cm r) name (node_count t + (forest_count ts + n)) (t, (ts, p) # ups) =
     (case find (key_is name) (places t ((ts, p) # ups)) of
        Some d \<Rightarrow> Some d | None \<Rightarrow> search_on r name (forest_count ts + n) (t, (ts, p) # ups))"
    using 3(4,5) by (intro 3(1)) simp_all
  then have head: "search_driver (tree_cm r) name (forest_count (t # ts) + n) (t, (ts, p) # ups) =
     (case find (key_is name) (places t ((ts, p) # ups)) of
        Some d \<Rightarrow> Some d | None \<Rightarrow> search_on r name (forest_count ts + n) (t, (ts, p) # ups))"
    by (simp add: add.assoc)
  have app: "find P (xs @ ys) = (case find P xs of Some d \<Rightarrow> Some d | None \<Rightarrow> find P ys)"
    for P and xs ys :: "place list" by (induction xs) simp_all
  show ?case
  proof (cases ts)
    case Nil
    then show ?thesis using head search_on_last [OF short] by (simp add: app split: option.split)
  next
    case (Cons s ss)
    have "search_driver (tree_cm r) name (forest_count ts + n) (hd ts, (tl ts, p) # ups) =
      (case find (key_is name) (forest_places ts p ups) of
         Some d \<Rightarrow> Some d | None \<Rightarrow> search_on r name n (p, ups))"
      using 3(4,5) Cons by (intro 3(2)) simp_all
    then show ?thesis
      using head Cons search_on_sibling [OF short] by (simp add: app split: option.split)
  qed
qed

lemma depth_count: "depth_of t \<le> node_count t" "forest_depth ts \<le> forest_count ts"
  by (induction t and ts rule: depth_of_forest_depth.induct) auto

lemma places_below:
  "(n, ups') \<in> set (places t ups) \<Longrightarrow> node_count n \<le> node_count t"
  "(n, ups') \<in> set (forest_places ts p ups) \<Longrightarrow> node_count n \<le> forest_count ts"
  by (induction t ups and ts p ups rule: places_forest_places.induct) auto

lemma forest_count_children: "forest_count (dn_children n) < node_count n"
  by (cases n) simp

text \<open>
  C22. The device shown for a port is the first one, depth first, whose driver key is the
  port's, and for a device that is not a hub everything below it is listed depth first with
  running numbers from 1, each with the number of the node above it (0 at the top). The
  iterative walks with their sanity limits do this for every tree of fewer than 10000 devices.
\<close>

theorem device_listing_correct:
  assumes "node_count r < LOOP_SANITY_LIMIT" "list_all readable (places r [])"
  shows "PrintDeviceDesc (tree_cm r) name port level children address parent =
    (case find (key_is name) (places r []) of
       None \<Rightarrow> []
     | Some (n, ups) \<Rightarrow>
         (case dn_desc n of
            None \<Rightarrow> []
          | Some desc \<Rightarrow>
              \<lparr>ei_level = level, ei_port = port, ei_display = desc, ei_address = address,
               ei_parent = parent, ei_node = 0, ei_parent_node = 0\<rparr> #
              (if children then fst (forest_infos (Suc level) address 0 1 (dn_children n)) else [])))"
proof -
  obtain k where k: "LOOP_SANITY_LIMIT = node_count r + k" using assms(1) less_imp_add_positive by metis
  have "search_driver (tree_cm r) name (node_count r + k) (r, []) =
      (case find (key_is name) (places r []) of Some d \<Rightarrow> Some d | None \<Rightarrow> search_on r name k (r, []))"
    using assms depth_count(1) [of r] by (intro search_subtree(1)) simp_all
  moreover have "climb_search (tree_cm r) LOOP_SANITY_LIMIT (r, []) = climb_search (tree_cm r) 1 (r, [])"
    by (rule climb_search_up) simp_all
  then have "search_on r name k (r, []) = None" by (simp add: search_on_def)
  ultimately have found: "search_driver (tree_cm r) name LOOP_SANITY_LIMIT (r, []) =
      find (key_is name) (places r [])"
    unfolding k by (cases "find (key_is name) (places r [])") simp_all
  show ?thesis
  proof (cases "find (key_is name) (places r [])")
    case None
    then show ?thesis using found by (simp add: PrintDeviceDesc_def)
  next
    case (Some d)
    obtain n ups where d: "d = (n, ups)" by (cases d)
    have "d \<in> set (places r [])" using Some by (auto simp: find_Some_iff)
    then have "node_count n \<le> node_count r" using places_below(1) unfolding d by blast
    then have "forest_count (dn_children n) \<le> LOOP_SANITY_LIMIT"
      using assms(1) forest_count_children [of n] by linarith
    then have "PrintDevinstChildren (tree_cm r) (n, ups) level address =
        fst (forest_infos (Suc level) address 0 1 (dn_children n))"
      by (rule PrintDevinstChildren_tree)
    then show ?thesis using found Some d by (simp add: PrintDeviceDesc_def split: option.split)
  qed
qed

definition example_devices :: devnode where
  "example_devices = DevNode RegNoSuchValue None None
     [DevNode (RegString ''{36FC}'') None (Some [72])
        [DevNode (RegString ''{AB12}'') None (Some [67])
           [DevNode RegNoSuchValue (Some [75]) None [DevNode RegNoSuchValue None (Some [76]) []],
            DevNode RegNoSuchValue None (Some []) [],
            DevNode RegNoSuchValue None (Some [77]) []]]]"

theorem device_listing_correct_witness:
  "map (\<lambda>i. (ei_display i, ei_level i, ei_node i, ei_parent_node i))
     (PrintDeviceDesc (tree_cm example_devices) ''{ab12}'' 2 0 True 5 1) =
   [([67], 0, 0, 0), ([75], 1, 1, 0), ([76], 2, 2, 1), ([77], 1, 4, 0)]"
proof -
  have "node_count example_devices < LOOP_SANITY_LIMIT" "list_all readable (places example_devices [])"
    by (simp_all add: example_devices_def readable_def)
  note listing = device_listing_correct [OF this, of "''{ab12}''" 2 0 True 5 1]
  have "find (key_is ''{ab12}'') (places example_devices []) =
      Some (hd (dn_children (hd (dn_children example_devices))),
        [([], hd (dn_children example_devices)), ([], example_devices)])"
    unfolding example_devices_def by code_simp
  then show ?thesis unfolding listing
    by (simp add: example_devices_def child_info_def node_name_def Let_def)
qed

end
