(* ===== verification/Enumeration.thy ===== *)
theory Enumeration
  imports DeviceWalk AddressFilter
begin

text \<open>
  The enumeration of the devices behind a root hub in the command line tool (enum.c): the
  recursion over the hubs and their ports with the two kinds of callbacks, the lists printed
  for users and for Wireshark, and the collection of the connected devices with their ids.

  What the hubs answer is a tree: a hub that can be opened and queried has its ports; a port
  has the answer to the connection request (None when it fails), the driver key name, and for
  an external hub what is behind its name.
\<close>

section \<open>Hubs\<close>

datatype connection_status = NoDeviceConnected | DeviceConnected | OtherStatus

record connection =
  cn_status :: connection_status
  cn_isHub :: bool
  cn_address :: u16
  cn_vendor :: u16
  cn_product :: u16

datatype hub = Unreachable | HubPorts "port list"
  and port = Port "connection option" "string option" "hub option"

text \<open>
  The callbacks: for the printing one, a device's driver key, port, level, whether to print
  its children, its address and its hub's address; for the other one the port, the address,
  the hub's address and the device descriptor. Both only add to an output, here the list of
  what they add.
\<close>

type_synonym 'e print_callback = "string \<Rightarrow> nat \<Rightarrow> nat \<Rightarrow> bool \<Rightarrow> u16 \<Rightarrow> u16 \<Rightarrow> 'e list"
type_synonym 'e port_callback = "nat \<Rightarrow> u16 \<Rightarrow> u16 \<Rightarrow> connection \<Rightarrow> 'e list"

fun EnumerateHub :: "'e print_callback option \<Rightarrow> 'e port_callback option \<Rightarrow> nat \<Rightarrow> u16 \<Rightarrow> hub \<Rightarrow> 'e list"
  and EnumerateHubPorts ::
    "'e print_callback option \<Rightarrow> 'e port_callback option \<Rightarrow> nat \<Rightarrow> u16 \<Rightarrow> nat \<Rightarrow> port list \<Rightarrow> 'e list"
  and EnumeratePort ::
    "'e print_callback option \<Rightarrow> 'e port_callback option \<Rightarrow> nat \<Rightarrow> u16 \<Rightarrow> nat \<Rightarrow> port \<Rightarrow> 'e list" where
  "EnumerateHub pr pc level hubAddress Unreachable = []"
| "EnumerateHub pr pc level hubAddress (HubPorts ports) =
     EnumerateHubPorts pr pc level hubAddress 1 ports"
| "EnumerateHubPorts pr pc level hubAddress index [] = []"
| "EnumerateHubPorts pr pc level hubAddress index (p # ps) =
     EnumeratePort pr pc level hubAddress index p @
     EnumerateHubPorts pr pc level hubAddress (Suc index) ps"
| "EnumeratePort pr pc level hubAddress index (Port info key ext) =
     (case info of
        None \<Rightarrow> []
      | Some con \<Rightarrow>
          if cn_status con = NoDeviceConnected then []
          else
            (case (pr, key) of
               (Some print_callback, Some driverKeyName) \<Rightarrow>
                 print_callback driverKeyName index level (\<not> cn_isHub con) (cn_address con) hubAddress
             | _ \<Rightarrow> []) @
            (case pc of
               Some port_callback \<Rightarrow>
                 if cn_status con = DeviceConnected
                 then port_callback index (cn_address con) hubAddress con else []
             | None \<Rightarrow> []) @
            (if cn_isHub con
             then (case ext of
                     None \<Rightarrow> [] | Some h \<Rightarrow> EnumerateHub pr pc (Suc level) (cn_address con) h)
             else []))"

text \<open>The name under which a hub is opened: \<open>\??\\<close> is replaced and \<open>\\.\\<close> is added when missing.\<close>

abbreviation (input) backslash :: char where "backslash \<equiv> CHR 0x5C"

definition device_prefix :: string where
  "device_prefix = [backslash, backslash, CHR ''.'', backslash]"

definition hub_device_name :: "string \<Rightarrow> string" where
  "hub_device_name hub =
     (if take 4 hub = [backslash, CHR ''?'', CHR ''?'', backslash] then device_prefix @ drop 4 hub
      else if hub \<noteq> [] \<and> hd hub = backslash then hub
      else device_prefix @ hub)"

section \<open>Printed lists\<close>

definition newline :: string where "newline = [CHR 0x0A]"

definition print_indent :: "nat \<Rightarrow> string" where
  "print_indent level =
     (if level > 20
      then ''*** Warning: Device tree might be incorrectly formatted. ***'' @ newline
      else concat (replicate level ''  ''))"

text \<open>The conversion of 16-bit characters to the output's encoding is an argument.\<close>

definition print_usbpcapcmd :: "(u16 list \<Rightarrow> string) \<Rightarrow> enum_info \<Rightarrow> string" where
  "print_usbpcapcmd wide_print i =
     print_indent (ei_level i + 2) @
     (if ei_port i \<noteq> 0 then ''[Port '' @ dec (ei_port i) @ ''] '' else []) @
     wide_print (ei_display i) @ newline"

definition print_extcap_config :: "(u16 list \<Rightarrow> string) \<Rightarrow> enum_info \<Rightarrow> string" where
  "print_extcap_config utf8 i =
     (let addr = dec (unat (ei_address i)) in
      if ei_node i \<noteq> 0 then
        ''value {arg=99}{value='' @ addr @ ''_'' @ dec (unat (ei_node i)) @
        ''}{display='' @ utf8 (ei_display i) @ ''}{enabled=false}'' @
        (if ei_parent_node i \<noteq> 0
         then ''{parent='' @ addr @ ''_'' @ dec (unat (ei_parent_node i)) @ ''}''
         else ''{parent='' @ addr @ ''}'')
      else
        ''value {arg=99}{value='' @ addr @ ''}{display=['' @ addr @ ''] '' @ utf8 (ei_display i) @
        ''}{enabled=true}'' @
        (if ei_parent i \<noteq> 0 then ''{parent='' @ dec (unat (ei_parent i)) @ ''}'' else [])) @ newline"

text \<open>
  The filter's answer to the request for the symbolic link of its hub: None when the filter
  cannot be opened or the request fails or returns no bytes.
\<close>

definition enumerate_print_usbpcap_interactive ::
  "(u16 list \<Rightarrow> string) \<Rightarrow> 'd cm \<Rightarrow> (u16 list \<times> hub) option \<Rightarrow> string" where
  "enumerate_print_usbpcap_interactive wide_print cm link =
     (case link of
        None \<Rightarrow> []
      | Some (name, h) \<Rightarrow>
          ''  '' @ wide_print name @ newline @
          concat (map (print_usbpcapcmd wide_print)
            (EnumerateHub (Some (PrintDeviceDesc cm)) None 0 0 h)))"

definition enumerate_print_extcap_config ::
  "(u16 list \<Rightarrow> string) \<Rightarrow> 'd cm \<Rightarrow> (u16 list \<times> hub) option \<Rightarrow> string" where
  "enumerate_print_extcap_config utf8 cm link =
     (case link of
        None \<Rightarrow> []
      | Some (name, h) \<Rightarrow>
          concat (map (print_extcap_config utf8)
            (EnumerateHub (Some (PrintDeviceDesc cm)) None 0 0 h)))"

section \<open>Collecting the connected devices\<close>

record connected_info =
  ci_port :: nat
  ci_parent :: u16
  ci_address :: u16
  ci_vendor :: u16
  ci_product :: u16
  ci_isHub :: bool
  ci_description :: string

text \<open>A call of the callback of type EnumConnectedPortCallback.\<close>

record port_event =
  pe_port :: nat
  pe_address :: u16
  pe_hub_address :: u16
  pe_connection :: connection

definition enumerate_all_connected_devices :: "(u16 list \<times> hub) option \<Rightarrow> port_event list" where
  "enumerate_all_connected_devices link =
     (case link of
        None \<Rightarrow> []
      | Some (name, h) \<Rightarrow>
          EnumerateHub None
            (Some (\<lambda>port address parent con.
               [\<lparr>pe_port = port, pe_address = address, pe_hub_address = parent, pe_connection = con\<rparr>]))
            0 0 h)"

text \<open>
  The description: for each device with these ids that the set-up functions report, the
  friendly name and the description of the registry; the first that is not empty is taken.
\<close>

fun fill_device_description_setupapi ::
  "(u16 list \<Rightarrow> string) \<Rightarrow> (u16 list option \<times> u16 list option) list option \<Rightarrow> string" where
  "fill_device_description_setupapi convert None = []"
| "fill_device_description_setupapi convert (Some []) = []"
| "fill_device_description_setupapi convert (Some ((friendly, desc) # ds)) =
     (case friendly of
        Some (c # cs) \<Rightarrow> convert (c # cs)
      | _ \<Rightarrow> (case desc of
               Some (c # cs) \<Rightarrow> convert (c # cs)
             | _ \<Rightarrow> fill_device_description_setupapi convert (Some ds)))"

text \<open>
  What the system answers while devices are collected: whether the array can grow to a
  capacity, the second connection request (by port and hub), the set-up functions.
\<close>

record collect_env =
  ce_grow :: "nat \<Rightarrow> bool"
  ce_hub_flag :: "u16 \<Rightarrow> nat \<Rightarrow> bool option"
  ce_convert :: "u16 list \<Rightarrow> string"
  ce_setup :: "u16 \<Rightarrow> u16 \<Rightarrow> (u16 list option \<times> u16 list option) list option"

record collect_context =
  cc_devices :: "connected_info list"
  cc_capacity :: nat

definition collected :: "collect_env \<Rightarrow> port_event \<Rightarrow> connected_info" where
  "collected env ev =
     (let con = pe_connection ev in
      \<lparr>ci_port = pe_port ev, ci_parent = pe_hub_address ev, ci_address = pe_address ev,
       ci_vendor = cn_vendor con, ci_product = cn_product con,
       ci_isHub = (case ce_hub_flag env (pe_hub_address ev) (pe_port ev) of
                     Some flag \<Rightarrow> flag | None \<Rightarrow> False),
       ci_description = fill_device_description_setupapi (ce_convert env)
         (ce_setup env (cn_vendor con) (cn_product con))\<rparr>)"

definition collect_connected_device :: "collect_env \<Rightarrow> port_event \<Rightarrow> collect_context \<Rightarrow> collect_context" where
  "collect_connected_device env ev ctx =
     (if length (cc_devices ctx) = cc_capacity ctx
      then let newCapacity = (if cc_capacity ctx = 0 then 16 else cc_capacity ctx * 2) in
           if \<not> ce_grow env newCapacity then ctx
           else \<lparr>cc_devices = cc_devices ctx @ [collected env ev], cc_capacity = newCapacity\<rparr>
      else ctx\<lparr>cc_devices := cc_devices ctx @ [collected env ev]\<rparr>)"

text \<open>It reports success whatever happens; its callers pass pointers to their variables.\<close>

definition enumerate_get_connected_devices ::
  "collect_env \<Rightarrow> (u16 list \<times> hub) option \<Rightarrow> bool \<times> connected_info list" where
  "enumerate_get_connected_devices env link =
     (True, cc_devices (fold (collect_connected_device env) (enumerate_all_connected_devices link)
        \<lparr>cc_devices = [], cc_capacity = 0\<rparr>))"

section \<open>Which devices are enumerated\<close>

text \<open>
  A device is connected at port p of a hub (addresses of hub and device, ports counted from
  1) when the port says so, or when it is connected behind an external hub at some port.
\<close>

inductive connected_at :: "hub \<Rightarrow> u16 \<Rightarrow> port_event \<Rightarrow> bool" where
  here: "p < length ports \<Longrightarrow> ports ! p = Port (Some con) key ext \<Longrightarrow> cn_status con = DeviceConnected \<Longrightarrow>
    connected_at (HubPorts ports) address
      \<lparr>pe_port = Suc p, pe_address = cn_address con, pe_hub_address = address, pe_connection = con\<rparr>"
| below: "p < length ports \<Longrightarrow> ports ! p = Port (Some con) key (Some h) \<Longrightarrow>
    cn_status con \<noteq> NoDeviceConnected \<Longrightarrow> cn_isHub con \<Longrightarrow> connected_at h (cn_address con) ev \<Longrightarrow>
    connected_at (HubPorts ports) address ev"

abbreviation port_events :: "nat \<Rightarrow> u16 \<Rightarrow> u16 \<Rightarrow> connection \<Rightarrow> port_event list" where
  "port_events \<equiv> \<lambda>port address parent con.
     [\<lparr>pe_port = port, pe_address = address, pe_hub_address = parent, pe_connection = con\<rparr>]"

text \<open>What one port contributes.\<close>

fun at_port :: "u16 \<Rightarrow> nat \<Rightarrow> port \<Rightarrow> port_event \<Rightarrow> bool" where
  "at_port address index (Port (Some con) key ext) ev \<longleftrightarrow>
     cn_status con = DeviceConnected \<and> ev = \<lparr>pe_port = index, pe_address = cn_address con,
        pe_hub_address = address, pe_connection = con\<rparr> \<or>
     cn_status con \<noteq> NoDeviceConnected \<and> cn_isHub con \<and>
        (case ext of None \<Rightarrow> False | Some h \<Rightarrow> connected_at h (cn_address con) ev)"
| "at_port address index (Port None key ext) ev \<longleftrightarrow> False"

lemma connected_at_ports:
  "connected_at (HubPorts ports) address ev \<longleftrightarrow> (\<exists>p<length ports. at_port address (Suc p) (ports ! p) ev)"
proof
  assume "connected_at (HubPorts ports) address ev"
  then show "\<exists>p<length ports. at_port address (Suc p) (ports ! p) ev"
  proof (cases rule: connected_at.cases)
    case (here p con key ext)
    then show ?thesis by (intro exI [of _ p]) simp
  next
    case (below p con key h)
    then show ?thesis by (intro exI [of _ p]) simp
  qed
next
  assume "\<exists>p<length ports. at_port address (Suc p) (ports ! p) ev"
  then obtain p where p: "p < length ports" "at_port address (Suc p) (ports ! p) ev" by blast
  obtain info key ext where q: "ports ! p = Port info key ext" by (cases "ports ! p")
  obtain con where con: "info = Some con" using p(2) q by (cases info) simp_all
  then have "cn_status con = DeviceConnected \<and> ev = \<lparr>pe_port = Suc p, pe_address = cn_address con,
        pe_hub_address = address, pe_connection = con\<rparr> \<or>
     cn_status con \<noteq> NoDeviceConnected \<and> cn_isHub con \<and>
        (case ext of None \<Rightarrow> False | Some h \<Rightarrow> connected_at h (cn_address con) ev)"
    using p(2) q by simp
  then show "connected_at (HubPorts ports) address ev"
  proof (elim disjE conjE)
    assume "cn_status con = DeviceConnected" and ev: "ev = \<lparr>pe_port = Suc p, pe_address = cn_address con,
        pe_hub_address = address, pe_connection = con\<rparr>"
    then show ?thesis unfolding ev using p(1) q con by (intro connected_at.here) simp_all
  next
    assume "cn_status con \<noteq> NoDeviceConnected" "cn_isHub con"
      "case ext of None \<Rightarrow> False | Some h \<Rightarrow> connected_at h (cn_address con) ev"
    then show ?thesis using p(1) q con by (cases ext) (auto intro: connected_at.below)
  qed
qed

lemma EnumerateHub_connected:
  "pr = None \<Longrightarrow> pc = Some port_events \<Longrightarrow>
     ev \<in> set (EnumerateHub pr pc level address h) \<longleftrightarrow> connected_at h address ev"
  "pr = None \<Longrightarrow> pc = Some port_events \<Longrightarrow>
     ev \<in> set (EnumerateHubPorts pr pc level address index ps) \<longleftrightarrow>
       (\<exists>p<length ps. at_port address (index + p) (ps ! p) ev)"
  "pr = None \<Longrightarrow> pc = Some port_events \<Longrightarrow>
     ev \<in> set (EnumeratePort pr pc level address index q) \<longleftrightarrow> at_port address index q ev"
proof (induction pr pc level address h and pr pc level address index ps and pr pc level address index q
    rule: EnumerateHub_EnumerateHubPorts_EnumeratePort.induct)
  case (1 pr pc level address)
  then show ?case by (auto elim: connected_at.cases)
next
  case (2 pr pc level address ports)
  then show ?case by (simp add: connected_at_ports)
next
  case (3 pr pc level address index)
  then show ?case by simp
next
  case (4 pr pc level address index p ps)
  have "(\<exists>i<Suc (length ps). at_port address (index + i) ((p # ps) ! i) ev) \<longleftrightarrow>
      at_port address index p ev \<or> (\<exists>i<length ps. at_port address (Suc index + i) (ps ! i) ev)"
    by (auto simp: less_Suc_eq_0_disj)
  then show ?case using 4 by simp
next
  case (5 pr pc level address index info key ext)
  show ?case
  proof (cases info)
    case (Some con)
    have ih: "ev \<in> set (EnumerateHub pr pc (Suc level) (cn_address con) h) \<longleftrightarrow>
        connected_at h (cn_address con) ev"
      if "ext = Some h" "cn_status con \<noteq> NoDeviceConnected" "cn_isHub con" for h
      using 5(1) [OF Some that(2,3,1) 5(2,3)] .
    define e where "e = \<lparr>pe_port = index, pe_address = cn_address con, pe_hub_address = address, pe_connection = con\<rparr>"
    have at: "at_port address index (Port info key ext) ev \<longleftrightarrow> cn_status con = DeviceConnected \<and> ev = e \<or>
        cn_status con \<noteq> NoDeviceConnected \<and> cn_isHub con \<and>
        (case ext of None \<Rightarrow> False | Some h \<Rightarrow> connected_at h (cn_address con) ev)"
      unfolding Some at_port.simps e_def by (rule refl)
    show ?thesis
    proof (cases "cn_isHub con \<and> cn_status con \<noteq> NoDeviceConnected")
      case True
      then show ?thesis using ih unfolding at
        by (cases ext; cases "cn_status con") (simp_all add: Some 5(2,3) e_def)
    next
      case False
      then show ?thesis unfolding at
        by (cases "cn_status con") (auto simp: Some 5(2,3) e_def)
    qed
  qed simp
qed

lemma collect_all:
  "\<forall>n. ce_grow env n \<Longrightarrow> cc_devices (fold (collect_connected_device env) evs ctx) =
     cc_devices ctx @ map (collected env) evs"
  by (induction evs arbitrary: ctx) (simp_all add: collect_connected_device_def Let_def)

lemma collect_some:
  "set (cc_devices (fold (collect_connected_device env) evs ctx)) \<subseteq>
     set (cc_devices ctx) \<union> collected env ` set evs"
proof (induction evs arbitrary: ctx)
  case (Cons ev evs)
  have "cc_devices (collect_connected_device env ev ctx) =
      cc_devices ctx @ [collected env ev] \<or>
      cc_devices (collect_connected_device env ev ctx) = cc_devices ctx"
    by (simp add: collect_connected_device_def Let_def)
  then show ?case using Cons.IH [of "collect_connected_device env ev ctx"]
    by (elim disjE) (simp_all, blast+)
qed simp

lemma enumerate_all_connected:
  "ev \<in> set (enumerate_all_connected_devices link) \<longleftrightarrow>
     (case link of None \<Rightarrow> False | Some (name, h) \<Rightarrow> connected_at h 0 ev)"
  by (cases link) (auto simp: enumerate_all_connected_devices_def EnumerateHub_connected(1))

text \<open>C24. The list of connected devices has an entry only for devices that are connected at
  some port of the root hub or behind a chain of external hubs below it, with the address,
  the ids and the parent of that port; and when the array can grow it has an entry for every
  such device, in the order in which the ports are visited. The operation always reports
  success.\<close>

theorem connected_devices_complete:
  "fst (enumerate_get_connected_devices env (Some (name, h))) \<and>
   set (snd (enumerate_get_connected_devices env (Some (name, h)))) \<subseteq>
     collected env ` {ev. connected_at h 0 ev} \<and>
   ((\<forall>n. ce_grow env n) \<longrightarrow>
     set (snd (enumerate_get_connected_devices env (Some (name, h)))) =
       collected env ` {ev. connected_at h 0 ev} \<and>
     snd (enumerate_get_connected_devices env (Some (name, h))) =
       map (collected env) (enumerate_all_connected_devices (Some (name, h))))"
proof -
  let ?evs = "enumerate_all_connected_devices (Some (name, h))"
  have evs: "set ?evs = {ev. connected_at h 0 ev}"
    by (auto simp: enumerate_all_connected)
  have sub: "set (snd (enumerate_get_connected_devices env (Some (name, h)))) \<subseteq>
      collected env ` {ev. connected_at h 0 ev}"
    using collect_some [of env ?evs "\<lparr>cc_devices = [], cc_capacity = 0\<rparr>"]
    by (simp add: enumerate_get_connected_devices_def evs)
  have "(\<forall>n. ce_grow env n) \<longrightarrow>
      snd (enumerate_get_connected_devices env (Some (name, h))) = map (collected env) ?evs"
    by (simp add: enumerate_get_connected_devices_def collect_all)
  then show ?thesis using sub evs by (auto simp: enumerate_get_connected_devices_def)
qed

definition sample_hub :: hub where
  "sample_hub = HubPorts
     [Port (Some \<lparr>cn_status = NoDeviceConnected, cn_isHub = False, cn_address = 0, cn_vendor = 0,
        cn_product = 0\<rparr>) None None,
      Port (Some \<lparr>cn_status = DeviceConnected, cn_isHub = True, cn_address = 2, cn_vendor = 0x424,
        cn_product = 0x2514\<rparr>) None
        (Some (HubPorts [Port None None None,
           Port (Some \<lparr>cn_status = DeviceConnected, cn_isHub = False, cn_address = 5,
             cn_vendor = 0x46D, cn_product = 0xC31C\<rparr>) None None]))]"

definition sample_env :: collect_env where
  "sample_env = \<lparr>ce_grow = (\<lambda>n. True), ce_hub_flag = (\<lambda>a p. Some (a = 0 \<and> p = 2)),
     ce_convert = (\<lambda>w. []), ce_setup = (\<lambda>v p. None)\<rparr>"

theorem connected_devices_complete_witness:
  "(\<forall>n. ce_grow sample_env n) \<and>
   set (snd (enumerate_get_connected_devices sample_env (Some ([], sample_hub)))) =
     collected sample_env ` {ev. connected_at sample_hub 0 ev} \<and>
   map (\<lambda>i. (ci_address i, ci_vendor i, ci_parent i, ci_isHub i))
     (snd (enumerate_get_connected_devices sample_env (Some ([], sample_hub)))) =
     [(2, 0x424, 0, True), (5, 0x46D, 2, False)]"
proof -
  have grow: "\<forall>n. ce_grow sample_env n" by (simp add: sample_env_def)
  note c = connected_devices_complete [of sample_env "[]" sample_hub]
  have "snd (enumerate_get_connected_devices sample_env (Some ([], sample_hub))) =
      map (collected sample_env) (enumerate_all_connected_devices (Some ([], sample_hub)))"
    using c grow by blast
  moreover have "map (\<lambda>i. (ci_address i, ci_vendor i, ci_parent i, ci_isHub i))
      (map (collected sample_env) (enumerate_all_connected_devices (Some ([], sample_hub)))) =
      [(2, 0x424, 0, True), (5, 0x46D, 2, False)]"
    by (simp add: enumerate_all_connected_devices_def sample_hub_def collected_def sample_env_def Let_def)
  ultimately show ?thesis using c grow by metis
qed

end
