(* ===== verification/Json.thy ===== *)
theory Json
  imports CLib
begin

text \<open>
  The JSON text the command line tool prints (json_print_escaped of cmd.c) and a reader for
  JSON, the specification the printed lists and answers are checked against. Text is the list
  of its bytes; bytes from 0x80 on pass through unchanged on both sides.
\<close>

section \<open>Hexadecimal digits\<close>

definition hex_digit :: "nat \<Rightarrow> char" where
  "hex_digit k = (if k < 10 then char_of (48 + k) else char_of (87 + k))"

text \<open>The conversion %04x of a number below 65536.\<close>

definition hex4 :: "nat \<Rightarrow> string" where
  "hex4 n = [hex_digit (n div 4096 mod 16), hex_digit (n div 256 mod 16),
     hex_digit (n div 16 mod 16), hex_digit (n mod 16)]"

definition hex_val :: "char \<Rightarrow> nat option" where
  "hex_val c =
     (let k = of_char c in
      if 48 \<le> k \<and> k \<le> 57 then Some (k - 48)
      else if 97 \<le> k \<and> k \<le> 102 then Some (k - 87)
      else if 65 \<le> k \<and> k \<le> 70 then Some (k - 55)
      else None)"

lemma hex_val_digit [simp]: "k < 16 \<Longrightarrow> hex_val (hex_digit k) = Some k"
  by (simp add: hex_val_def hex_digit_def Let_def)

lemma hex4_value:
  fixes n :: nat
  assumes "n < 65536"
  shows "4096 * (n div 4096 mod 16) + 256 * (n div 256 mod 16) + 16 * (n div 16 mod 16) + n mod 16 = n"
proof -
  define a where "a = n div 16"
  define b where "b = a div 16"
  define c where "c = b div 16"
  have d: "n div 256 = b" "n div 4096 = c" by (simp_all add: a_def b_def c_def div_mult2_eq)
  have "n = 16 * a + n mod 16" "a = 16 * b + a mod 16" "b = 16 * c + b mod 16"
    unfolding a_def b_def c_def by (rule mult_div_mod_eq [symmetric])+
  moreover have "c mod 16 = c" using assms by (simp add: c_def b_def a_def div_mult2_eq [symmetric] less_mult_imp_div_less)
  ultimately show ?thesis unfolding d a_def [symmetric] by linarith
qed

section \<open>Strings\<close>

abbreviation (input) quote :: char where "quote \<equiv> CHR 0x22"
abbreviation (input) backslash :: char where "backslash \<equiv> CHR 0x5C"

text \<open>One character of the value (the switch and its default branch).\<close>

definition json_escape :: "char \<Rightarrow> string" where
  "json_escape c =
     (if c = backslash then [backslash, backslash]
      else if c = quote then [backslash, quote]
      else if c = CHR 0x08 then backslash # ''b''
      else if c = CHR 0x0C then backslash # ''f''
      else if c = CHR 0x0A then backslash # ''n''
      else if c = CHR 0x0D then backslash # ''r''
      else if c = CHR 0x09 then backslash # ''t''
      else if (of_char c :: nat) < 0x20 then backslash # CHR ''u'' # hex4 (of_char c)
      else [c])"

text \<open>None is the NULL pointer, which prints as the empty string.\<close>

definition json_print_escaped :: "string option \<Rightarrow> string" where
  "json_print_escaped value =
     [quote] @ (case value of None \<Rightarrow> [] | Some v \<Rightarrow> concat (map json_escape v)) @ [quote]"

text \<open>
  The reader of a string after its opening quote: the value and what follows the closing
  quote. Of the u escapes only those below 0x80 stand for a single byte and are read.
\<close>

definition simple_escape :: "char \<Rightarrow> char option" where
  "simple_escape e =
     (if e = backslash \<or> e = quote \<or> e = CHR 0x2F then Some e
      else if e = CHR ''b'' then Some (CHR 0x08)
      else if e = CHR ''f'' then Some (CHR 0x0C)
      else if e = CHR ''n'' then Some (CHR 0x0A)
      else if e = CHR ''r'' then Some (CHR 0x0D)
      else if e = CHR ''t'' then Some (CHR 0x09)
      else None)"

definition unicode_escape :: "char \<Rightarrow> char \<Rightarrow> char \<Rightarrow> char \<Rightarrow> char option" where
  "unicode_escape a b c d =
     (case (hex_val a, hex_val b, hex_val c, hex_val d) of
        (Some i, Some j, Some k, Some l) \<Rightarrow>
          (let n = 4096 * i + 256 * j + 16 * k + l in if n < 128 then Some (char_of n) else None)
      | _ \<Rightarrow> None)"

definition add_char :: "char \<Rightarrow> (string \<times> string) option \<Rightarrow> (string \<times> string) option" where
  "add_char x = map_option (\<lambda>(v, r). (x # v, r))"

fun json_chars :: "string \<Rightarrow> (string \<times> string) option" where
  "json_chars [] = None"
| "json_chars (c # cs) =
     (if c = quote then Some ([], cs)
      else if c = backslash then
        (case cs of
           [] \<Rightarrow> None
         | e # es \<Rightarrow>
             if e = CHR ''u'' then
               (case es of
                  h1 # h2 # h3 # h4 # ds \<Rightarrow>
                    (case unicode_escape h1 h2 h3 h4 of
                       Some x \<Rightarrow> add_char x (json_chars ds) | None \<Rightarrow> None)
                | _ \<Rightarrow> None)
             else (case simple_escape e of
                     Some x \<Rightarrow> add_char x (json_chars es) | None \<Rightarrow> None))
      else if (of_char c :: nat) < 32 then None
      else add_char c (json_chars cs))"

lemma json_chars_escape: "json_chars (json_escape c @ rest) = add_char c (json_chars rest)"
proof -
  consider "c = backslash" | "c = quote" | "c = CHR 0x08" | "c = CHR 0x0C" | "c = CHR 0x0A"
    | "c = CHR 0x0D" | "c = CHR 0x09"
    | (ctl) "json_escape c = backslash # CHR ''u'' # hex4 (of_char c)" "(of_char c :: nat) < 32"
    | (plain) "json_escape c = [c]" "\<not> (of_char c :: nat) < 32" "c \<noteq> quote" "c \<noteq> backslash"
    unfolding json_escape_def by presburger
  then show ?thesis
  proof cases
    case ctl
    have "unicode_escape (hex_digit ((of_char c :: nat) div 4096 mod 16)) (hex_digit (of_char c div 256 mod 16))
        (hex_digit (of_char c div 16 mod 16)) (hex_digit (of_char c mod 16)) = Some c"
      using ctl(2) hex4_value [of "of_char c"]
      by (simp add: unicode_escape_def Let_def)
    then show ?thesis unfolding ctl(1) by (simp add: hex4_def)
  next
    case plain
    then show ?thesis by simp
  qed (simp_all add: json_escape_def simple_escape_def)
qed

lemma hex_digit_plain: "k < 16 \<Longrightarrow> json_escape (hex_digit k) = [hex_digit k]"
proof -
  assume k: "k < 16"
  have digits: "map hex_digit [0..<16] = ''0123456789abcdef''" by code_simp
  have "hex_digit k = map hex_digit [0..<16] ! k" using k by simp
  then have "hex_digit k \<in> set ''0123456789abcdef''"
    unfolding digits using k by (metis digits length_map length_upt minus_nat.diff_0 nth_mem)
  moreover have "\<forall>c\<in>set ''0123456789abcdef''. json_escape c = [c]" by (simp add: json_escape_def)
  ultimately show ?thesis by blast
qed

lemma json_chars_print:
  "json_chars (concat (map json_escape v) @ quote # rest) = Some (v, rest)"
  by (induction v) (simp_all add: json_chars_escape add_char_def)

section \<open>Values\<close>

datatype json = JNull | JBool bool | JNumber nat | JString string
  | JArray "json list" | JObject "(string \<times> json) list"

text \<open>
  The reader: a value and what follows it, without white space between the tokens. The fuel
  is the length of the text, since every call reads at least one character.
\<close>

definition json_number :: "string \<Rightarrow> (json \<times> string) option" where
  "json_number s =
     (case takeWhile isdigit s of
        [] \<Rightarrow> None
      | d # ds \<Rightarrow> if d = CHR ''0'' \<and> ds \<noteq> [] then None
          else Some (JNumber (nat (dec_val (d # ds))), dropWhile isdigit s))"

fun json_value :: "nat \<Rightarrow> string \<Rightarrow> (json \<times> string) option"
  and json_elements :: "nat \<Rightarrow> string \<Rightarrow> (json list \<times> string) option"
  and json_members :: "nat \<Rightarrow> string \<Rightarrow> ((string \<times> json) list \<times> string) option" where
  "json_value 0 s = None"
| "json_value (Suc n) [] = None"
| "json_value (Suc n) (c # cs) =
     (if c = quote then map_option (\<lambda>(v, r). (JString v, r)) (json_chars cs)
      else if c = CHR ''['' then
        (if take 1 cs = '']'' then Some (JArray [], tl cs)
         else map_option (\<lambda>(vs, r). (JArray vs, r)) (json_elements n cs))
      else if c = CHR ''{'' then
        (if take 1 cs = ''}'' then Some (JObject [], tl cs)
         else map_option (\<lambda>(ms, r). (JObject ms, r)) (json_members n cs))
      else if take 4 (c # cs) = ''null'' then Some (JNull, drop 4 (c # cs))
      else if take 4 (c # cs) = ''true'' then Some (JBool True, drop 4 (c # cs))
      else if take 5 (c # cs) = ''false'' then Some (JBool False, drop 5 (c # cs))
      else json_number (c # cs))"
| "json_elements 0 s = None"
| "json_elements (Suc n) s =
     (case json_value n s of
        Some (v, d # r) \<Rightarrow>
          if d = CHR '']'' then Some ([v], r)
          else if d = CHR '','' then map_option (\<lambda>(vs, r'). (v # vs, r')) (json_elements n r)
          else None
      | _ \<Rightarrow> None)"
| "json_members 0 s = None"
| "json_members (Suc n) s =
     (if take 1 s \<noteq> [quote] then None
      else case json_chars (tl s) of
        Some (k, sep # t) \<Rightarrow>
          if sep \<noteq> CHR '':'' then None
          else (case json_value n t of
             Some (v, d # r) \<Rightarrow>
               if d = CHR ''}'' then Some ([(k, v)], r)
               else if d = CHR '','' then map_option (\<lambda>(ms, r'). ((k, v) # ms, r')) (json_members n r)
               else None
           | _ \<Rightarrow> None)
      | _ \<Rightarrow> None)"

definition json_read :: "string \<Rightarrow> json option" where
  "json_read s = (case json_value (length s) s of Some (v, []) \<Rightarrow> Some v | _ \<Rightarrow> None)"

text \<open>The text of a value without white space.\<close>

fun json_text :: "json \<Rightarrow> string"
  and json_texts :: "json list \<Rightarrow> string"
  and json_fields :: "(string \<times> json) list \<Rightarrow> string" where
  "json_text JNull = ''null''"
| "json_text (JBool b) = (if b then ''true'' else ''false'')"
| "json_text (JNumber n) = dec n"
| "json_text (JString v) = json_print_escaped (Some v)"
| "json_text (JArray vs) = ''['' @ json_texts vs @ '']''"
| "json_text (JObject ms) = ''{'' @ json_fields ms @ ''}''"
| "json_texts [] = []"
| "json_texts (v # vs) = json_text v @ (if vs = [] then [] else CHR '','' # json_texts vs)"
| "json_fields [] = []"
| "json_fields ((k, v) # ms) = json_print_escaped (Some k) @ CHR '':'' # json_text v @
     (if ms = [] then [] else CHR '','' # json_fields ms)"

section \<open>The text is read back\<close>

abbreviation stops :: "string \<Rightarrow> bool" where
  "stops r \<equiv> r = [] \<or> \<not> isdigit (hd r)"

lemma takeWhile_digits:
  "\<forall>c\<in>set ds. isdigit c \<Longrightarrow> stops r \<Longrightarrow> takeWhile isdigit (ds @ r) = ds \<and> dropWhile isdigit (ds @ r) = r"
  by (cases r) (auto simp: takeWhile_append dropWhile_append)

lemma dec_leading: "dec n = CHR ''0'' # ds \<Longrightarrow> ds = []"
proof (induction n arbitrary: ds rule: dec.induct)
  case (1 n)
  show ?case
  proof (cases "n < 10")
    case False
    obtain e es where e: "dec (n div 10) = e # es" by (cases "dec (n div 10)") simp_all
    then have z: "dec (n div 10) = CHR ''0'' # es" using 1(2) False by (simp add: dec.simps [of n])
    then have "es = []" using 1(1) False by blast
    then have "dec_val (dec (n div 10)) = 0" using z by (simp add: dec_val_def digit_val_def)
    then show ?thesis using False by simp
  qed (use 1(2) in \<open>simp add: dec.simps [of n]\<close>)
qed

lemma json_number_dec: "stops r \<Longrightarrow> json_number (dec n @ r) = Some (JNumber n, r)"
  using takeWhile_digits [OF dec_digits, of r n] dec_leading [of n] dec_val_dec [of n]
  by (cases "dec n") (auto simp: json_number_def simp del: dec_val_dec)

lemma dec_head: "\<exists>c cs. dec n = c # cs \<and> isdigit c"
  using dec_digits [of n] by (cases "dec n") simp_all

lemma json_value_dec: "stops r \<Longrightarrow> json_value (Suc m) (dec n @ r) = Some (JNumber n, r)"
proof -
  assume r: "stops r"
  obtain c cs where c: "dec n = c # cs" "isdigit c" using dec_head by blast
  then have "c \<noteq> quote" "c \<noteq> CHR ''[''" "c \<noteq> CHR ''{''" "c \<noteq> CHR ''n''" "c \<noteq> CHR ''t''" "c \<noteq> CHR ''f''"
    by (auto simp: isdigit_def)
  then show ?thesis using json_number_dec [OF r, of n] by (simp add: c(1))
qed

lemma json_string_read:
  "json_value (Suc m) (json_print_escaped (Some v) @ r) = Some (JString v, r)"
  using json_chars_print [of v r] by (simp add: json_print_escaped_def)

lemma string_nonempty: "1 \<le> length (json_print_escaped v)"
  by (simp add: json_print_escaped_def)

lemma json_text_start:
  "\<exists>c cs. json_text j = c # cs \<and> c \<noteq> CHR '']'' \<and> c \<noteq> CHR ''}''"
proof (cases j)
  case (JNumber n)
  then show ?thesis using dec_head [of n] by (auto simp: isdigit_def)
qed (simp_all add: json_print_escaped_def)

lemma json_texts_start: "vs \<noteq> [] \<Longrightarrow> \<exists>c cs. json_texts vs = c # cs \<and> c \<noteq> CHR '']''"
  using json_text_start [of "hd vs"] by (cases vs) auto

lemma json_fields_start: "ms \<noteq> [] \<Longrightarrow> \<exists>cs. json_fields ms = quote # cs"
  by (cases ms) (auto simp: json_print_escaped_def)

lemma json_text_read:
  "length (json_text j) \<le> n \<Longrightarrow> stops r \<Longrightarrow> json_value n (json_text j @ r) = Some (j, r)"
  "length (json_texts vs) < n \<Longrightarrow> vs \<noteq> [] \<Longrightarrow>
     json_elements n (json_texts vs @ CHR '']'' # r) = Some (vs, r)"
  "length (json_fields ms) < n \<Longrightarrow> ms \<noteq> [] \<Longrightarrow>
     json_members n (json_fields ms @ CHR ''}'' # r) = Some (ms, r)"
proof (induction j and vs and ms arbitrary: n r and n r and n r
    rule: json_text_json_texts_json_fields.induct)
  case 1
  then show ?case by (cases n) simp_all
next
  case (2 b)
  then show ?case by (cases n) (simp_all split: if_splits)
next
  case (3 k)
  obtain m where "n = Suc m" using 3(1) dec_head [of k] by (cases n) auto
  then show ?case using json_value_dec 3(2) by simp
next
  case (4 v)
  obtain m where "n = Suc m" using 4(1) string_nonempty [of "Some v"] by (cases n) auto
  then show ?case using json_string_read by simp
next
  case (5 vs)
  obtain m where m: "n = Suc m" using 5(2) by (cases n) auto
  show ?case
  proof (cases "vs = []")
    case False
    obtain c cs where c: "json_texts vs = c # cs" "c \<noteq> CHR '']''" using json_texts_start [OF False] by blast
    show ?thesis using 5(1) [of m r] 5(2) False c(2) by (simp add: m c(1))
  qed (simp add: m)
next
  case (6 ms)
  obtain m where m: "n = Suc m" using 6(2) by (cases n) auto
  show ?case
  proof (cases "ms = []")
    case False
    obtain cs where c: "json_fields ms = quote # cs" using json_fields_start [OF False] by blast
    show ?thesis using 6(1) [of m r] 6(2) False by (simp add: m c)
  qed (simp add: m)
next
  case 7
  then show ?case by simp
next
  case (8 v vs)
  obtain m where m: "n = Suc m" using 8(3) by (cases n) auto
  show ?case
  proof (cases "vs = []")
    case True
    then show ?thesis using 8(1) [of m "CHR '']'' # r"] 8(3) by (simp add: m isdigit_def)
  next
    case False
    then show ?thesis
      using 8(1) [of m "CHR '','' # json_texts vs @ CHR '']'' # r"] 8(2) [of m r] 8(3)
      by (simp add: m isdigit_def)
  qed
next
  case 9
  then show ?case by simp
next
  case (10 k v ms)
  obtain m where m: "n = Suc m" using 10(3) by (cases n) auto
  have str: "json_print_escaped (Some k) @ t = quote # concat (map json_escape k) @ quote # t" for t
    by (simp add: json_print_escaped_def)
  have len: "length (json_print_escaped (Some k)) \<ge> 2" by (simp add: json_print_escaped_def)
  show ?case
  proof (cases "ms = []")
    case True
    then show ?thesis using 10(1) [of m "CHR ''}'' # r"] 10(3) len json_chars_print
      by (simp add: m str isdigit_def)
  next
    case False
    then show ?thesis
      using 10(1) [of m "CHR '','' # json_fields ms @ CHR ''}'' # r"] 10(2) [of m r] 10(3) len
        json_chars_print
      by (simp add: m str isdigit_def)
  qed
qed

lemma json_read_text: "json_read (json_text j) = Some j"
  using json_text_read(1) [of j "length (json_text j)" "[]"] by (simp add: json_read_def)

end
