(* ===== verification/CommandLine.thy ===== *)
theory CommandLine
  imports Enumeration CaptureThread Json
begin

text \<open>
  The command line tool's own logic on devices (cmd.c): the lists of interfaces and devices it
  prints, as text and as JSON, the values of its options, the resolution of a vendor and
  product id to the addresses to capture, and the table of device ids the thread filters by.

  An interface is a filter's device name with the filter's answer to the request for its hub.
  The lists have what is printed on the standard output and the exit code; messages on the
  standard error are left out.
\<close>

type_synonym hub_interface = "string \<times> (u16 list \<times> hub) option"

section \<open>Printed lists\<close>

text \<open>The pieces of the printf formats: a quoted key with its colon, a quoted 0x%04x.\<close>

abbreviation (input) key :: "string \<Rightarrow> string" where "key k \<equiv> quote # k @ [quote, CHR '':'']"

definition hex_id :: "u16 \<Rightarrow> string" where
  "hex_id w = ''0x'' @ hex4 (unat w)"

abbreviation (input) quoted_id :: "u16 \<Rightarrow> string" where "quoted_id w \<equiv> quote # hex_id w @ [quote]"

definition true_false :: "bool \<Rightarrow> string" where
  "true_false b = (if b then ''true'' else ''false'')"

text \<open>A comma goes before every element but the first.\<close>

definition separated :: "string list \<Rightarrow> string" where
  "separated xs = concat (map (\<lambda>(i, x). (if (0::nat) < i then '','' else []) @ x) (enumerate 0 xs))"

definition print_json_error :: "string \<Rightarrow> string \<Rightarrow> string option \<Rightarrow> string" where
  "print_json_error code message hint =
     ''{'' @ key ''ok'' @ ''false,'' @ key ''errorCode'' @ json_print_escaped (Some code) @
     '','' @ key ''message'' @ json_print_escaped (Some message) @
     (if hint \<noteq> None then '','' @ key ''hint'' @ json_print_escaped hint else []) @
     ''}'' @ newline"

definition display_name_of :: "string \<Rightarrow> string" where
  "display_name_of device = rev (takeWhile (\<lambda>c. c \<noteq> backslash) (rev device))"

definition list_interfaces :: "hub_interface list \<Rightarrow> bool \<Rightarrow> string \<times> int" where
  "list_interfaces filters json_output =
     (if json_output
      then ''{'' @ key ''interfaces'' @ ''['' @
        separated (map (\<lambda>(device, _).
          ''{'' @ key ''name'' @ json_print_escaped (Some device) @
          '','' @ key ''displayName'' @ json_print_escaped (Some (display_name_of device)) @ ''}'')
          filters) @
        '']}'' @ newline
      else concat (map (\<lambda>(device, _). device @ newline) filters), 0)"

definition list_devices :: "collect_env \<Rightarrow> hub_interface option \<Rightarrow> bool \<Rightarrow> string \<times> int" where
  "list_devices env interface json_output =
     (case interface of
        None \<Rightarrow> ([], -1)
      | Some (name, link) \<Rightarrow>
          (case enumerate_get_connected_devices env link of
             (False, _) \<Rightarrow> ([], -1)
           | (True, devices) \<Rightarrow>
               (if json_output
                then ''{'' @ key ''interface'' @ json_print_escaped (Some name) @
                  '','' @ key ''devices'' @ ''['' @
                  separated (map (\<lambda>d.
                    ''{'' @ key ''address'' @ dec (unat (ci_address d)) @
                    '','' @ key ''port'' @ dec (ci_port d) @
                    '','' @ key ''parentAddress'' @ dec (unat (ci_parent d)) @
                    '','' @ key ''vendorId'' @ quoted_id (ci_vendor d) @
                    '','' @ key ''productId'' @ quoted_id (ci_product d) @
                    '','' @ key ''isHub'' @ true_false (ci_isHub d) @
                    '','' @ key ''description'' @ json_print_escaped (Some (ci_description d)) @ ''}'')
                    devices) @
                  '']}'' @ newline
                else concat (map (\<lambda>d.
                    ''address='' @ dec (unat (ci_address d)) @ '' port='' @ dec (ci_port d) @
                    '' parent='' @ dec (unat (ci_parent d)) @ '' vid='' @ hex_id (ci_vendor d) @
                    '' pid='' @ hex_id (ci_product d) @ '' isHub='' @ true_false (ci_isHub d) @
                    (if ci_description d \<noteq> [] then ''  '' @ ci_description d else []) @ newline)
                    devices), 0)))"

text \<open>The conversion %-3u.\<close>

definition dec_left3 :: "nat \<Rightarrow> string" where
  "dec_left3 n = dec n @ replicate (3 - length (dec n)) (CHR '' '')"

text \<open>
  One interface of the list of all; its index decides on the separator. An interface whose
  enumeration fails is left out.
\<close>

definition list_interface_devices ::
  "collect_env \<Rightarrow> bool \<Rightarrow> nat \<Rightarrow> hub_interface \<Rightarrow> string \<times> nat" where
  "list_interface_devices env json_output i interface =
     (case enumerate_get_connected_devices env (snd interface) of
        (False, _) \<Rightarrow> ([], 0)
      | (True, devices) \<Rightarrow>
          (if json_output
           then (if i > 0 then '','' else []) @
             ''{'' @ key ''interface'' @ json_print_escaped (Some (fst interface)) @
             '','' @ key ''devices'' @ ''['' @
             separated (map (\<lambda>d.
               ''{'' @ key ''address'' @ dec (unat (ci_address d)) @
               '','' @ key ''vendorId'' @ quoted_id (ci_vendor d) @
               '','' @ key ''productId'' @ quoted_id (ci_product d) @
               '','' @ key ''isHub'' @ true_false (ci_isHub d) @
               '','' @ key ''description'' @ json_print_escaped (Some (ci_description d)) @ ''}'')
               devices) @ '']}''
           else (if i > 0 then newline else []) @ ''['' @ fst interface @ '']'' @ newline @
             concat (map (\<lambda>d.
               ''  address='' @ dec_left3 (unat (ci_address d)) @ '' vid='' @ hex_id (ci_vendor d) @
               '' pid='' @ hex_id (ci_product d) @ (if ci_isHub d then ''  [Hub]'' else []) @
               (if ci_description d \<noteq> [] then ''  '' @ ci_description d else []) @ newline)
               devices), length devices))"

definition list_all_devices :: "collect_env \<Rightarrow> hub_interface list \<Rightarrow> bool \<Rightarrow> string \<times> int" where
  "list_all_devices env filters json_output =
     (let parts = map (\<lambda>(i, f). list_interface_devices env json_output i f) (enumerate 0 filters);
          body = concat (map fst parts) in
      (if json_output
       then ''{'' @ key ''interfaces'' @ ''['' @ body @ '']}'' @ newline
       else body @ newline @ ''Total: '' @ dec (sum_list (map snd parts)) @
         '' device(s) across '' @ dec (length filters) @ '' interface(s)'' @ newline, 0))"

section \<open>What the printed lists say\<close>

definition json_device :: "connected_info \<Rightarrow> json" where
  "json_device d = JObject
     [(''address'', JNumber (unat (ci_address d))), (''port'', JNumber (ci_port d)),
      (''parentAddress'', JNumber (unat (ci_parent d))),
      (''vendorId'', JString (hex_id (ci_vendor d))), (''productId'', JString (hex_id (ci_product d))),
      (''isHub'', JBool (ci_isHub d)), (''description'', JString (ci_description d))]"

definition json_device_short :: "connected_info \<Rightarrow> json" where
  "json_device_short d = JObject
     [(''address'', JNumber (unat (ci_address d))),
      (''vendorId'', JString (hex_id (ci_vendor d))), (''productId'', JString (hex_id (ci_product d))),
      (''isHub'', JBool (ci_isHub d)), (''description'', JString (ci_description d))]"

lemma plain_text: "\<forall>c\<in>set v. json_escape c = [c] \<Longrightarrow> json_print_escaped (Some v) = quote # v @ [quote]"
proof -
  assume "\<forall>c\<in>set v. json_escape c = [c]"
  then have "concat (map json_escape v) = v" by (induction v) simp_all
  then show ?thesis by (simp add: json_print_escaped_def)
qed

lemma separated_texts: "separated (map f xs) = json_texts ys" if "map f xs = map json_text ys"
proof -
  have shift: "concat (map (\<lambda>(i, x). (if (0::nat) < i then '','' else []) @ x) (enumerate (Suc k) (map json_text vs))) =
      concat (map (\<lambda>v. CHR '','' # json_text v) vs)" for k vs
    by (induction vs arbitrary: k) simp_all
  have "json_texts (v # vs) = json_text v @ concat (map (\<lambda>v. CHR '','' # json_text v) vs)" for v vs
    by (induction vs arbitrary: v) simp_all
  then show ?thesis unfolding that separated_def using shift [of 0] by (cases ys) simp_all
qed

lemma hex_id_plain: "json_print_escaped (Some (hex_id w)) = quoted_id w"
proof (rule plain_text)
  show "\<forall>c\<in>set (hex_id w). json_escape c = [c]"
    by (auto simp: hex_id_def hex4_def hex_digit_plain) (simp_all add: json_escape_def)
qed

lemma plain_keys:
  "json_print_escaped (Some ''address'') = quote # ''address'' @ [quote]"
  "json_print_escaped (Some ''port'') = quote # ''port'' @ [quote]"
  "json_print_escaped (Some ''parentAddress'') = quote # ''parentAddress'' @ [quote]"
  "json_print_escaped (Some ''vendorId'') = quote # ''vendorId'' @ [quote]"
  "json_print_escaped (Some ''productId'') = quote # ''productId'' @ [quote]"
  "json_print_escaped (Some ''isHub'') = quote # ''isHub'' @ [quote]"
  "json_print_escaped (Some ''description'') = quote # ''description'' @ [quote]"
  "json_print_escaped (Some ''interface'') = quote # ''interface'' @ [quote]"
  "json_print_escaped (Some ''interfaces'') = quote # ''interfaces'' @ [quote]"
  "json_print_escaped (Some ''devices'') = quote # ''devices'' @ [quote]"
  "json_print_escaped (Some ''name'') = quote # ''name'' @ [quote]"
  "json_print_escaped (Some ''displayName'') = quote # ''displayName'' @ [quote]"
  "json_print_escaped (Some ''ok'') = quote # ''ok'' @ [quote]"
  "json_print_escaped (Some ''errorCode'') = quote # ''errorCode'' @ [quote]"
  "json_print_escaped (Some ''message'') = quote # ''message'' @ [quote]"
  "json_print_escaped (Some ''hint'') = quote # ''hint'' @ [quote]"
  by (rule plain_text, simp add: json_escape_def)+

lemma json_device_text:
  "json_text (json_device d) =
     ''{'' @ key ''address'' @ dec (unat (ci_address d)) @ '','' @ key ''port'' @ dec (ci_port d) @
     '','' @ key ''parentAddress'' @ dec (unat (ci_parent d)) @
     '','' @ key ''vendorId'' @ quoted_id (ci_vendor d) @
     '','' @ key ''productId'' @ quoted_id (ci_product d) @
     '','' @ key ''isHub'' @ true_false (ci_isHub d) @
     '','' @ key ''description'' @ json_print_escaped (Some (ci_description d)) @ ''}''"
  unfolding json_device_def by (simp add: plain_keys hex_id_plain true_false_def)

lemma json_device_short_text:
  "json_text (json_device_short d) =
     ''{'' @ key ''address'' @ dec (unat (ci_address d)) @
     '','' @ key ''vendorId'' @ quoted_id (ci_vendor d) @
     '','' @ key ''productId'' @ quoted_id (ci_product d) @
     '','' @ key ''isHub'' @ true_false (ci_isHub d) @
     '','' @ key ''description'' @ json_print_escaped (Some (ci_description d)) @ ''}''"
  unfolding json_device_short_def by (simp add: plain_keys hex_id_plain true_false_def)

lemma enumerate_success:
  obtains ds where "enumerate_get_connected_devices env link = (True, ds)"
  using that by (simp add: enumerate_get_connected_devices_def)

text \<open>The tree an interface's devices are printed as.\<close>

definition json_interface :: "collect_env \<Rightarrow> (connected_info \<Rightarrow> json) \<Rightarrow> hub_interface \<Rightarrow> json" where
  "json_interface env device i = JObject
     [(''interface'', JString (fst i)),
      (''devices'', JArray (map device (snd (enumerate_get_connected_devices env (snd i)))))]"

lemma json_interface_text:
  "json_text (json_interface env device i) =
     ''{'' @ key ''interface'' @ json_print_escaped (Some (fst i)) @ '','' @ key ''devices'' @ ''['' @
     separated (map (\<lambda>d. json_text (device d)) (snd (enumerate_get_connected_devices env (snd i)))) @ '']}''"
proof -
  have "separated (map (\<lambda>d. json_text (device d)) ds) = json_texts (map device ds)" for ds
    by (rule separated_texts) simp
  then show ?thesis by (simp add: json_interface_def plain_keys)
qed

lemma list_devices_text:
  "list_devices env (Some i) True = (json_text (json_interface env json_device i) @ newline, 0)"
proof (rule enumerate_success [of env "snd i"])
  fix ds
  assume "enumerate_get_connected_devices env (snd i) = (True, ds)"
  then show ?thesis
    unfolding json_interface_text json_device_text list_devices_def by (cases i) simp
qed

lemma list_interface_devices_text:
  "fst (list_interface_devices env True i f) =
     (if i > 0 then '','' else []) @ json_text (json_interface env json_device_short f)"
proof (rule enumerate_success [of env "snd f"])
  fix ds
  assume "enumerate_get_connected_devices env (snd f) = (True, ds)"
  then show ?thesis
    unfolding json_interface_text json_device_short_text list_interface_devices_def by simp
qed

lemma list_all_devices_text:
  "list_all_devices env filters True =
     (json_text (JObject [(''interfaces'', JArray (map (json_interface env json_device_short) filters))]) @
      newline, 0)"
proof -
  have "concat (map fst (map (\<lambda>(i, f). list_interface_devices env True i f) (enumerate 0 filters))) =
      separated (map (\<lambda>f. json_text (json_interface env json_device_short f)) filters)"
    by (simp add: separated_def enumerate_map_upt list_interface_devices_text o_def case_prod_beta
        enumerate_eq_zip zip_map2)
  also have "\<dots> = json_texts (map (json_interface env json_device_short) filters)"
    by (rule separated_texts) simp
  finally show ?thesis by (simp add: list_all_devices_def plain_keys)
qed

lemma list_interfaces_text:
  "list_interfaces filters True =
     (json_text (JObject [(''interfaces'', JArray (map (\<lambda>f. JObject [(''name'', JString (fst f)),
        (''displayName'', JString (display_name_of (fst f)))]) filters))]) @ newline, 0)"
proof -
  have "separated (map (\<lambda>(device, _).
      ''{'' @ key ''name'' @ json_print_escaped (Some device) @
      '','' @ key ''displayName'' @ json_print_escaped (Some (display_name_of device)) @ ''}'') filters) =
      json_texts (map (\<lambda>f. JObject [(''name'', JString (fst f)),
        (''displayName'', JString (display_name_of (fst f)))]) filters)"
    by (rule separated_texts) (auto simp: plain_keys)
  then show ?thesis by (simp add: list_interfaces_def plain_keys)
qed

text \<open>C23. With --json the three lists and the error messages are JSON texts: read back, they
  are the interfaces with their names and the devices with exactly the addresses, ports, ids
  and descriptions that were enumerated, whatever characters the names and descriptions
  contain.\<close>

theorem json_lists_read:
  "\<exists>interfaces all devices error.
     list_interfaces filters True = (interfaces @ newline, 0) \<and>
     json_read interfaces = Some (JObject [(''interfaces'', JArray (map (\<lambda>f. JObject
       [(''name'', JString (fst f)), (''displayName'', JString (display_name_of (fst f)))]) filters))]) \<and>
     list_all_devices env filters True = (all @ newline, 0) \<and>
     json_read all = Some (JObject [(''interfaces'', JArray (map (json_interface env json_device_short) filters))]) \<and>
     list_devices env (Some i) True = (devices @ newline, 0) \<and>
     json_read devices = Some (json_interface env json_device i) \<and>
     print_json_error code message (Some hint) = error @ newline \<and>
     json_read error = Some (JObject [(''ok'', JBool False), (''errorCode'', JString code),
       (''message'', JString message), (''hint'', JString hint)])"
proof -
  have error: "print_json_error code message (Some hint) =
      json_text (JObject [(''ok'', JBool False), (''errorCode'', JString code),
       (''message'', JString message), (''hint'', JString hint)]) @ newline"
    by (simp add: print_json_error_def plain_keys)
  show ?thesis
    by (intro exI conjI, rule list_interfaces_text, rule json_read_text, rule list_all_devices_text,
        rule json_read_text, rule list_devices_text, rule json_read_text [of "json_interface _ _ _"],
        rule error, rule json_read_text)
qed

end
