(* ===== verification/DeviceSelection.thy ===== *)
theory DeviceSelection
  imports CommandLine
begin

text \<open>
  Which devices a capture selects (cmd.c): the numbers of the options, the devices with a
  vendor and product id and the address list made from them, the interface that has such
  devices, and the table of ids the capture thread matches packets with. The theorems connect
  the connected devices with the address filter given to the driver and with the packets the
  thread lets through.
\<close>

section \<open>Numbers\<close>

text \<open>
  strtoul with base 0 and a 32-bit result: white space, a sign, the base from the prefix, the
  longest run of digits. Out of range it returns the largest value; with a minus sign the
  value is negated modulo 2^32. Without digits nothing is consumed.
\<close>

definition base_digit :: "nat \<Rightarrow> char \<Rightarrow> bool" where
  "base_digit base c \<longleftrightarrow> (case hex_val c of Some k \<Rightarrow> k < base | None \<Rightarrow> False)"

definition digits_value :: "nat \<Rightarrow> string \<Rightarrow> nat" where
  "digits_value base s = foldl (\<lambda>n c. base * n + (case hex_val c of Some k \<Rightarrow> k | None \<Rightarrow> 0)) 0 s"

definition c_strtoul :: "string \<Rightarrow> nat \<times> string" where
  "c_strtoul s =
     (let t = dropWhile is_space s;
          neg = (take 1 t = ''-'');
          u = (if neg \<or> take 1 t = ''+'' then tl t else t);
          hex = ((take 2 u = ''0x'' \<or> take 2 u = ''0X'') \<and> takeWhile (base_digit 16) (drop 2 u) \<noteq> []);
          base = (if hex then 16 else if take 1 u = ''0'' then 8 else 10);
          body = (if hex then drop 2 u else u);
          n = digits_value base (takeWhile (base_digit base) body) in
      if takeWhile (base_digit base) body = [] then (0, s)
      else (if n > 0xFFFFFFFF then 0xFFFFFFFF else if neg then (2 ^ 32 - n) mod 2 ^ 32 else n,
            dropWhile (base_digit base) body))"

definition parse_u32_value :: "string option \<Rightarrow> u32 option" where
  "parse_u32_value text =
     (case text of
        None \<Rightarrow> None
      | Some s \<Rightarrow>
          if s = [] then None
          else (let (parsed, endptr) = c_strtoul s in
            if endptr \<noteq> [] \<or> parsed > 0xFFFFFFFF then None else Some (of_nat parsed)))"

definition parse_u16_value :: "string option \<Rightarrow> u16 option" where
  "parse_u16_value text =
     (case parse_u32_value text of
        None \<Rightarrow> None
      | Some parsed \<Rightarrow> if parsed > 0xFFFF then None else Some (ucast parsed))"

definition transfer_type_to_text :: "u8 \<Rightarrow> string" where
  "transfer_type_to_text transfer =
     (if transfer = USBPCAP_TRANSFER_CONTROL then ''control''
      else if transfer = USBPCAP_TRANSFER_BULK then ''bulk''
      else if transfer = USBPCAP_TRANSFER_INTERRUPT then ''interrupt''
      else if transfer = USBPCAP_TRANSFER_ISOCHRONOUS then ''isochronous''
      else ''unknown'')"

definition parse_transfer_type :: "string option \<Rightarrow> u8 option" where
  "parse_transfer_type text =
     (case text of
        None \<Rightarrow> None
      | Some t \<Rightarrow>
          if stricmp_eq t ''control'' then Some USBPCAP_TRANSFER_CONTROL
          else if stricmp_eq t ''bulk'' then Some USBPCAP_TRANSFER_BULK
          else if stricmp_eq t ''interrupt'' then Some USBPCAP_TRANSFER_INTERRUPT
          else if stricmp_eq t ''isochronous'' then Some USBPCAP_TRANSFER_ISOCHRONOUS
          else if stricmp_eq t ''unknown'' then Some USBPCAP_TRANSFER_UNKNOWN
          else None)"

section \<open>The devices with given ids\<close>

record match_info =
  mi_address :: u16
  mi_vendor :: u16
  mi_product :: u16

record match_list =
  items :: "match_info list"
  address_list :: "string option"

definition no_matches :: match_list where
  "no_matches = \<lparr>items = [], address_list = None\<rparr>"

definition id_match :: "bool \<Rightarrow> u16 \<Rightarrow> bool \<Rightarrow> u16 \<Rightarrow> connected_info \<Rightarrow> bool" where
  "id_match has_vendor vendor has_product product d \<longleftrightarrow>
     \<not> (has_vendor \<and> ci_vendor d \<noteq> vendor) \<and> \<not> (has_product \<and> ci_product d \<noteq> product)"

text \<open>
  The loop that prints the addresses into the buffer: room is what is left of it, first the
  first pass. sprintf_s ends the process when the text and its NUL do not fit, which is None.
\<close>

fun print_addresses :: "bool \<Rightarrow> nat \<Rightarrow> match_info list \<Rightarrow> string option" where
  "print_addresses first room [] = Some []"
| "print_addresses first room (m # ms) =
     (let text = (if first then [] else '','') @ dec (unat (mi_address m)) in
      if length text + 1 > room then None
      else map_option ((@) text) (print_addresses False (room - length text) ms))"

text \<open>The two flags are the success of calloc and of malloc. Five characters are reserved for
  each address.\<close>

definition resolve_filter_matches ::
  "bool \<Rightarrow> bool \<Rightarrow> collect_env \<Rightarrow> hub_interface option \<Rightarrow> bool \<Rightarrow> u16 \<Rightarrow> bool \<Rightarrow> u16 \<Rightarrow>
   (match_list \<times> bool) option" where
  "resolve_filter_matches calloc_ok malloc_ok env interface has_vendor vendor has_product product =
     (case interface of
        None \<Rightarrow> Some (no_matches, False)
      | Some (name, link) \<Rightarrow>
          (case enumerate_get_connected_devices env link of
             (False, _) \<Rightarrow> Some (no_matches, False)
           | (True, devices) \<Rightarrow>
               if \<not> calloc_ok then Some (no_matches, False)
               else
                 let found = map (\<lambda>d. \<lparr>mi_address = ci_address d, mi_vendor = ci_vendor d,
                       mi_product = ci_product d\<rparr>)
                     (filter (id_match has_vendor vendor has_product product) devices) in
                 if found = [] then Some (no_matches, True)
                 else if \<not> malloc_ok then Some (no_matches, False)
                 else map_option (\<lambda>text. (\<lparr>items = found, address_list = Some text\<rparr>, True))
                   (print_addresses True (5 * length found + 1) found)))"

text \<open>
  The search for the only interface with such devices; the result has the interface's name
  as soon as one was found, the matches and success.
\<close>

record auto_state =
  au_device :: "string option"
  au_matches :: match_list
  au_found :: nat

fun auto_select_loop ::
  "bool \<Rightarrow> bool \<Rightarrow> collect_env \<Rightarrow> bool \<Rightarrow> u16 \<Rightarrow> bool \<Rightarrow> u16 \<Rightarrow> hub_interface list \<Rightarrow> auto_state \<Rightarrow>
   (auto_state \<times> bool) option" where
  "auto_select_loop c m env hv v hp p [] st = Some (st, au_found st = 1)"
| "auto_select_loop c m env hv v hp p (f # fs) st =
     (case resolve_filter_matches c m env (Some f) hv v hp p of
        None \<Rightarrow> None
      | Some (current, False) \<Rightarrow> Some (st, False)
      | Some (current, True) \<Rightarrow>
          if items current \<noteq> [] then
            let st' = st\<lparr>au_found := au_found st + 1\<rparr> in
            if au_found st' = 1
            then auto_select_loop c m env hv v hp p fs
              (st'\<lparr>au_device := Some (fst f), au_matches := current\<rparr>)
            else Some (st', False)
          else auto_select_loop c m env hv v hp p fs st)"

definition auto_select_interface ::
  "bool \<Rightarrow> bool \<Rightarrow> collect_env \<Rightarrow> hub_interface list \<Rightarrow> bool \<Rightarrow> u16 \<Rightarrow> bool \<Rightarrow> u16 \<Rightarrow>
   (auto_state \<times> bool) option" where
  "auto_select_interface c m env filters hv v hp p =
     auto_select_loop c m env hv v hp p filters
       \<lparr>au_device = None, au_matches = no_matches, au_found = 0\<rparr>"

section \<open>The table of device ids\<close>

abbreviation no_metadata :: device_metadata where
  "no_metadata \<equiv> \<lparr>present = False, md_vendor_id = 0, md_product_id = 0\<rparr>"

definition add_metadata :: "connected_info \<Rightarrow> device_metadata list \<Rightarrow> device_metadata list" where
  "add_metadata d table =
     (if ci_address d < 128
      then table[unat (ci_address d) := \<lparr>present = True, md_vendor_id = ci_vendor d,
        md_product_id = ci_product d\<rparr>]
      else table)"

definition populate_device_metadata ::
  "collect_env \<Rightarrow> thread_data \<Rightarrow> hub_interface option \<Rightarrow> thread_data \<times> bool" where
  "populate_device_metadata env data interface =
     (case interface of
        None \<Rightarrow> (data, False)
      | Some (name, link) \<Rightarrow>
          (case enumerate_get_connected_devices env link of
             (False, _) \<Rightarrow> (data\<lparr>metadata := replicate 128 no_metadata\<rparr>, False)
           | (True, devices) \<Rightarrow>
               (data\<lparr>metadata := fold add_metadata devices (replicate 128 no_metadata)\<rparr>, True)))"

section \<open>Numbers are read back\<close>

lemma digits_value_dec: "\<forall>c\<in>set s. isdigit c \<Longrightarrow> int (digits_value 10 s) = dec_val s"
proof -
  have "int (foldl (\<lambda>n c. 10 * n + (case hex_val c of Some k \<Rightarrow> k | None \<Rightarrow> 0)) n s) =
      foldl (\<lambda>n c. 10 * n + digit_val c) (int n) s"
    if "\<forall>c\<in>set s. isdigit c" for n
    using that
  proof (induction s arbitrary: n)
    case (Cons c s)
    have "int (case hex_val c of Some k \<Rightarrow> k | None \<Rightarrow> 0) = digit_val c"
      using Cons.prems by (simp add: hex_val_def isdigit_def digit_val_def Let_def)
    then show ?case using Cons by simp
  qed simp
  then show "\<forall>c\<in>set s. isdigit c \<Longrightarrow> ?thesis" by (simp add: digits_value_def dec_val_def)
qed

lemma isdigit_base: "isdigit c \<Longrightarrow> base_digit 10 c"
  by (auto simp: base_digit_def hex_val_def isdigit_def Let_def)

lemma strtoul_dec: "n < 2 ^ 32 \<Longrightarrow> c_strtoul (dec n) = (n, [])"
proof -
  assume n: "n < 2 ^ 32"
  obtain c cs where c: "dec n = c # cs" "isdigit c" using dec_head by blast
  have all: "\<forall>x\<in>set (dec n). isdigit x" by (rule dec_digits)
  have sign: "c \<noteq> CHR ''-''" "c \<noteq> CHR ''+''" "\<not> is_space c"
    using c(2) isdigit_not_sign isdigit_not_space by blast+
  show ?thesis
  proof (cases "c = CHR ''0''")
    case True
    then have "cs = []" using c(1) dec_leading by blast
    then have z: "dec n = ''0''" using c(1) True by simp
    moreover have "n = 0" using z dec_val_dec [of n] by (simp add: dec_val_def digit_val_def)
    ultimately show ?thesis
      by (simp add: c_strtoul_def is_space_def base_digit_def hex_val_def digits_value_def Let_def)
  next
    case False
    have take: "takeWhile (base_digit 10) (dec n) = dec n" "dropWhile (base_digit 10) (dec n) = []"
      using all isdigit_base by auto
    have "digits_value 10 (dec n) = n" using digits_value_dec [OF all] by simp
    then show ?thesis using False sign take n
      by (simp add: c_strtoul_def c(1) Let_def)
  qed
qed

lemma hex_digit_base: "k < 16 \<Longrightarrow> base_digit 16 (hex_digit k)"
  by (simp add: base_digit_def)

lemma strtoul_hex: "n < 65536 \<Longrightarrow> c_strtoul (''0x'' @ hex4 n) = (n, [])"
proof -
  assume n: "n < 65536"
  have all: "\<forall>c\<in>set (hex4 n). base_digit 16 c" by (simp add: hex4_def hex_digit_base)
  then have take: "takeWhile (base_digit 16) (hex4 n) = hex4 n" "dropWhile (base_digit 16) (hex4 n) = []"
    by auto
  have "digits_value 16 (hex4 n) = n"
    using hex4_value [OF n] less_mult_imp_div_less [of n 16 4096] n
    by (simp add: digits_value_def hex4_def algebra_simps)
  moreover have "hex4 n \<noteq> []" by (simp add: hex4_def)
  ultimately show ?thesis using n by (simp add: c_strtoul_def is_space_def Let_def take)
qed

lemma parse_u32_dec: "parse_u32_value (Some (dec (unat w))) = Some w"
  using strtoul_dec [of "unat w"] unsigned_less [of w, where 'a = nat] by (simp add: parse_u32_value_def)

lemma parse_u16_numbers:
  "parse_u16_value (Some (hex_id v)) = Some v" "parse_u16_value (Some (dec (unat v))) = Some v"
proof -
  have lt: "unat v < 65536" using unsigned_less [of v, where 'a = nat] by simp
  then have small: "\<not> (of_nat (unat v) :: u32) > 0xFFFF" by (simp add: word_less_nat_alt unat_of_nat)
  have narrow: "ucast (of_nat (unat v) :: u32) = v" 
    using lt by (simp add: word_unat_eq_iff unsigned_ucast_eq unsigned_of_nat take_bit_nat_eq_self take_bit_word_eq_self)
  have "parse_u32_value (Some (hex_id v)) = Some (of_nat (unat v))"
    using strtoul_hex [OF lt] lt by (simp add: parse_u32_value_def hex_id_def)
  then show "parse_u16_value (Some (hex_id v)) = Some v"
    using small narrow by (simp add: parse_u16_value_def)
  have "parse_u32_value (Some (dec (unat v))) = Some (of_nat (unat v))"
    using strtoul_dec [of "unat v"] lt by (simp add: parse_u32_value_def)
  then show "parse_u16_value (Some (dec (unat v))) = Some v"
    using small narrow by (simp add: parse_u16_value_def)
qed

lemma parse_transfer_text:
  "t \<in> {USBPCAP_TRANSFER_CONTROL, USBPCAP_TRANSFER_BULK, USBPCAP_TRANSFER_INTERRUPT,
     USBPCAP_TRANSFER_ISOCHRONOUS, USBPCAP_TRANSFER_UNKNOWN} \<Longrightarrow>
   parse_transfer_type (Some (transfer_type_to_text t)) = Some t"
  by (auto simp: parse_transfer_type_def transfer_type_to_text_def stricmp_eq_def tolower_def)

text \<open>A vendor or product id is read back from both forms the user meets it in: the 0x form
  of the printed device lists and plain decimal; a 32-bit number is read back from its decimal
  form, and every name printed for a transfer type is read as that type.\<close>

theorem option_values_roundtrip:
  "parse_u16_value (Some (hex_id v)) = Some v \<and>
   parse_u16_value (Some (dec (unat v))) = Some v \<and>
   parse_u32_value (Some (dec (unat w))) = Some w \<and>
   map (\<lambda>t. parse_transfer_type (Some (transfer_type_to_text t)))
     [USBPCAP_TRANSFER_ISOCHRONOUS, USBPCAP_TRANSFER_INTERRUPT, USBPCAP_TRANSFER_CONTROL,
      USBPCAP_TRANSFER_BULK, USBPCAP_TRANSFER_UNKNOWN] =
   [Some USBPCAP_TRANSFER_ISOCHRONOUS, Some USBPCAP_TRANSFER_INTERRUPT,
    Some USBPCAP_TRANSFER_CONTROL, Some USBPCAP_TRANSFER_BULK, Some USBPCAP_TRANSFER_UNKNOWN]"
  by (simp add: parse_u16_numbers parse_u32_dec parse_transfer_text)

text \<open>A number out of range is not refused: it becomes the largest value, and a minus sign is
  accepted.\<close>

theorem out_of_range_number_accepted:
  "parse_u32_value (Some ''99999999999'') = Some 0xFFFFFFFF \<and>
   parse_u32_value (Some ''-1'') = Some 0xFFFFFFFF"
  by (simp add: parse_u32_value_def c_strtoul_def digits_value_def base_digit_def hex_val_def
      is_space_def Let_def)

section \<open>The selected addresses\<close>

lemma comma_tokens_no_comma: "CHR '','' \<notin> set t \<Longrightarrow> comma_tokens t = [t]"
  by (induction t) auto

lemma comma_tokens_more:
  "CHR '','' \<notin> set t \<Longrightarrow> comma_tokens (t @ CHR '','' # s) = t # comma_tokens s"
  by (induction t) auto

lemma dec_no_comma: "CHR '','' \<notin> set (dec n)"
  using dec_digits [of n] isdigit_not_sign(3) by blast

lemma length_dec_4: "n < 10000 \<Longrightarrow> length (dec n) \<le> 4"
proof -
  assume "n < 10000"
  moreover have "(10::nat) ^ Suc 3 = 10000" by code_simp
  ultimately have "length (dec n) \<le> Suc 3" by (intro length_dec) linarith
  then show ?thesis by linarith
qed

lemma print_addresses_tokens:
  "\<forall>m\<in>set ms. unat (mi_address m) < 10000 \<Longrightarrow> 5 * length ms + 1 \<le> room \<Longrightarrow>
   \<exists>s. print_addresses False room ms = Some s \<and>
     (\<forall>t. CHR '','' \<notin> set t \<longrightarrow> comma_tokens (t @ s) = t # map (\<lambda>m. dec (unat (mi_address m))) ms)"
proof (induction ms arbitrary: room)
  case Nil
  then show ?case by (auto intro: comma_tokens_no_comma)
next
  case (Cons m ms)
  have len: "length (dec (unat (mi_address m))) \<le> 4"
    using Cons.prems(1) by (intro length_dec_4) simp
  then have "5 * length ms + 1 \<le> room - length ('','' @ dec (unat (mi_address m)))"
    using Cons.prems(2) by simp
  then obtain s where s: "print_addresses False (room - length ('','' @ dec (unat (mi_address m)))) ms = Some s"
    "\<And>t. CHR '','' \<notin> set t \<Longrightarrow> comma_tokens (t @ s) = t # map (\<lambda>m. dec (unat (mi_address m))) ms"
    using Cons.IH [of "room - length ('','' @ dec (unat (mi_address m)))"] Cons.prems(1) by auto
  have "print_addresses False room (m # ms) = Some ('','' @ dec (unat (mi_address m)) @ s)"
    using s(1) len Cons.prems(2) by simp
  moreover have "comma_tokens (t @ '','' @ dec (unat (mi_address m)) @ s) =
      t # map (\<lambda>m. dec (unat (mi_address m))) (m # ms)" if "CHR '','' \<notin> set t" for t
    using comma_tokens_more [OF that] s(2) [OF dec_no_comma] by simp
  ultimately show ?case by blast
qed

lemma print_addresses_list:
  assumes "\<forall>m\<in>set ms. unat (mi_address m) < 10000" and "ms \<noteq> []"
  obtains s where "print_addresses True (5 * length ms + 1) ms = Some s"
    "comma_tokens s = map (\<lambda>m. dec (unat (mi_address m))) ms"
proof -
  obtain m ms' where ms: "ms = m # ms'" using assms(2) by (cases ms) simp_all
  let ?d = "dec (unat (mi_address m))"
  have len: "length ?d \<le> 4"
    using assms(1) ms by (intro length_dec_4) simp
  then have "5 * length ms' + 1 \<le> 5 * length ms + 1 - length ?d" using ms by simp
  then obtain s where s: "print_addresses False (5 * length ms + 1 - length ?d) ms' = Some s"
    "comma_tokens (?d @ s) = ?d # map (\<lambda>m. dec (unat (mi_address m))) ms'"
    using print_addresses_tokens [of ms'] assms(1) ms dec_no_comma by (metis list.set_intros(2))
  show ?thesis
  proof (rule that [of "?d @ s"])
    show "print_addresses True (5 * length ms + 1) ms = Some (?d @ s)"
      using s(1) len ms by simp
    show "comma_tokens (?d @ s) = map (\<lambda>m. dec (unat (mi_address m))) ms" using s(2) ms by simp
  qed
qed

lemma listed_addresses_dec:
  "comma_tokens s = map (\<lambda>m. dec (unat (mi_address m))) ms \<Longrightarrow>
   listed_addresses s = map (\<lambda>m. int (unat (mi_address m))) ms \<and>
   (valid_address_list s \<longleftrightarrow> (\<forall>m\<in>set ms. unat (mi_address m) \<le> 127))"
proof -
  assume s: "comma_tokens s = map (\<lambda>m. dec (unat (mi_address m))) ms"
  have "filter (\<lambda>t. t \<noteq> []) (comma_tokens s) = comma_tokens s" unfolding s by simp
  then have "listed_addresses s = map (\<lambda>m. int (unat (mi_address m))) ms"
    unfolding listed_addresses_def by (simp add: s)
  moreover have "valid_token (dec n) \<longleftrightarrow> n \<le> 127" for n
    by (simp add: valid_token_def dec_digits)
  ultimately show ?thesis by (simp add: valid_address_list_def s)
qed

text \<open>The connected devices with the ids asked for.\<close>

definition selected :: "bool \<Rightarrow> u16 \<Rightarrow> bool \<Rightarrow> u16 \<Rightarrow> hub \<Rightarrow> port_event set" where
  "selected hv v hp p h =
     {ev. connected_at h 0 ev \<and> (hv \<longrightarrow> cn_vendor (pe_connection ev) = v) \<and>
        (hp \<longrightarrow> cn_product (pe_connection ev) = p)}"

definition match_of :: "connected_info \<Rightarrow> match_info" where
  "match_of d = \<lparr>mi_address = ci_address d, mi_vendor = ci_vendor d, mi_product = ci_product d\<rparr>"

lemma connected_list:
  "\<forall>n. ce_grow env n \<Longrightarrow>
     enumerate_get_connected_devices env link =
       (True, map (collected env) (enumerate_all_connected_devices link))"
  by (simp add: enumerate_get_connected_devices_def collect_all)

lemma id_match_collected:
  "id_match hv v hp p (collected env ev) \<longleftrightarrow>
     (hv \<longrightarrow> cn_vendor (pe_connection ev) = v) \<and> (hp \<longrightarrow> cn_product (pe_connection ev) = p)"
  by (auto simp: id_match_def collected_def Let_def)

text \<open>The devices that match, as the tool lists them.\<close>

definition matching :: "collect_env \<Rightarrow> bool \<Rightarrow> u16 \<Rightarrow> bool \<Rightarrow> u16 \<Rightarrow> (u16 list \<times> hub) option \<Rightarrow> match_info list" where
  "matching env hv v hp p link = map match_of (filter (id_match hv v hp p)
     (map (collected env) (enumerate_all_connected_devices link)))"

lemma matching_addresses:
  "mi_address ` set (matching env hv v hp p (Some (name, h))) = pe_address ` selected hv v hp p h"
proof -
  have "mi_address (match_of (collected env ev)) = pe_address ev" for ev
    by (simp add: match_of_def collected_def Let_def)
  moreover have "set (matching env hv v hp p (Some (name, h))) =
      match_of ` collected env ` selected hv v hp p h"
  proof -
    have evs: "set (enumerate_all_connected_devices (Some (name, h))) = {ev. connected_at h 0 ev}"
      by (simp add: enumerate_all_connected set_eq_iff)
    have comp: "{d \<in> collected env ` E. id_match hv v hp p d} =
        collected env ` {ev \<in> E. id_match hv v hp p (collected env ev)}" for E
      by blast
    show ?thesis
      unfolding matching_def set_map set_filter evs comp unfolding id_match_collected selected_def
      by (simp only: mem_Collect_eq)
  qed
  ultimately show ?thesis by (simp add: image_image)
qed

lemma resolve_matching:
  assumes "\<forall>n. ce_grow env n"
    and "\<forall>ev\<in>selected hv v hp p h. pe_address ev \<le> 127" and "selected hv v hp p h \<noteq> {}"
  obtains alist where
    "resolve_filter_matches True True env (Some (device, Some (name, h))) hv v hp p =
       Some (\<lparr>items = matching env hv v hp p (Some (name, h)), address_list = Some alist\<rparr>, True)"
    "valid_address_list alist"
    "set (listed_addresses alist) = (\<lambda>ev. int (unat (pe_address ev))) ` selected hv v hp p h"
proof -
  let ?ms = "matching env hv v hp p (Some (name, h))"
  have addr: "mi_address ` set ?ms = pe_address ` selected hv v hp p h" by (rule matching_addresses)
  have small: "\<forall>m\<in>set ?ms. unat (mi_address m) \<le> 127"
  proof
    fix m
    assume "m \<in> set ?ms"
    then have "mi_address m \<in> pe_address ` selected hv v hp p h" using addr by blast
    then show "unat (mi_address m) \<le> 127" using assms(2) by (auto simp: word_le_nat_alt)
  qed
  have ne: "?ms \<noteq> []" using addr assms(3) by force
  have "\<forall>m\<in>set ?ms. unat (mi_address m) < 10000" using small by fastforce
  then obtain s where s: "print_addresses True (5 * length ?ms + 1) ?ms = Some s"
    "comma_tokens s = map (\<lambda>m. dec (unat (mi_address m))) ?ms"
    by (rule print_addresses_list [OF _ ne])
  have found: "map (\<lambda>d. \<lparr>mi_address = ci_address d, mi_vendor = ci_vendor d, mi_product = ci_product d\<rparr>)
      (filter (id_match hv v hp p) (map (collected env) (enumerate_all_connected_devices (Some (name, h))))) = ?ms"
    by (simp add: matching_def match_of_def [abs_def])
  show ?thesis
  proof (rule that)
    show "resolve_filter_matches True True env (Some (device, Some (name, h))) hv v hp p =
        Some (\<lparr>items = ?ms, address_list = Some s\<rparr>, True)"
      unfolding resolve_filter_matches_def
      by (simp only: option.case prod.case connected_list [OF assms(1)] bool.case found Let_def)
         (use s(1) in \<open>simp add: ne\<close>)
    show "valid_address_list s" using listed_addresses_dec [OF s(2)] small by blast
    have "set (listed_addresses s) = (\<lambda>a. int (unat a)) ` (mi_address ` set ?ms)"
      using listed_addresses_dec [OF s(2)] by (simp add: image_image)
    then show "set (listed_addresses s) = (\<lambda>ev. int (unat (pe_address ev))) ` selected hv v hp p h"
      unfolding addr by (simp add: image_image)
  qed
qed

text \<open>C15. A capture limited to a vendor or product id captures exactly the matching devices: when
  the addresses of the matching connected devices are at most 127 and there is one, the tool
  finds them all, the address list it prints fits its buffer and is accepted by the filter's
  parser, and the resulting filter, which is what the driver gets, has exactly the addresses
  of the devices that are connected below the root hub and have the ids.\<close>

theorem id_filter_captures_devices:
  assumes "\<forall>n. ce_grow env n"
    and "\<forall>ev\<in>selected hv v hp p h. pe_address ev \<le> 127" and "selected hv v hp p h \<noteq> {}"
  shows "\<exists>m alist flt.
     resolve_filter_matches True True env (Some (device, Some (name, h))) hv v hp p = Some (m, True) \<and>
     address_list m = Some alist \<and>
     mi_address ` set (items m) = pe_address ` selected hv v hp p h \<and>
     USBPcapInitAddressFilter (Some f) (Some alist) 0 = (Some flt, True) \<and>
     {a \<in> {0..127}. cmd_USBPcapIsDeviceFiltered flt a} =
       (\<lambda>ev. int (unat (pe_address ev))) ` selected hv v hp p h"
proof (rule resolve_matching [OF assms])
  fix alist
  assume r: "resolve_filter_matches True True env (Some (device, Some (name, h))) hv v hp p =
      Some (\<lparr>items = matching env hv v hp p (Some (name, h)), address_list = Some alist\<rparr>, True)"
    and valid: "valid_address_list alist"
    and listed: "set (listed_addresses alist) = (\<lambda>ev. int (unat (pe_address ev))) ` selected hv v hp p h"
  obtain flt where flt: "USBPcapInitAddressFilter (Some f) (Some alist) 0 = (Some flt, True)"
    "{a \<in> {0..127}. cmd_USBPcapIsDeviceFiltered flt a} = set (listed_addresses alist) \<inter> {0..127}"
    using InitAddressFilter_correct [of f alist 0] valid by auto
  have "uint (pe_address ev) \<le> 127" if "ev \<in> selected hv v hp p h" for ev
    using assms(2) that by (simp add: word_le_def)
  then have "(\<lambda>ev. int (unat (pe_address ev))) ` selected hv v hp p h \<subseteq> {0..127}"
    by (auto simp: image_subset_iff)
  then have "{a \<in> {0..127}. cmd_USBPcapIsDeviceFiltered flt a} =
      (\<lambda>ev. int (unat (pe_address ev))) ` selected hv v hp p h"
    unfolding flt(2) listed by blast
  with r flt(1) matching_addresses [of env hv v hp p name h] show ?thesis
    by (intro exI [of _ "\<lparr>items = matching env hv v hp p (Some (name, h)), address_list = Some alist\<rparr>"]
        exI [of _ alist] exI [of _ flt]) simp
qed

lemma sample_connected:
  "{ev. connected_at sample_hub 0 ev} =
     {\<lparr>pe_port = 2, pe_address = 2, pe_hub_address = 0, pe_connection =
        \<lparr>cn_status = DeviceConnected, cn_isHub = True, cn_address = 2, cn_vendor = 0x424, cn_product = 0x2514\<rparr>\<rparr>,
      \<lparr>pe_port = 2, pe_address = 5, pe_hub_address = 2, pe_connection =
        \<lparr>cn_status = DeviceConnected, cn_isHub = False, cn_address = 5, cn_vendor = 0x46D, cn_product = 0xC31C\<rparr>\<rparr>}"
proof -
  have evs: "{ev. connected_at sample_hub 0 ev} = set (enumerate_all_connected_devices (Some ([], sample_hub)))"
    by (simp add: enumerate_all_connected set_eq_iff)
  show ?thesis unfolding evs by (simp add: enumerate_all_connected_devices_def sample_hub_def numeral_2_eq_2)
qed

lemma sample_selected:
  "selected True 0x46D False 0 sample_hub =
     {\<lparr>pe_port = 2, pe_address = 5, pe_hub_address = 2, pe_connection =
        \<lparr>cn_status = DeviceConnected, cn_isHub = False, cn_address = 5, cn_vendor = 0x46D, cn_product = 0xC31C\<rparr>\<rparr>}"
proof -
  have "selected True 0x46D False 0 sample_hub =
      {ev \<in> {ev. connected_at sample_hub 0 ev}. cn_vendor (pe_connection ev) = 0x46D}"
    by (simp add: selected_def)
  then show ?thesis unfolding sample_connected by (simp add: Collect_conv_if conj_disj_distribR Collect_disj_eq)
qed

theorem id_filter_captures_devices_witness:
  "\<exists>m alist flt.
     resolve_filter_matches True True sample_env (Some (''hub'', Some ([], sample_hub))) True 0x46D False 0 =
       Some (m, True) \<and>
     address_list m = Some alist \<and>
     USBPcapInitAddressFilter (Some filter_zero) (Some alist) 0 = (Some flt, True) \<and>
     {a \<in> {0..127}. cmd_USBPcapIsDeviceFiltered flt a} = {5}"
proof -
  have grow: "\<forall>n. ce_grow sample_env n" by (simp add: sample_env_def)
  have small: "\<forall>ev\<in>selected True 0x46D False 0 sample_hub. pe_address ev \<le> 127"
    unfolding sample_selected by simp
  have ne: "selected True 0x46D False 0 sample_hub \<noteq> {}" unfolding sample_selected by simp
  have five: "(\<lambda>ev. int (unat (pe_address ev))) ` selected True 0x46D False 0 sample_hub = {5}"
    unfolding sample_selected by simp
  show ?thesis
    using id_filter_captures_devices [OF grow small ne, of "''hub''" "[]" filter_zero] unfolding five by blast
qed

section \<open>The packets the thread lets through\<close>

lemma length_add_metadata: "length (fold add_metadata ds t) = length t"
  by (induction ds arbitrary: t) (simp_all add: add_metadata_def)

lemma fold_add_metadata:
  "a < 128 \<Longrightarrow> length t = 128 \<Longrightarrow>
   (\<exists>d\<in>set ds. unat (ci_address d) = a \<and>
      fold add_metadata ds t ! a = \<lparr>present = True, md_vendor_id = ci_vendor d, md_product_id = ci_product d\<rparr>) \<or>
   (\<forall>d\<in>set ds. unat (ci_address d) \<noteq> a) \<and> fold add_metadata ds t ! a = t ! a"
proof (induction ds rule: rev_induct)
  case (snoc d ds)
  have small: "ci_address d < 128 \<longleftrightarrow> unat (ci_address d) < 128" by (simp add: word_less_nat_alt)
  show ?case
  proof (cases "unat (ci_address d) = a")
    case True
    have "fold add_metadata (ds @ [d]) t ! a =
        \<lparr>present = True, md_vendor_id = ci_vendor d, md_product_id = ci_product d\<rparr>"
      using snoc.prems small True length_add_metadata [of ds t]
      by (simp add: add_metadata_def [of d])
    then show ?thesis using True by auto
  next
    case False
    have "fold add_metadata (ds @ [d]) t ! a = fold add_metadata ds t ! a"
      using False by (simp add: add_metadata_def [of d])
    then show ?thesis using snoc.IH [OF snoc.prems] False by auto
  qed
qed simp

lemma populate_table:
  assumes "\<forall>n. ce_grow env n"
  shows "populate_device_metadata env data (Some (device, Some (name, h))) =
    (data\<lparr>metadata := fold add_metadata
       (map (collected env) (enumerate_all_connected_devices (Some (name, h)))) (replicate 128 no_metadata)\<rparr>, True)"
  by (simp add: populate_device_metadata_def connected_list [OF assms])

lemma collected_fields:
  "ci_address (collected env ev) = pe_address ev"
  "ci_vendor (collected env ev) = cn_vendor (pe_connection ev)"
  "ci_product (collected env ev) = cn_product (pe_connection ev)"
  by (simp_all add: collected_def Let_def)

text \<open>What the table says about one address.\<close>

lemma populate_entry:
  assumes "\<forall>n. ce_grow env n" and "a < 128"
    and "data' = fst (populate_device_metadata env data (Some (device, Some (name, h))))"
  shows "(\<exists>ev\<in>{ev. connected_at h 0 ev}. unat (pe_address ev) = a \<and> metadata data' ! a =
      \<lparr>present = True, md_vendor_id = cn_vendor (pe_connection ev), md_product_id = cn_product (pe_connection ev)\<rparr>) \<or>
    (\<forall>ev\<in>{ev. connected_at h 0 ev}. unat (pe_address ev) \<noteq> a) \<and> metadata data' ! a = no_metadata"
proof -
  have evs: "set (enumerate_all_connected_devices (Some (name, h))) = {ev. connected_at h 0 ev}"
    by (simp add: enumerate_all_connected set_eq_iff)
  have t: "metadata data' = fold add_metadata
       (map (collected env) (enumerate_all_connected_devices (Some (name, h)))) (replicate 128 no_metadata)"
    by (simp add: assms(3) populate_table [OF assms(1)])
  have len: "length (replicate 128 no_metadata) = 128" by simp
  show ?thesis
    using fold_add_metadata [OF assms(2) len, of "map (collected env) (enumerate_all_connected_devices (Some (name, h)))"]
    unfolding t set_map evs bex_simps(7) ball_simps(9) collected_fields using assms(2) by (simp only: nth_replicate)
qed


definition sample_thread :: thread_data where
  "sample_thread =
     \<lparr>filename = ''out.pcap'', td_filter = filter_zero, capture_new = False, td_snaplen = 65535,
      bufferlen = 4096, process = True, write_handle = INVALID_HANDLE_VALUE,
      descriptors = \<lparr>inj_descriptors = [], descriptors_len = 0, inj_buf = replicate 24 0, buf_written = 0\<rparr>,
      store_mode = USBPCAP_STORE_MODE_ON_MATCH, triggered = False, output_created = False,
      dropped_packets = 0, last_flush_tick = 0,
      app_filter = \<lparr>enabled = True, has_vendor_id = True, has_product_id = False,
        has_endpoint = False, has_transfer_type = False, flt_vendor_id = 0x46D, flt_product_id = 0,
        flt_endpoint = 0, flt_transfer_type = 0\<rparr>,
      metadata = replicate 128 no_metadata\<rparr>"


section \<open>The interface with the devices\<close>

lemma resolve_any:
  assumes "\<forall>n. ce_grow env n"
    and "\<forall>m\<in>set (matching env hv v hp p (snd f)). unat (mi_address m) < 10000"
  obtains current where "resolve_filter_matches True True env (Some f) hv v hp p = Some (current, True)"
    "items current = matching env hv v hp p (snd f)"
    "address_list current \<noteq> None \<longleftrightarrow> items current \<noteq> []"
proof -
  let ?ms = "matching env hv v hp p (snd f)"
  have found: "map (\<lambda>d. \<lparr>mi_address = ci_address d, mi_vendor = ci_vendor d, mi_product = ci_product d\<rparr>)
      (filter (id_match hv v hp p) (map (collected env) (enumerate_all_connected_devices link))) =
      matching env hv v hp p link" for link
    by (simp add: matching_def match_of_def [abs_def])
  have step: "resolve_filter_matches True True env (Some f) hv v hp p =
      (if ?ms = [] then Some (no_matches, True)
       else map_option (\<lambda>s. (\<lparr>items = ?ms, address_list = Some s\<rparr>, True))
         (print_addresses True (5 * length ?ms + 1) ?ms))"
    unfolding resolve_filter_matches_def
    by (cases f) (simp only: option.case prod.case connected_list [OF assms(1)] bool.case found Let_def
        snd_conv simp_thms if_False)
  show ?thesis
  proof (cases "?ms = []")
    case True
    then show ?thesis using step by (intro that [of no_matches]) (simp_all add: no_matches_def)
  next
    case False
    obtain s where "print_addresses True (5 * length ?ms + 1) ?ms = Some s"
      using print_addresses_list [OF assms(2) False] .
    then show ?thesis using step False
      by (intro that [of "\<lparr>items = ?ms, address_list = Some s\<rparr>"]) simp_all
  qed
qed

abbreviation has_match :: "collect_env \<Rightarrow> bool \<Rightarrow> u16 \<Rightarrow> bool \<Rightarrow> u16 \<Rightarrow> hub_interface \<Rightarrow> bool" where
  "has_match env hv v hp p f \<equiv> matching env hv v hp p (snd f) \<noteq> []"

lemma auto_select_loop_result:
  assumes "\<forall>n. ce_grow env n"
  shows "au_found st \<le> 1 \<Longrightarrow>
    \<forall>f\<in>set fs. \<forall>m\<in>set (matching env hv v hp p (snd f)). unat (mi_address m) < 10000 \<Longrightarrow>
    \<exists>st'. auto_select_loop True True env hv v hp p fs st =
        Some (st', au_found st + length (filter (has_match env hv v hp p) fs) = 1) \<and>
      (filter (has_match env hv v hp p) fs = [] \<longrightarrow> st' = st) \<and>
      (\<forall>f. au_found st = 0 \<and> filter (has_match env hv v hp p) fs = [f] \<longrightarrow>
         au_device st' = Some (fst f) \<and> items (au_matches st') = matching env hv v hp p (snd f) \<and>
         address_list (au_matches st') \<noteq> None)"
proof (induction fs arbitrary: st)
  case Nil
  then show ?case by simp
next
  case (Cons f fs)
  obtain cur where cur: "resolve_filter_matches True True env (Some f) hv v hp p = Some (cur, True)"
    "items cur = matching env hv v hp p (snd f)" "address_list cur \<noteq> None \<longleftrightarrow> items cur \<noteq> []"
    using resolve_any [OF assms] Cons.prems(2) by (metis list.set_intros(1))
  have rest: "\<forall>f\<in>set fs. \<forall>m\<in>set (matching env hv v hp p (snd f)). unat (mi_address m) < 10000"
    using Cons.prems(2) by simp
  show ?case
  proof (cases "has_match env hv v hp p f")
    case False
    then show ?thesis using Cons.IH [OF Cons.prems(1) rest] cur by simp
  next
    case True
    show ?thesis
    proof (cases "au_found st")
      case 0
      let ?st = "st\<lparr>au_found := 1, au_device := Some (fst f), au_matches := cur\<rparr>"
      have "au_found ?st \<le> 1" by simp
      from Cons.IH [OF this rest] show ?thesis using cur True 0 by auto
    next
      case (Suc k)
      then show ?thesis using cur True Cons.prems(1) by simp
    qed
  qed
qed

text \<open>C25. --auto-interface succeeds exactly when one interface has connected devices with the
  ids, and then names that interface and has all of its matching devices; with none or with
  several it fails.\<close>

theorem auto_interface_unique:
  assumes "\<forall>n. ce_grow env n"
    and "\<forall>f\<in>set filters. \<forall>m\<in>set (matching env hv v hp p (snd f)). unat (mi_address m) < 10000"
  shows "\<exists>st. auto_select_interface True True env filters hv v hp p =
      Some (st, length (filter (has_match env hv v hp p) filters) = 1) \<and>
    (\<forall>f. filter (has_match env hv v hp p) filters = [f] \<longrightarrow>
       au_device st = Some (fst f) \<and> items (au_matches st) = matching env hv v hp p (snd f) \<and>
       address_list (au_matches st) \<noteq> None)"
  using auto_select_loop_result [OF assms(1) _ assms(2), of
      "\<lparr>au_device = None, au_matches = no_matches, au_found = 0\<rparr>"]
  by (simp add: auto_select_interface_def) blast

theorem auto_interface_unique_witness:
  "\<exists>st. auto_select_interface True True sample_env
      [(''first'', Some ([], HubPorts [])), (''second'', Some ([], sample_hub))] True 0x46D False 0 = Some (st, True) \<and>
    au_device st = Some ''second''"
proof -
  have grow: "\<forall>n. ce_grow sample_env n" by (simp add: sample_env_def)
  have first: "matching sample_env True 0x46D False 0 (Some ([], HubPorts [])) = []"
    by (simp add: matching_def enumerate_all_connected_devices_def)
  have second: "matching sample_env True 0x46D False 0 (Some ([], sample_hub)) =
      [\<lparr>mi_address = 5, mi_vendor = 0x46D, mi_product = 0xC31C\<rparr>]"
    by (simp add: matching_def enumerate_all_connected_devices_def sample_hub_def collected_def
        sample_env_def match_of_def id_match_def Let_def)
  show ?thesis
    using auto_interface_unique [OF grow, of "[(''first'', Some ([], HubPorts [])), (''second'', Some ([], sample_hub))]"
        True "0x46D" False 0] by (simp add: first second) blast
qed

end
