(* ===== verification/GetOpt.thy ===== *)
theory GetOpt
  imports Prelude
begin

text \<open>
  The option parser of the command line tool (getopt.c): the exchange of the options found
  with the operands skipped before them, the search of a long option by any unambiguous
  prefix, and the scan that returns one option per call.

  The static and global variables are the fields of a record; argv is a list, and its NULL
  end is the end of the list. optreset stays 0 and optind is never set to 0 by the tool.
\<close>

section \<open>Exchanging two blocks\<close>

fun gcd_loop :: "nat \<Rightarrow> nat \<Rightarrow> nat" where
  "gcd_loop a b = (if b = 0 then a else gcd_loop b (a mod b))"

declare gcd_loop.simps [simp del]

text \<open>The function is not called with b = 0, where the division would trap.\<close>

definition getopt_gcd :: "nat \<Rightarrow> nat \<Rightarrow> nat" where
  "getopt_gcd a b = gcd_loop b (a mod b)"

definition swap_at :: "nat \<Rightarrow> nat \<Rightarrow> 'a list \<Rightarrow> 'a list" where
  "swap_at i j xs = xs[i := xs ! j, j := xs ! i]"

text \<open>The inner loop: k rounds from position pos, carrying an element in cstart.\<close>

fun permute_cycle :: "nat \<Rightarrow> nat \<Rightarrow> nat \<Rightarrow> nat \<Rightarrow> nat \<Rightarrow> nat \<Rightarrow> 'a list \<Rightarrow> 'a list" where
  "permute_cycle nonopt_end nnonopts nopts cstart 0 pos xs = xs"
| "permute_cycle nonopt_end nnonopts nopts cstart (Suc k) pos xs =
     (let pos' = (if pos \<ge> nonopt_end then pos - nnonopts else pos + nopts) in
      permute_cycle nonopt_end nnonopts nopts cstart k pos' (swap_at pos' cstart xs))"

definition permute_args :: "nat \<Rightarrow> nat \<Rightarrow> nat \<Rightarrow> 'a list \<Rightarrow> 'a list" where
  "permute_args nonopt_start nonopt_end opt_end nargv =
     (let nnonopts = nonopt_end - nonopt_start;
          nopts = opt_end - nonopt_end;
          ncycle = getopt_gcd nnonopts nopts;
          cyclelen = (opt_end - nonopt_start) div ncycle in
      fold (\<lambda>i. permute_cycle nonopt_end nnonopts nopts (nonopt_end + i) cyclelen (nonopt_end + i))
        [0..<ncycle] nargv)"

lemma length_swap_at [simp]: "length (swap_at i j xs) = length xs"
  by (simp add: swap_at_def)

lemma length_permute_cycle [simp]: "length (permute_cycle e a b c k pos xs) = length xs"
  by (induction k arbitrary: pos xs) (simp_all add: Let_def)

lemma length_permute_args [simp]: "length (permute_args s e m xs) = length xs"
proof -
  have "length (fold (\<lambda>i. permute_cycle e a b (e + i) l (e + i)) is xs) = length xs" for a b l "is"
    by (induction "is" arbitrary: xs) simp_all
  then show ?thesis by (simp add: permute_args_def Let_def)
qed

section \<open>The parser's state\<close>

datatype arg_kind = no_argument | required_argument | optional_argument

text \<open>The flag of a long option is the name of the variable it points to.\<close>

record long_option =
  lo_name :: string
  lo_arg :: arg_kind
  lo_flag :: "string option"
  lo_val :: int

text \<open>
  place is what is left of the argument being scanned, at_start whether it still is the whole
  argument; flag_vars are the variables that flags point to.
\<close>

record getopt_state =
  argv :: "string list"
  optind :: nat
  optopt :: int
  optarg :: "string option"
  place :: string
  at_start :: bool
  nonopt_start :: "nat option"
  nonopt_end :: "nat option"
  option_index :: nat
  flag_vars :: "string \<Rightarrow> int"

abbreviation BADCH :: int where "BADCH \<equiv> 63"

definition BADARG :: "string \<Rightarrow> int" where
  "BADARG options = (if take 1 options = '':'' then 58 else 63)"

text \<open>A character as an int: char is signed.\<close>

definition char_code :: "char \<Rightarrow> int" where
  "char_code c = (if (of_char c :: int) < 128 then of_char c else of_char c - 256)"

section \<open>Long options\<close>

definition identical_interpretation :: "long_option \<Rightarrow> long_option \<Rightarrow> bool" where
  "identical_interpretation x y \<longleftrightarrow> lo_arg x = lo_arg y \<and> lo_flag x = lo_flag y \<and> lo_val x = lo_val y"

text \<open>The loop over the table, with the match so far and whether it is ambiguous.\<close>

fun match_long ::
  "string \<Rightarrow> bool \<Rightarrow> (nat \<times> long_option) list \<Rightarrow> (nat \<times> long_option) option \<Rightarrow> bool \<Rightarrow>
   (nat \<times> long_option) option \<times> bool" where
  "match_long current short_too [] m ambiguous = (m, ambiguous)"
| "match_long current short_too ((i, opt) # opts) m ambiguous =
     (if take (length current) (lo_name opt) \<noteq> current
      then match_long current short_too opts m ambiguous
      else if length (lo_name opt) = length current then (Some (i, opt), False)
      else if short_too \<and> length current = 1 then match_long current short_too opts m ambiguous
      else (case m of
              None \<Rightarrow> match_long current short_too opts (Some (i, opt)) ambiguous
            | Some (j, other) \<Rightarrow>
                match_long current short_too opts m
                  (ambiguous \<or> \<not> identical_interpretation opt other)))"

definition arg_at :: "string list \<Rightarrow> nat \<Rightarrow> string option" where
  "arg_at args i = (if i < length args then Some (args ! i) else None)"

definition parse_long_options ::
  "string \<Rightarrow> long_option list \<Rightarrow> bool \<Rightarrow> getopt_state \<Rightarrow> int \<times> getopt_state" where
  "parse_long_options options table short_too s0 =
     (let current = takeWhile (\<lambda>c. c \<noteq> CHR ''='') (place s0);
          has_equal = (if CHR ''='' \<in> set (place s0)
                       then Some (drop (length current + 1) (place s0)) else None);
          s = s0\<lparr>optind := optind s0 + 1\<rparr> in
      case match_long current short_too (enumerate 0 table) None False of
        (_, True) \<Rightarrow> (BADCH, s\<lparr>optopt := 0\<rparr>)
      | (None, False) \<Rightarrow>
          if short_too then (-1, s\<lparr>optind := optind s - 1\<rparr>) else (BADCH, s\<lparr>optopt := 0\<rparr>)
      | (Some (i, opt), False) \<Rightarrow>
          let bad = (case lo_flag opt of None \<Rightarrow> lo_val opt | Some _ \<Rightarrow> 0) in
          if lo_arg opt = no_argument \<and> has_equal \<noteq> None then (BADARG options, s\<lparr>optopt := bad\<rparr>)
          else
            let s1 = (if lo_arg opt = no_argument then s
                      else if has_equal \<noteq> None then s\<lparr>optarg := has_equal\<rparr>
                      else if lo_arg opt = required_argument
                      then s\<lparr>optarg := arg_at (argv s) (optind s), optind := optind s + 1\<rparr>
                      else s) in
            if lo_arg opt = required_argument \<and> optarg s1 = None
            then (BADARG options, s1\<lparr>optopt := bad, optind := optind s1 - 1\<rparr>)
            else let s2 = s1\<lparr>option_index := i\<rparr> in
              (case lo_flag opt of
                 Some v \<Rightarrow> (0, s2\<lparr>flag_vars := (flag_vars s2)(v := lo_val opt)\<rparr>)
               | None \<Rightarrow> (lo_val opt, s2)))"

section \<open>The scan\<close>

datatype scan = Return int | Scan

text \<open>
  From the label start: operands are skipped and later exchanged with the options after them.
  permute and allargs are the flags, options the option letters without their prefix.
\<close>

definition exchange :: "getopt_state \<Rightarrow> getopt_state" where
  "exchange s = (case (nonopt_start s, nonopt_end s) of
     (Some a, Some e) \<Rightarrow> s\<lparr>argv := permute_args a e (optind s) (argv s), optind := optind s - (e - a)\<rparr>
   | _ \<Rightarrow> s)"

definition skip_operand :: "getopt_state \<Rightarrow> getopt_state" where
  "skip_operand s =
     (let s1 = (case nonopt_start s of
                  None \<Rightarrow> s\<lparr>nonopt_start := Some (optind s)\<rparr>
                | Some a \<Rightarrow>
                    (case nonopt_end s of
                       Some e \<Rightarrow> s\<lparr>argv := permute_args a e (optind s) (argv s),
                         nonopt_start := Some (optind s - (e - a)), nonopt_end := None\<rparr>
                     | None \<Rightarrow> s))
      in s1\<lparr>optind := optind s + 1\<rparr>)"

lemma skip_operand_measure:
  "optind s < length (argv s) \<Longrightarrow>
     length (argv (skip_operand s)) - optind (skip_operand s) < length (argv s) - optind s"
  by (auto simp: skip_operand_def Let_def split: option.split)

function scan_start :: "bool \<Rightarrow> bool \<Rightarrow> string \<Rightarrow> getopt_state \<Rightarrow> scan \<times> getopt_state" where
  "scan_start permute allargs options s =
     (if length (argv s) \<le> optind s then
        (Return (-1),
         (if nonopt_end s \<noteq> None then exchange s
          else (case nonopt_start s of Some a \<Rightarrow> s\<lparr>optind := a\<rparr> | None \<Rightarrow> s))
           \<lparr>place := [], nonopt_start := None, nonopt_end := None\<rparr>)
      else
        (let arg = argv s ! optind s in
         if take 1 arg \<noteq> ''-'' \<or> length arg = 1 \<and> CHR ''-'' \<notin> set options then
           (if allargs then (Return 1, s\<lparr>place := [], optarg := Some arg, optind := optind s + 1\<rparr>)
            else if \<not> permute then (Return (-1), s\<lparr>place := []\<rparr>)
            else scan_start permute allargs options (skip_operand (s\<lparr>place := []\<rparr>)))
         else
           (let s1 = (if nonopt_start s \<noteq> None \<and> nonopt_end s = None
                      then s\<lparr>nonopt_end := Some (optind s)\<rparr> else s) in
            if arg = ''--''
            then (Return (-1), (exchange (s1\<lparr>optind := optind s1 + 1, place := []\<rparr>))
                    \<lparr>nonopt_start := None, nonopt_end := None\<rparr>)
            else if length arg = 1 then (Scan, s1\<lparr>place := arg, at_start := True\<rparr>)
            else (Scan, s1\<lparr>place := tl arg, at_start := False\<rparr>))))"
  by pat_completeness auto
termination
  by (relation "measure (\<lambda>(p, a, o', s). length (argv s) - optind s)")
     (auto simp: skip_operand_def Let_def split: option.split)

declare scan_start.simps [simp del]

section \<open>Short options\<close>

text \<open>
  The part after the long options. oli is the option letter in the list of letters with what
  follows it. place is not empty here.
\<close>

definition long_option_argument ::
  "string \<Rightarrow> long_option list \<Rightarrow> getopt_state \<Rightarrow> int \<times> getopt_state" where
  "long_option_argument options table s =
     (case parse_long_options options table False s of (r, s') \<Rightarrow> (r, s'\<lparr>place := []\<rparr>))"

definition short_option ::
  "string \<Rightarrow> long_option list option \<Rightarrow> getopt_state \<Rightarrow> int \<times> getopt_state" where
  "short_option options table s0 =
     (let c = hd (place s0); rest = tl (place s0);
          s = s0\<lparr>place := rest, at_start := False\<rparr>;
          oli = dropWhile (\<lambda>x. x \<noteq> c) options;
          onward = (if rest = [] then optind s + 1 else optind s) in
      if c = CHR '':'' \<or> c = CHR ''-'' \<and> rest \<noteq> [] \<or> oli = [] then
        (if c = CHR ''-'' \<and> rest = [] then (-1, s)
         else (BADCH, s\<lparr>optind := onward, optopt := char_code c\<rparr>))
      else if table \<noteq> None \<and> c = CHR ''W'' \<and> take 1 (tl oli) = '';'' then
        (if rest \<noteq> [] then long_option_argument options (the table) s
         else if optind s + 1 \<ge> length (argv s)
         then (BADARG options, s\<lparr>optind := optind s + 1, place := [], optopt := char_code c\<rparr>)
         else long_option_argument options (the table)
                (s\<lparr>optind := optind s + 1, place := argv s ! (optind s + 1)\<rparr>))
      else if take 1 (tl oli) \<noteq> '':'' then (char_code c, s\<lparr>optind := onward\<rparr>)
      else if rest \<noteq> []
      then (char_code c, s\<lparr>optarg := Some rest, place := [], optind := optind s + 1\<rparr>)
      else if take 1 (drop 2 oli) \<noteq> '':'' then
        (if optind s + 1 \<ge> length (argv s)
         then (BADARG options,
               s\<lparr>optarg := None, optind := optind s + 1, place := [], optopt := char_code c\<rparr>)
         else (char_code c, s\<lparr>optarg := Some (argv s ! (optind s + 1)), place := [], optind := optind s + 2\<rparr>))
      else (char_code c, s\<lparr>optarg := None, place := [], optind := optind s + 1\<rparr>))"

section \<open>One call\<close>

text \<open>posixly is whether the environment has POSIXLY_CORRECT; the list of letters is not NULL.\<close>

definition getopt_internal ::
  "bool \<Rightarrow> bool \<Rightarrow> bool \<Rightarrow> string \<Rightarrow> long_option list option \<Rightarrow> getopt_state \<Rightarrow> int \<times> getopt_state" where
  "getopt_internal posixly permute0 longonly options0 table s0 =
     (let allargs = (take 1 options0 = ''-'');
          permute = (permute0 \<and> (allargs \<or> \<not> (posixly \<or> take 1 options0 = ''+'')));
          options = (if take 1 options0 = ''+'' \<or> take 1 options0 = ''-'' then tl options0 else options0);
          s1 = s0\<lparr>optarg := None\<rparr> in
      case (if place s1 = [] then scan_start permute allargs options s1 else (Scan, s1)) of
        (Return r, s) \<Rightarrow> (r, s)
      | (Scan, s) \<Rightarrow>
          if table \<noteq> None \<and> \<not> at_start s \<and> (take 1 (place s) = ''-'' \<or> longonly) then
            (let dash = (take 1 (place s) = ''-'');
                 short_too = (\<not> dash \<and> hd (place s) \<noteq> CHR '':'' \<and> hd (place s) \<in> set options);
                 s2 = (if dash then s\<lparr>place := tl (place s)\<rparr> else s) in
             case parse_long_options options (the table) short_too s2 of
               (r, s3) \<Rightarrow>
                 if r \<noteq> -1 then (r, s3\<lparr>place := []\<rparr>) else short_option options table s3)
          else short_option options table s)"

definition getopt :: "bool \<Rightarrow> string \<Rightarrow> getopt_state \<Rightarrow> int \<times> getopt_state" where
  "getopt posixly options = getopt_internal posixly False False options None"

definition getopt_long ::
  "bool \<Rightarrow> string \<Rightarrow> long_option list \<Rightarrow> getopt_state \<Rightarrow> int \<times> getopt_state" where
  "getopt_long posixly options table = getopt_internal posixly True False options (Some table)"

definition getopt_long_only ::
  "bool \<Rightarrow> string \<Rightarrow> long_option list \<Rightarrow> getopt_state \<Rightarrow> int \<times> getopt_state" where
  "getopt_long_only posixly options table = getopt_internal posixly True True options (Some table)"

text \<open>The variables before the first call.\<close>

definition getopt_init :: "string list \<Rightarrow> getopt_state" where
  "getopt_init args =
     \<lparr>argv = args, optind = 1, optopt = 63, optarg = None, place = [], at_start = False,
      nonopt_start = None, nonopt_end = None, option_index = 0, flag_vars = (\<lambda>v. 0)\<rparr>"

end
