(* ===== verification/GetOptSpec.thy ===== *)
theory GetOptSpec
  imports GetOpt
begin

text \<open>
  What the option parser does (GetOpt): the exchange of two blocks by cycles is the exchange
  of the blocks in order, and a vector that renders a list of options is parsed to exactly
  these options.
\<close>

section \<open>The exchange\<close>

lemma gcd_loop_gcd: "gcd_loop a b = gcd a b"
  by (induction a b rule: gcd_loop.induct)
     (metis gcd_0_nat gcd_loop.simps gcd_red_nat)

lemma getopt_gcd_gcd: "getopt_gcd a b = gcd a b"
  unfolding getopt_gcd_def gcd_loop_gcd by (metis gcd_red_nat)

text \<open>
  One cycle: the positions P 0, P 1, ... that the loop visits. After j rounds the elements of
  the first j positions have moved on, and the first position carries the next one.
\<close>

lemma permute_cycle_run:
  assumes step: "\<And>k. k < L \<Longrightarrow> (if P k \<ge> e then P k - a else P k + b) = P (Suc k)"
    and inj: "inj_on P {..<L}" and closed: "P L = P 0" and range: "\<And>k. P k < length xs"
  shows "j < L \<Longrightarrow> j + k = L \<Longrightarrow> length ys = length xs \<Longrightarrow>
    \<forall>i<j. ys ! P (Suc i) = xs ! P i \<Longrightarrow> ys ! P 0 = xs ! P j \<Longrightarrow>
    \<forall>p<length xs. p \<notin> P ` {..j} \<longrightarrow> ys ! p = xs ! p \<Longrightarrow>
    (\<forall>i<L. permute_cycle e a b (P 0) k (P j) ys ! P (Suc i) = xs ! P i) \<and>
    (\<forall>p<length xs. p \<notin> P ` {..<L} \<longrightarrow> permute_cycle e a b (P 0) k (P j) ys ! p = xs ! p)"
proof (induction k arbitrary: j ys)
  case (Suc k)
  have run: "permute_cycle e a b (P 0) (Suc k) (P j) ys =
      permute_cycle e a b (P 0) k (P (Suc j)) (swap_at (P (Suc j)) (P 0) ys)"
    using step [OF Suc.prems(1)] by (simp add: Let_def)
  show ?case
  proof (cases k)
    case 0
    then have L: "L = Suc j" using Suc.prems(2) by simp
    have same: "permute_cycle e a b (P 0) (Suc k) (P j) ys = ys"
      unfolding run using closed 0 by (simp add: L swap_at_def)
    have "ys ! P (Suc i) = xs ! P i" if "i < L" for i
      using that Suc.prems(4,5) closed by (cases "i = j") (simp_all add: L less_Suc_eq)
    moreover have "ys ! p = xs ! p" if "p < length xs" "p \<notin> P ` {..<L}" for p
      using that Suc.prems(6) by (simp add: L lessThan_Suc_atMost)
    ultimately show ?thesis unfolding same by blast
  next
    case (Suc k')
    let ?zs = "swap_at (P (Suc j)) (P 0) ys"
    have j: "Suc j < L" using Suc.prems(2) Suc by simp
    have ne: "P (Suc j) \<noteq> P i" if "i \<le> j" for i
      using inj_onD [OF inj, of "Suc j" i] that j by auto
    then have fresh: "P (Suc j) \<notin> P ` {..j}" by auto
    have len: "P i < length ys" for i using range Suc.prems(3) by simp
    have new: "?zs ! P (Suc j) = xs ! P j" and carried: "?zs ! P 0 = xs ! P (Suc j)"
      using ne [of 0] len Suc.prems(5) Suc.prems(6) fresh range by (simp_all add: swap_at_def)
    have old: "?zs ! P (Suc i) = xs ! P i" if "i < j" for i
    proof -
      have "P (Suc i) \<noteq> P (Suc j)" using ne [of "Suc i"] that by auto
      moreover have "P (Suc i) \<noteq> P 0" using inj_onD [OF inj, of "Suc i" 0] that j by auto
      ultimately show ?thesis using Suc.prems(4) that by (simp add: swap_at_def)
    qed
    have "\<forall>i<Suc j. ?zs ! P (Suc i) = xs ! P i" using new old by (simp add: less_Suc_eq)
    moreover have "\<forall>p<length xs. p \<notin> P ` {..Suc j} \<longrightarrow> ?zs ! p = xs ! p"
    proof (intro allI impI)
      fix p
      assume p: "p < length xs" "p \<notin> P ` {..Suc j}"
      then have "p \<noteq> P (Suc j)" "p \<noteq> P 0" "p \<notin> P ` {..j}" by auto
      then show "?zs ! p = xs ! p" using p(1) Suc.prems(6) by (simp add: swap_at_def)
    qed
    ultimately show ?thesis
      unfolding run using Suc.IH [of "Suc j" ?zs] j Suc.prems(2,3) carried by simp
  qed
qed simp

text \<open>The positions of a cycle are those of one residue modulo the gcd.\<close>

lemma rotation_cycle:
  fixes a b i :: nat
  defines "g \<equiv> gcd a b" and "n \<equiv> a + b"
  assumes b: "0 < b" and i: "i < gcd a b"
  shows "inj_on (\<lambda>k. (a + i + k * b) mod (a + b)) {..<(a + b) div gcd a b}"
    and "(a + i + (a + b) div gcd a b * b) mod (a + b) = (a + i) mod (a + b)"
    and "(\<lambda>k. (a + i + k * b) mod (a + b)) ` {..<(a + b) div gcd a b} = {q. q < a + b \<and> q mod gcd a b = i}"
proof -
  have g: "0 < g" "g dvd a" "g dvd b" "g dvd n" using b by (simp_all add: g_def n_def)
  define L where "L = n div g"
  have n: "n = L * g" "0 < n" using g(4) b by (simp_all add: L_def n_def)
  have gn: "gcd n b = g" by (simp add: n_def g_def)
  have cop: "coprime L (b div g)"
    using div_gcd_coprime [of n b] b by (simp add: gn L_def)
  have bg: "b = b div g * g" using g(3) by simp
  have inj: "inj_on (\<lambda>k. (a + i + k * b) mod n) {..<L}"
  proof (rule linorder_inj_onI)
    fix k k' :: nat
    assume k: "k < k'" "k' \<in> {..<L}"
    show "(a + i + k * b) mod n \<noteq> (a + i + k' * b) mod n"
    proof
      assume "(a + i + k * b) mod n = (a + i + k' * b) mod n"
      then have "n dvd (a + i + k' * b) - (a + i + k * b)"
        using k(1) by (intro mod_eq_dvd_iff_nat [THEN iffD1]) auto
      then have "n dvd (k' - k) * b" by (simp add: diff_mult_distrib)
      then have "L * g dvd (k' - k) * (b div g) * g" using n(1) bg by (metis mult.assoc)
      then have "L dvd (k' - k) * (b div g)" using g(1) by simp
      then have "L dvd k' - k" using cop by (simp add: coprime_dvd_mult_left_iff)
      then show False using k by (auto dest: dvd_imp_le)
    qed
  qed auto
  have "L * b = n * (b div g)" using bg n(1) by (metis mult.assoc mult.commute)
  then have closed: "(a + i + L * b) mod n = (a + i) mod n" by simp
  have res: "(\<lambda>k. (a + i + k * b) mod n) ` {..<L} = {q. q < n \<and> q mod g = i}"
  proof (rule card_subset_eq)
    show "(\<lambda>k. (a + i + k * b) mod n) ` {..<L} \<subseteq> {q. q < n \<and> q mod g = i}"
    proof
      fix q
      assume "q \<in> (\<lambda>k. (a + i + k * b) mod n) ` {..<L}"
      then obtain k where q: "q = (a + i + k * b) mod n" by blast
      have "q mod g = (a + i + k * b) mod g" unfolding q using g(4) by (simp add: mod_mod_cancel)
      also have "\<dots> = i mod g"
      proof -
        obtain a' b' where "a = g * a'" "b = g * b'" using g(2,3) by (elim dvdE)
        then have "a + i + k * b = i + g * (a' + k * b')" by (simp add: algebra_simps)
        then show ?thesis by (simp only: mod_mult_self2)
      qed
      finally show "q \<in> {q. q < n \<and> q mod g = i}" using i n(2) q by (simp add: g_def)
    qed
    have "{q. q < n \<and> q mod g = i} = (\<lambda>k. i + k * g) ` {..<L}"
    proof (intro set_eqI iffI)
      fix q
      assume q: "q \<in> {q. q < n \<and> q mod g = i}"
      then have "q = i + q div g * g" by (metis (mono_tags) mem_Collect_eq mod_mult_div_eq mult.commute add.commute)
      moreover have "q div g < L" using q g(1) n(1) by (simp add: less_mult_imp_div_less)
      ultimately show "q \<in> (\<lambda>k. i + k * g) ` {..<L}" by blast
    next
      fix q
      assume "q \<in> (\<lambda>k. i + k * g) ` {..<L}"
      then obtain k where k: "q = i + k * g" "k < L" by blast
      have "q < Suc k * g" using k(1) i by (simp add: g_def)
      also have "\<dots> \<le> L * g" using k(2) by (intro mult_le_mono1) simp
      finally show "q \<in> {q. q < n \<and> q mod g = i}" using k(1) i n(1) by (simp add: g_def)
    qed
    then have "card {q. q < n \<and> q mod g = i} = L"
      using g(1) by (simp add: card_image inj_on_def)
    then show "card ((\<lambda>k. (a + i + k * b) mod n) ` {..<L}) = card {q. q < n \<and> q mod g = i}"
      by (simp add: card_image [OF inj])
  qed simp
  show "inj_on (\<lambda>k. (a + i + k * b) mod (a + b)) {..<(a + b) div gcd a b}"
    "(a + i + (a + b) div gcd a b * b) mod (a + b) = (a + i) mod (a + b)"
    "(\<lambda>k. (a + i + k * b) mod (a + b)) ` {..<(a + b) div gcd a b} = {q. q < a + b \<and> q mod gcd a b = i}"
    using inj closed res by (simp_all add: L_def n_def g_def)
qed

text \<open>
  After the cycles of the first residues, the elements at these residues are at their place:
  position q of the block holds what was b positions before it.
\<close>

lemma permute_cycles:
  fixes a b s :: nat
  assumes b: "0 < b" and len: "s + (a + b) \<le> length xs" and "i \<le> gcd a b"
  shows "let ys = fold (\<lambda>i. permute_cycle (s + a) a b (s + a + i) ((a + b) div gcd a b) (s + a + i)) [0..<i] xs in
    (\<forall>q<a + b. q mod gcd a b < i \<longrightarrow> ys ! (s + (q + b) mod (a + b)) = xs ! (s + q)) \<and>
    (\<forall>p<length xs. (\<forall>q<a + b. q mod gcd a b < i \<longrightarrow> p \<noteq> s + q) \<longrightarrow> ys ! p = xs ! p)"
  using assms(3)
proof (induction i)
  case 0
  then show ?case by simp
next
  case (Suc i)
  let ?n = "a + b" and ?g = "gcd a b"
  let ?f = "\<lambda>i. permute_cycle (s + a) a b (s + a + i) (?n div ?g) (s + a + i)"
  define ys where "ys = fold ?f [0..<i] xs"
  have i: "i < ?g" using Suc.prems by simp
  have ih: "\<And>q. q < ?n \<Longrightarrow> q mod ?g < i \<Longrightarrow> ys ! (s + (q + b) mod ?n) = xs ! (s + q)"
    "\<And>p. p < length xs \<Longrightarrow> \<forall>q<?n. q mod ?g < i \<longrightarrow> p \<noteq> s + q \<Longrightarrow> ys ! p = xs ! p"
    using Suc.IH Suc.prems by (simp_all add: ys_def Let_def)
  have lys: "length ys = length xs"
  proof -
    have "length (fold ?f is xs) = length xs" for "is" by (induction "is" arbitrary: xs) simp_all
    then show ?thesis by (simp add: ys_def)
  qed
  define r where "r k = (a + i + k * b) mod ?n" for k
  define P where "P k = s + r k" for k
  let ?L = "?n div ?g"
  have n: "0 < ?n" using b by simp
  have ai: "a + i < ?n"
  proof -
    have "?g \<le> b" using b by (intro dvd_imp_le) simp_all
    then show ?thesis using i by simp
  qed
  have P0: "P 0 = s + a + i" using ai by (simp add: P_def r_def)
  note cyc = rotation_cycle [OF b i, folded r_def]
  have L: "0 < ?L" using b by (simp add: div_greater_zero_iff dvd_imp_le)
  have succ: "r (Suc k) = (r k + b) mod ?n" for k
    unfolding r_def mod_add_left_eq by (simp add: add.assoc add.commute add.left_commute)
  have rn: "r k < ?n" for k using n by (simp add: r_def)
  have step: "(if P k \<ge> s + a then P k - a else P k + b) = P (Suc k)" for k
  proof -
    have "(r k + b) mod ?n = (if r k \<ge> a then r k - a else r k + b)"
      using rn [of k] by (auto simp: mod_if)
    then show ?thesis by (simp add: P_def succ)
  qed
  have run: "(\<forall>k<?L. ?f i ys ! P (Suc k) = ys ! P k) \<and>
      (\<forall>p<length ys. p \<notin> P ` {..<?L} \<longrightarrow> ?f i ys ! p = ys ! p)"
    unfolding P0 [symmetric]
  proof (rule permute_cycle_run)
    show "inj_on P {..<?L}" using cyc(1) by (auto simp: P_def inj_on_def)
    show "P ?L = P 0" using cyc(2) by (simp add: P_def r_def)
    show "P k < length ys" for k using rn [of k] len lys by (simp add: P_def)
  qed (use step L in auto)
  have img: "p \<in> P ` {..<?L} \<longleftrightarrow> (\<exists>q<?n. q mod ?g = i \<and> p = s + q)" for p
  proof -
    have "P ` {..<?L} = (+) s ` (r ` {..<?L})" by (simp add: P_def image_image)
    then show ?thesis unfolding cyc(3) by auto
  qed
  have new: "?f i ys ! (s + (q + b) mod ?n) = xs ! (s + q)" if q: "q < ?n" "q mod ?g = i" for q
  proof -
    obtain k where k: "k < ?L" "q = r k" using cyc(3) q by blast
    have "?f i ys ! P (Suc k) = ys ! P k" using run k(1) by blast
    also have "ys ! P k = xs ! P k"
      using ih(2) [of "P k"] rn [of k] len q k(2) by (auto simp: P_def)
    finally show ?thesis by (simp add: P_def succ k(2))
  qed
  have gn: "?g dvd ?n" by simp
  have old: "?f i ys ! (s + (q + b) mod ?n) = xs ! (s + q)" if q: "q < ?n" "q mod ?g < i" for q
  proof -
    have "(q + b) mod ?n mod ?g = q mod ?g" using gn by (simp add: mod_mod_cancel) (metis gcd_dvd2 mod_add_right_eq dvd_imp_mod_0 add_0_right)
    then have "s + (q + b) mod ?n \<notin> P ` {..<?L}" unfolding img using q(2) by auto
    moreover have "s + (q + b) mod ?n < length ys" using mod_less_divisor [OF n, of "q + b"] len lys by linarith
    ultimately show ?thesis using run ih(1) [OF q] by simp
  qed
  have "?f i ys ! p = xs ! p"
    if "p < length xs" "\<forall>q<?n. q mod ?g < Suc i \<longrightarrow> p \<noteq> s + q" for p
  proof -
    have "p \<notin> P ` {..<?L}" unfolding img using that(2) by auto
    then show ?thesis using run ih(2) [of p] that lys by simp
  qed
  moreover have "fold ?f [0..<Suc i] xs = ?f i ys" by (simp add: ys_def)
  ultimately show ?case using new old by (simp add: Let_def less_Suc_eq)
qed

lemma gcd_pos_right: "0 < b \<Longrightarrow> 0 < gcd a (b :: nat)"
  by simp

lemma permute_args_blocks:
  assumes "s \<le> e" and "e < m" and "m \<le> length xs"
  shows "permute_args s e m xs = take s xs @ drop e (take m xs) @ drop s (take e xs) @ drop m xs"
proof -
  define a b where "a = e - s" and "b = m - e"
  have e: "e = s + a" "m = s + (a + b)" and b: "0 < b" using assms by (simp_all add: a_def b_def)
  have len: "s + (a + b) \<le> length xs" using assms(3) e(2) by simp
  define ys where "ys = permute_args s e m xs"
  have ys: "ys = fold (\<lambda>i. permute_cycle (s + a) a b (s + a + i) ((a + b) div gcd a b) (s + a + i)) [0..<gcd a b] xs"
    by (simp add: ys_def permute_args_def Let_def getopt_gcd_gcd e)
  have g: "q mod gcd a b < gcd a b" for q using b by simp
  have in_block: "\<And>q. q < a + b \<Longrightarrow> ys ! (s + (q + b) mod (a + b)) = xs ! (s + q)"
    and outside: "\<And>p. p < length xs \<Longrightarrow> \<forall>q<a + b. p \<noteq> s + q \<Longrightarrow> ys ! p = xs ! p"
    using permute_cycles [OF b len order_refl, folded ys] g by (simp_all add: Let_def)
  have lys: "length ys = length xs" by (simp add: ys_def)
  show ?thesis unfolding ys_def [symmetric]
  proof (rule nth_equalityI)
    show "length ys = length (take s xs @ drop e (take m xs) @ drop s (take e xs) @ drop m xs)"
      using len by (simp add: lys e)
  next
    fix p
    assume p: "p < length ys"
    let ?zs = "take s xs @ drop e (take m xs) @ drop s (take e xs) @ drop m xs"
    consider "p < s" | "s + (a + b) \<le> p" | (opt) "s \<le> p" "p < s + b" | (arg) "s + b \<le> p" "p < s + (a + b)"
      by linarith
    then show "ys ! p = ?zs ! p"
    proof cases
      case 1
      then show ?thesis using outside [of p] p lys len by (simp add: nth_append)
    next
      case 2
      then have "ys ! p = xs ! p" using outside [of p] p lys by simp
      moreover have "\<not> p < s" "\<not> p - s < b" "\<not> p - s - b < a" "s + (a + b) + (p - s - b - a) = p"
        using 2 by linarith+
      then have "?zs ! p = xs ! p" using 2 len p lys by (simp add: nth_append e)
      ultimately show ?thesis by simp
    next
      case opt
      let ?q = "p - s + a"
      have "?q + b = (p - s) + (a + b)" by simp
      then have "(?q + b) mod (a + b) = p - s" using opt by (simp only: mod_add_self2) simp
      then have "?q < a + b" "s + (?q + b) mod (a + b) = p" using opt by linarith+
      then have "ys ! p = xs ! (s + ?q)" using in_block [of ?q] by (simp only:)
      moreover have "\<not> p < s" "p - s < b" using opt by linarith+
      then have "?zs ! p = xs ! (s + ?q)" using opt len by (simp add: nth_append e add.commute)
      ultimately show ?thesis by simp
    next
      case arg
      let ?q = "p - s - b"
      have "?q < a + b" "s + (?q + b) mod (a + b) = p" using arg by auto
      then have "ys ! p = xs ! (s + ?q)" using in_block [of ?q] by simp
      moreover have "\<not> p < s" "\<not> p - s < b" "p - s - b < a" using arg by linarith+
      then have "?zs ! p = xs ! (s + ?q)" using arg len by (simp add: nth_append e)
      ultimately show ?thesis by simp
    qed
  qed
qed

text \<open>C18. The exchange of the options found with the operands skipped before them, done in
  place by cycles whose number is a greatest common divisor, moves the block of operands
  behind the block of options, keeps the order in both and touches nothing else.\<close>

theorem permute_args_exchanges:
  assumes "s \<le> e" and "e < m" and "m \<le> length xs"
  shows "permute_args s e m xs = take s xs @ drop e (take m xs) @ drop s (take e xs) @ drop m xs"
  using assms by (rule permute_args_blocks)

theorem permute_args_exchanges_witness:
  "permute_args 1 4 6 [''tool'', ''a'', ''b'', ''c'', ''-s'', ''100'', ''x''] =
     [''tool'', ''-s'', ''100'', ''a'', ''b'', ''c'', ''x'']"
  by (subst permute_args_exchanges) simp_all

section \<open>Every call makes progress\<close>

lemma drop_permute_args:
  "s \<le> e \<Longrightarrow> e < m \<Longrightarrow> m \<le> length xs \<Longrightarrow> drop m (permute_args s e m xs) = drop m xs"
  by (subst permute_args_blocks) auto

text \<open>
  The variables between two calls: the block of operands lies before the options, and while an
  argument is being scanned it is the one at optind.
\<close>

definition getopt_wf :: "getopt_state \<Rightarrow> bool" where
  "getopt_wf s \<longleftrightarrow> optind s \<le> length (argv s) \<and> (place s \<noteq> [] \<longrightarrow> optind s < length (argv s)) \<and>
     (\<forall>a. nonopt_start s = Some a \<longrightarrow> a < optind s) \<and>
     (\<forall>e. nonopt_end s = Some e \<longrightarrow> (\<exists>a. nonopt_start s = Some a \<and> a \<le> e) \<and>
        (if place s = [] then e < optind s else e \<le> optind s))"

text \<open>What is left to scan.\<close>

definition chars :: "string list \<Rightarrow> nat" where
  "chars args = sum_list (map (\<lambda>a. Suc (length a)) args)"

definition weight :: "getopt_state \<Rightarrow> nat" where
  "weight s = (if place s = [] then chars (drop (optind s) (argv s))
     else length (place s) + chars (drop (Suc (optind s)) (argv s)))"

lemma chars_drop: "i < length xs \<Longrightarrow> chars (drop i xs) = Suc (length (xs ! i)) + chars (drop (Suc i) xs)"
  by (simp add: chars_def Cons_nth_drop_Suc [symmetric])

lemma chars_drop_le: "i \<le> j \<Longrightarrow> chars (drop j xs) \<le> chars (drop i xs)"
proof (induction "j - i" arbitrary: i)
  case (Suc k)
  then have "chars (drop j xs) \<le> chars (drop (Suc i) xs)" by (intro Suc.hyps(1)) simp_all
  also have "\<dots> \<le> chars (drop i xs)"
    by (cases "i < length xs") (simp_all add: chars_drop)
  finally show ?case .
qed simp

lemma skip_operand_wf:
  "getopt_wf s \<Longrightarrow> place s = [] \<Longrightarrow> optind s < length (argv s) \<Longrightarrow>
     getopt_wf (skip_operand s) \<and> place (skip_operand s) = [] \<and>
     drop (optind s) (argv (skip_operand s)) = drop (optind s) (argv s) \<and>
     optind (skip_operand s) = Suc (optind s) \<and> length (argv (skip_operand s)) = length (argv s)"
  by (auto simp: skip_operand_def getopt_wf_def Let_def drop_permute_args split: option.splits)

text \<open>The scan ends at an argument with an option, or with -1.\<close>

lemma scan_start_result:
  "scan_start permute False options s = (r, s') \<Longrightarrow> getopt_wf s \<Longrightarrow> place s = [] \<Longrightarrow>
     r = Return (-1) \<or>
     r = Scan \<and> getopt_wf s' \<and> place s' \<noteq> [] \<and> optind s' < length (argv s') \<and> weight s' < weight s"
proof (induction permute "False" options s rule: scan_start.induct)
  case (1 permute options s)
  show ?case
  proof (cases "length (argv s) \<le> optind s")
    case True
    then show ?thesis using 1(2) by (simp add: scan_start.simps [of permute False options s])
  next
    case False
    let ?arg = "argv s ! optind s"
    show ?thesis
    proof (cases "take 1 ?arg \<noteq> ''-'' \<or> length ?arg = 1 \<and> CHR ''-'' \<notin> set options")
      case operand: True
      show ?thesis
      proof (cases permute)
        case True
        let ?s = "skip_operand (s\<lparr>place := []\<rparr>)"
        have wf: "getopt_wf (s\<lparr>place := []\<rparr>)" using 1(3,4) by (simp add: getopt_wf_def)
        note sk = skip_operand_wf [OF wf] False
        have run: "scan_start permute False options ?s = (r, s')"
          using 1(2) False operand True by (simp add: scan_start.simps [of True False options s] Let_def)
        have "weight ?s < weight s"
        proof -
          have "chars (drop (Suc (optind s)) (argv ?s)) = chars (drop (Suc (optind s)) (argv s))"
            using sk by (simp flip: drop_drop [of 1] add: drop_Suc [symmetric]) (metis drop_drop plus_1_eq_Suc)
          then show ?thesis using sk 1(4) by (simp add: weight_def chars_drop)
        qed
        then show ?thesis
          using 1(1) [OF False refl operand _ _ run] True sk by auto
      next
        case False2: False
        then show ?thesis using 1(2) False operand by (simp add: scan_start.simps [of False False options s] Let_def)
      qed
    next
      case option: False
      let ?s1 = "if nonopt_start s \<noteq> None \<and> nonopt_end s = None then s\<lparr>nonopt_end := Some (optind s)\<rparr> else s"
      have arg: "?arg \<noteq> []" using option by auto
      have res: "(r, s') = (if ?arg = ''--'' then (Return (-1), (exchange (?s1\<lparr>optind := optind ?s1 + 1, place := []\<rparr>))
                    \<lparr>nonopt_start := None, nonopt_end := None\<rparr>)
            else if length ?arg = 1 then (Scan, ?s1\<lparr>place := ?arg, at_start := True\<rparr>)
            else (Scan, ?s1\<lparr>place := tl ?arg, at_start := False\<rparr>))"
        using 1(2) False option by (simp only: scan_start.simps [of permute False options s] if_False Let_def)
      show ?thesis
      proof (cases "?arg = ''--''")
        case True
        then show ?thesis using res by simp
      next
        case dashes: False
        let ?p = "if length ?arg = 1 then ?arg else tl ?arg"
        have s': "r = Scan" "argv s' = argv s" "optind s' = optind s" "place s' = ?p"
          "nonopt_start s' = nonopt_start s"
          "nonopt_end s' = (if nonopt_start s \<noteq> None \<and> nonopt_end s = None then Some (optind s) else nonopt_end s)"
          using res dashes by (auto split: if_splits)
        have p: "?p \<noteq> []" "length ?p \<le> length ?arg" using arg by (cases "?arg"; simp)+
        have "getopt_wf s'"
          using 1(3,4) False s' p(1) by (auto simp: getopt_wf_def less_imp_le split: if_splits)
        moreover have "weight s' < weight s"
          using s' p False 1(4) by (simp add: weight_def chars_drop)
        ultimately show ?thesis using s' p False by simp
      qed
    qed
  qed
qed

lemma parse_long_options_result:
  "parse_long_options options table False s = (r, s') \<Longrightarrow> \<forall>o'\<in>set table. lo_val o' \<noteq> -1 \<Longrightarrow>
   optind s < length (argv s) \<Longrightarrow>
     r \<noteq> -1 \<and> argv s' = argv s \<and> nonopt_start s' = nonopt_start s \<and> nonopt_end s' = nonopt_end s \<and>
     optind s < optind s' \<and> optind s' \<le> length (argv s)"
proof -
  have members: "fst (match_long cur False opts m amb) = Some (i, opt) \<Longrightarrow>
      opt \<in> snd ` set opts \<or> m = Some (i, opt)" for cur opts m amb i opt
    by (induction cur False opts m amb rule: match_long.induct)
       (auto split: if_splits option.splits)
  assume run: "parse_long_options options table False s = (r, s')" and vals: "\<forall>o'\<in>set table. lo_val o' \<noteq> -1"
    and lt: "optind s < length (argv s)"
  let ?cur = "takeWhile (\<lambda>c. c \<noteq> CHR ''='') (place s)"
  obtain m amb where match: "match_long ?cur False (enumerate 0 table) None False = (m, amb)"
    by (cases "match_long ?cur False (enumerate 0 table) None False")
  have val: "lo_val opt \<noteq> -1" if "m = Some (i, opt)" for i opt
  proof -
    have "opt \<in> snd ` set (enumerate 0 table)" using members [of ?cur "enumerate 0 table" None False i opt] match that by simp
    then have "opt \<in> set table" by (auto simp: in_set_enumerate_eq)
    then show ?thesis using vals by blast
  qed
  show ?thesis
    using run lt val unfolding parse_long_options_def Let_def match
    by (cases m; cases amb) (auto simp: BADARG_def arg_at_def split: if_splits option.splits)
qed

lemma short_option_result:
  "short_option options (Some table) s = (r, s') \<Longrightarrow> \<forall>o'\<in>set table. lo_val o' \<noteq> -1 \<Longrightarrow>
   optind s < length (argv s) \<Longrightarrow> place s \<noteq> [] \<Longrightarrow> CHR ''W'' \<notin> set options \<Longrightarrow> r \<noteq> -1 \<Longrightarrow>
     argv s' = argv s \<and> nonopt_start s' = nonopt_start s \<and> nonopt_end s' = nonopt_end s \<and>
     (optind s' = optind s \<and> place s' = tl (place s) \<and> place s' \<noteq> [] \<or>
      optind s < optind s' \<and> optind s' \<le> length (argv s) \<and> place s' = [])"
  by (auto simp: short_option_def Let_def split: if_splits)

text \<open>One call for letters without a prefix.\<close>

lemma getopt_long_call:
  assumes opts: "take 1 options \<noteq> ''+''" "take 1 options \<noteq> ''-''"
  shows "getopt_long posixly options table s =
    (case (if place s = [] then scan_start (\<not> posixly) False options (s\<lparr>optarg := None\<rparr>)
           else (Scan, s\<lparr>optarg := None\<rparr>)) of
       (Return r, s2) \<Rightarrow> (r, s2)
     | (Scan, s2) \<Rightarrow>
         if \<not> at_start s2 \<and> take 1 (place s2) = ''-'' then
           (case parse_long_options options table False (s2\<lparr>place := tl (place s2)\<rparr>) of
              (r, s3) \<Rightarrow> if r \<noteq> -1 then (r, s3\<lparr>place := []\<rparr>) else short_option options (Some table) s3)
         else short_option options (Some table) s2)"
proof -
  have prefix: "(take 1 options = ''-'') = False" "(take 1 options = ''+'') = False" using opts by simp_all
  obtain sc s2 where e: "(if place s = [] then scan_start (\<not> posixly) False options (s\<lparr>optarg := None\<rparr>)
      else (Scan, s\<lparr>optarg := None\<rparr>)) = (sc, s2)"
    by (cases "if place s = [] then scan_start (\<not> posixly) False options (s\<lparr>optarg := None\<rparr>)
      else (Scan, s\<lparr>optarg := None\<rparr>)")
  have "place (s\<lparr>optarg := None\<rparr>) = place s" by simp
  then show ?thesis
    unfolding getopt_long_def getopt_internal_def Let_def
    by (simp only: prefix simp_thms if_False e) (cases sc; simp cong: if_cong)
qed

lemma getopt_long_progress:
  assumes "getopt_wf s" and run: "getopt_long posixly options table s = (r, s')" and "r \<noteq> -1"
    and vals: "\<forall>o'\<in>set table. lo_val o' \<noteq> -1" and "CHR ''W'' \<notin> set options"
    and opts: "take 1 options \<noteq> ''+''" "take 1 options \<noteq> ''-''"
  shows "getopt_wf s' \<and> weight s' < weight s"
proof -
  let ?s1 = "s\<lparr>optarg := None\<rparr>"
  have wf1: "getopt_wf ?s1" and w1: "weight ?s1 = weight s"
    using assms(1) by (simp_all add: getopt_wf_def weight_def)
  obtain sc s2 where sc: "(if place ?s1 = [] then scan_start (\<not> posixly) False options ?s1 else (Scan, ?s1)) = (sc, s2)"
    by (cases "if place ?s1 = [] then scan_start (\<not> posixly) False options ?s1 else (Scan, ?s1)")
  have res: "(r, s') = (case sc of
        Return r \<Rightarrow> (r, s2)
      | Scan \<Rightarrow>
          if \<not> at_start s2 \<and> take 1 (place s2) = ''-'' then
            (case parse_long_options options table False (s2\<lparr>place := tl (place s2)\<rparr>) of
               (r, s3) \<Rightarrow> if r \<noteq> -1 then (r, s3\<lparr>place := []\<rparr>) else short_option options (Some table) s3)
          else short_option options (Some table) s2)"
    using run unfolding getopt_long_call [OF opts] using sc by simp
  have scan: "sc = Scan \<and> getopt_wf s2 \<and> place s2 \<noteq> [] \<and> optind s2 < length (argv s2) \<and> weight s2 \<le> weight s"
  proof (cases "place s = []")
    case True
    then have "scan_start (\<not> posixly) False options ?s1 = (sc, s2)" using sc by simp
    from scan_start_result [OF this wf1] True show ?thesis
      using res assms(3) w1 by (auto split: scan.splits)
  next
    case False
    then have "sc = Scan" "s2 = ?s1" using sc by simp_all
    then show ?thesis using wf1 w1 False by (simp add: getopt_wf_def)
  qed
  let ?n = "optind s2"
  have w2: "weight s2 = length (place s2) + chars (drop (Suc ?n) (argv s2))"
    using scan by (simp add: weight_def)
  have finished: "getopt_wf t \<and> weight t < weight s"
    if "argv t = argv s2" "nonopt_start t = nonopt_start s2" "nonopt_end t = nonopt_end s2"
      "?n < optind t" "optind t \<le> length (argv s2)" "place t = []" for t
  proof -
    have "weight t \<le> chars (drop (Suc ?n) (argv s2))"
      using that chars_drop_le [of "Suc ?n" "optind t" "argv s2"] by (simp add: weight_def)
    moreover have "0 < length (place s2)" using scan by simp
    ultimately have "weight t < weight s" using scan w2 by linarith
    moreover have "getopt_wf t"
      using scan that by (auto simp: getopt_wf_def dest: less_trans split: if_splits)
    ultimately show ?thesis by blast
  qed
  show ?thesis
  proof (cases "\<not> at_start s2 \<and> take 1 (place s2) = ''-''")
    case True
    obtain r3 s3 where p: "parse_long_options options table False (s2\<lparr>place := tl (place s2)\<rparr>) = (r3, s3)"
      by (cases "parse_long_options options table False (s2\<lparr>place := tl (place s2)\<rparr>)")
    note q = parse_long_options_result [OF p vals]
    have "s' = s3\<lparr>place := []\<rparr>" using res True p q scan by simp
    then show ?thesis using q scan by (intro finished) simp_all
  next
    case False
    then have "short_option options (Some table) s2 = (r, s')" using res scan by (simp only: scan.case if_False)
    from short_option_result [OF this vals _ _ assms(5,3)] scan
    have q: "argv s' = argv s2" "nonopt_start s' = nonopt_start s2" "nonopt_end s' = nonopt_end s2"
      "optind s' = ?n \<and> place s' = tl (place s2) \<and> place s' \<noteq> [] \<or>
       ?n < optind s' \<and> optind s' \<le> length (argv s2) \<and> place s' = []" by blast+
    from q(4) show ?thesis
    proof (elim disjE conjE)
      assume same: "optind s' = ?n" "place s' = tl (place s2)" "place s' \<noteq> []"
      have "weight s' < weight s2" using same q(1) scan w2 by (simp add: weight_def)
      moreover have "getopt_wf s'" using scan same q by (simp add: getopt_wf_def)
      ultimately show ?thesis using scan by simp
    next
      assume "?n < optind s'" "optind s' \<le> length (argv s2)" "place s' = []"
      then show ?thesis using q by (intro finished) simp_all
    qed
  qed
qed

section \<open>Rendered options\<close>

text \<open>The table is searched to the first entry with the name.\<close>

lemma match_long_exact:
  "List.find (\<lambda>(i, x). lo_name x = name) opts = Some (i, opt) \<Longrightarrow>
     match_long name False opts m amb = (Some (i, opt), False)"
proof (induction opts arbitrary: m amb)
  case (Cons x xs)
  obtain j p where x: "x = (j, p)" by (cases x)
  show ?case
  proof (cases "lo_name p = name")
    case True
    then show ?thesis using Cons.prems x by simp
  next
    case False
    then have "List.find (\<lambda>(i, x). lo_name x = name) xs = Some (i, opt)" using Cons.prems x by simp
    note ih = Cons.IH [OF this]
    have ne: "take (length name) (lo_name p) = name \<Longrightarrow> length (lo_name p) \<noteq> length name"
      using False by auto
    show ?thesis unfolding x using ne by (cases m) (auto simp: ih)
  qed
qed simp

definition find_option :: "long_option list \<Rightarrow> string \<Rightarrow> (nat \<times> long_option) option" where
  "find_option table name = List.find (\<lambda>(i, x). lo_name x = name) (enumerate 0 table)"

text \<open>The state after an argument that starts at optind with no operands before it.\<close>

abbreviation at_argument :: "getopt_state \<Rightarrow> bool" where
  "at_argument s \<equiv> place s = [] \<and> nonopt_start s = None \<and> nonopt_end s = None"

lemma scan_start_option:
  "at_argument s \<Longrightarrow> optind s < length (argv s) \<Longrightarrow> argv s ! optind s = CHR ''-'' # p \<Longrightarrow>
   p \<noteq> [] \<Longrightarrow> p \<noteq> ''-'' \<Longrightarrow>
     scan_start permute False options s = (Scan, s\<lparr>place := p, at_start := False\<rparr>)"
  by (subst scan_start.simps) (simp add: Let_def)

text \<open>A name without the separator of arguments, and its entry.\<close>

lemma parse_long_exact:
  assumes "CHR ''='' \<notin> set name" and "find_option table name = Some (i, opt)" and "place s = name"
    and "lo_flag opt = None"
  shows "parse_long_options options table False s =
    (if lo_arg opt = required_argument
     then (if optind s + 1 < length (argv s)
           then (lo_val opt, s\<lparr>optarg := Some (argv s ! (optind s + 1)), optind := optind s + 2, option_index := i\<rparr>)
           else (BADARG options, s\<lparr>optarg := None, optopt := lo_val opt, optind := optind s + 1\<rparr>))
     else (lo_val opt, s\<lparr>optind := optind s + 1, option_index := i\<rparr>))"
proof -
  have cur: "takeWhile (\<lambda>c. c \<noteq> CHR ''='') name = name"
    using assms(1) by (induction name) auto
  note m = match_long_exact [OF assms(2) [unfolded find_option_def], of None False]
  show ?thesis
    unfolding parse_long_options_def Let_def assms(3) cur m
    using assms(1,4) by (cases "lo_arg opt") (simp_all add: arg_at_def)
qed

text \<open>A long option without argument, with a flag variable or a value.\<close>

lemma getopt_long_flag:
  assumes "take 1 options \<noteq> ''+''" "take 1 options \<noteq> ''-''" and "at_argument s"
    and "optind s < length (argv s)" and "argv s ! optind s = ''--'' @ name" and "name \<noteq> []"
    and "CHR ''='' \<notin> set name" and "find_option table name = Some (i, opt)"
    and "lo_arg opt = no_argument" and "lo_flag opt = None" and "lo_val opt \<noteq> -1"
  shows "getopt_long posixly options table s = (lo_val opt,
    s\<lparr>optarg := None, place := [], at_start := False, optind := optind s + 1, option_index := i\<rparr>)"
proof -
  have scan: "scan_start (\<not> posixly) False options (s\<lparr>optarg := None\<rparr>) =
      (Scan, s\<lparr>optarg := None, place := CHR ''-'' # name, at_start := False\<rparr>)"
    using assms(3-6) by (subst scan_start_option [of _ "CHR ''-'' # name"]) simp_all
  show ?thesis
    unfolding getopt_long_call [OF assms(1,2)] using assms(3,4,9,11)
    by (simp add: scan parse_long_exact [OF assms(7,8) _ assms(10)])
qed

text \<open>A long option with the next argument.\<close>

lemma getopt_long_argument:
  assumes "take 1 options \<noteq> ''+''" "take 1 options \<noteq> ''-''" and "at_argument s"
    and "optind s + 1 < length (argv s)" and "argv s ! optind s = ''--'' @ name" and "name \<noteq> []"
    and "CHR ''='' \<notin> set name" and "find_option table name = Some (i, opt)"
    and "lo_arg opt = required_argument" and "lo_flag opt = None" and "lo_val opt \<noteq> -1"
  shows "getopt_long posixly options table s = (lo_val opt,
    s\<lparr>optarg := Some (argv s ! (optind s + 1)), place := [], at_start := False,
      optind := optind s + 2, option_index := i\<rparr>)"
proof -
  have scan: "scan_start (\<not> posixly) False options (s\<lparr>optarg := None\<rparr>) =
      (Scan, s\<lparr>optarg := None, place := CHR ''-'' # name, at_start := False\<rparr>)"
    using assms(3-6) by (subst scan_start_option [of _ "CHR ''-'' # name"]) simp_all
  let ?t = "s\<lparr>optarg := None, at_start := False, place := name\<rparr>"
  have parse: "parse_long_options options table False ?t = (lo_val opt,
      ?t\<lparr>optarg := Some (argv s ! (optind s + 1)), optind := optind s + 2, option_index := i\<rparr>)"
    using assms(4,9) by (subst parse_long_exact [OF assms(7,8) _ assms(10)]) simp_all
  have place: "place s = []" using assms(3) by blast
  show ?thesis
    unfolding getopt_long_call [OF assms(1,2)] by (simp add: scan parse place assms(11))
qed

text \<open>A short option with the next argument.\<close>

lemma getopt_short_argument:
  assumes "take 1 options \<noteq> ''+''" "take 1 options \<noteq> ''-''" and "at_argument s"
    and "optind s + 1 < length (argv s)" and "argv s ! optind s = [CHR ''-'', c]"
    and "c \<noteq> CHR ''-''" "c \<noteq> CHR '':''" "c \<noteq> CHR ''W''"
    and "take 2 (dropWhile (\<lambda>x. x \<noteq> c) options) = [c, CHR '':'']"
    and "take 1 (drop 2 (dropWhile (\<lambda>x. x \<noteq> c) options)) \<noteq> '':''"
  shows "getopt_long posixly options table s = (char_code c,
    s\<lparr>optarg := Some (argv s ! (optind s + 1)), place := [], at_start := False, optind := optind s + 2\<rparr>)"
proof -
  have scan: "scan_start (\<not> posixly) False options (s\<lparr>optarg := None\<rparr>) =
      (Scan, s\<lparr>optarg := None, place := [c], at_start := False\<rparr>)"
    using assms(3-6) by (subst scan_start_option [of _ "[c]"]) simp_all
  obtain rest where oli: "dropWhile (\<lambda>x. x \<noteq> c) options = c # CHR '':'' # rest"
    using assms(9) by (cases "dropWhile (\<lambda>x. x \<noteq> c) options"; cases "tl (dropWhile (\<lambda>x. x \<noteq> c) options)") auto
  show ?thesis
    unfolding getopt_long_call [OF assms(1,2)]
    using assms(3-8,10) by (simp add: scan short_option_def Let_def oli del: dropWhile_eq_Nil_conv)
qed

lemma getopt_long_end:
  assumes "take 1 options \<noteq> ''+''" "take 1 options \<noteq> ''-''" and "at_argument s"
    and "length (argv s) \<le> optind s"
  shows "fst (getopt_long posixly options table s) = -1"
  unfolding getopt_long_call [OF assms(1,2)]
  using assms(3,4) by (simp add: scan_start.simps)

end
