(* ===== verification/CommandOptions.thy ===== *)
theory CommandOptions
  imports DeviceSelection GetOptSpec
begin

text \<open>
  The options of the command line tool (cmd.c, usbpcapcmd_main): the table of the long
  options, the configuration they set and the loop over the options, which calls the option
  parser until it reports the end.
\<close>

section \<open>The table\<close>

abbreviation (input) ARG_DEVICES :: int where "ARG_DEVICES \<equiv> 900"
abbreviation (input) ARG_CAPTURE_FROM_NEW_DEVICES :: int where "ARG_CAPTURE_FROM_NEW_DEVICES \<equiv> 901"
abbreviation (input) ARG_INJECT_DESCRIPTORS :: int where "ARG_INJECT_DESCRIPTORS \<equiv> 902"
abbreviation (input) ARG_JSON :: int where "ARG_JSON \<equiv> 903"
abbreviation (input) ARG_LIST_INTERFACES :: int where "ARG_LIST_INTERFACES \<equiv> 904"
abbreviation (input) ARG_LIST_DEVICES :: int where "ARG_LIST_DEVICES \<equiv> 905"
abbreviation (input) ARG_VENDOR_ID :: int where "ARG_VENDOR_ID \<equiv> 906"
abbreviation (input) ARG_PRODUCT_ID :: int where "ARG_PRODUCT_ID \<equiv> 907"
abbreviation (input) ARG_AUTO_INTERFACE :: int where "ARG_AUTO_INTERFACE \<equiv> 908"
abbreviation (input) ARG_DURATION :: int where "ARG_DURATION \<equiv> 909"
abbreviation (input) ARG_NO_INTERACTIVE :: int where "ARG_NO_INTERACTIVE \<equiv> 910"
abbreviation (input) ARG_APP_FILTER :: int where "ARG_APP_FILTER \<equiv> 911"
abbreviation (input) ARG_ENDPOINT :: int where "ARG_ENDPOINT \<equiv> 912"
abbreviation (input) ARG_TRANSFER_TYPE :: int where "ARG_TRANSFER_TYPE \<equiv> 913"
abbreviation (input) ARG_STORE_MODE :: int where "ARG_STORE_MODE \<equiv> 914"
abbreviation (input) ARG_EXTCAP_VERSION :: int where "ARG_EXTCAP_VERSION \<equiv> 1000"
abbreviation (input) ARG_EXTCAP_INTERFACES :: int where "ARG_EXTCAP_INTERFACES \<equiv> 1001"
abbreviation (input) ARG_EXTCAP_INTERFACE :: int where "ARG_EXTCAP_INTERFACE \<equiv> 1002"
abbreviation (input) ARG_EXTCAP_DLTS :: int where "ARG_EXTCAP_DLTS \<equiv> 1003"
abbreviation (input) ARG_EXTCAP_CONFIG :: int where "ARG_EXTCAP_CONFIG \<equiv> 1004"
abbreviation (input) ARG_EXTCAP_CAPTURE :: int where "ARG_EXTCAP_CAPTURE \<equiv> 1005"
abbreviation (input) ARG_EXTCAP_FIFO :: int where "ARG_EXTCAP_FIFO \<equiv> 1006"

text \<open>The values of the short options are the codes of their letters.\<close>

abbreviation (input) opt :: "string \<Rightarrow> arg_kind \<Rightarrow> int \<Rightarrow> long_option" where
  "opt name kind val \<equiv> \<lparr>lo_name = name, lo_arg = kind, lo_flag = None, lo_val = val\<rparr>"

abbreviation (input) flag :: "string \<Rightarrow> string \<Rightarrow> int \<Rightarrow> long_option" where
  "flag name var val \<equiv> \<lparr>lo_name = name, lo_arg = no_argument, lo_flag = Some var, lo_val = val\<rparr>"

definition long_options :: "long_option list" where
  "long_options =
     [opt ''help'' no_argument 104,
      opt ''device'' required_argument 100,
      opt ''interface'' required_argument 100,
      opt ''output'' required_argument 111,
      opt ''snaplen'' required_argument 115,
      opt ''bufferlen'' required_argument 98,
      opt ''init-non-standard-hwids'' no_argument 73,
      opt ''json'' no_argument ARG_JSON,
      opt ''list-interfaces'' no_argument ARG_LIST_INTERFACES,
      opt ''list-devices'' no_argument ARG_LIST_DEVICES,
      opt ''devices'' required_argument ARG_DEVICES,
      opt ''vendor-id'' required_argument ARG_VENDOR_ID,
      opt ''vid'' required_argument ARG_VENDOR_ID,
      opt ''product-id'' required_argument ARG_PRODUCT_ID,
      opt ''pid'' required_argument ARG_PRODUCT_ID,
      opt ''auto-interface'' no_argument ARG_AUTO_INTERFACE,
      opt ''duration'' required_argument ARG_DURATION,
      opt ''no-interactive'' no_argument ARG_NO_INTERACTIVE,
      opt ''app-filter'' no_argument ARG_APP_FILTER,
      opt ''endpoint'' required_argument ARG_ENDPOINT,
      opt ''transfer-type'' required_argument ARG_TRANSFER_TYPE,
      opt ''store-mode'' required_argument ARG_STORE_MODE,
      opt ''capture-from-all-devices'' no_argument 65,
      opt ''capture-from-new-devices'' no_argument ARG_CAPTURE_FROM_NEW_DEVICES,
      opt ''inject-descriptors'' no_argument ARG_INJECT_DESCRIPTORS,
      opt ''extcap-version'' optional_argument ARG_EXTCAP_VERSION,
      flag ''extcap-interfaces'' ''do_extcap_interfaces'' ARG_EXTCAP_INTERFACES,
      opt ''extcap-interface'' required_argument ARG_EXTCAP_INTERFACE,
      flag ''extcap-dlts'' ''do_extcap_dlts'' ARG_EXTCAP_DLTS,
      flag ''extcap-config'' ''do_extcap_config'' ARG_EXTCAP_CONFIG,
      flag ''capture'' ''do_extcap_capture'' ARG_EXTCAP_CAPTURE,
      opt ''fifo'' required_argument ARG_EXTCAP_FIFO]"

abbreviation short_options :: string where "short_options \<equiv> ''hd:o:s:b:IA''"

section \<open>The configuration\<close>

text \<open>
  The variables of the main function. The thread data has the members that the capture thread
  uses; the pointers to device, file name and address list may be NULL.
\<close>

record config =
  cf_thread :: thread_data
  cf_device :: "string option"
  cf_filename :: "string option"
  cf_address_list :: "string option"
  cf_capture_all :: bool
  cf_inject :: bool
  cf_duration :: u32
  json_output :: bool
  list_interfaces_flag :: bool
  list_devices_flag :: bool
  no_interactive :: bool
  auto_interface :: bool
  has_vendor :: bool
  has_product :: bool
  cf_vendor :: u16
  cf_product :: u16
  run_as_extcap :: bool
  do_extcap_version :: bool
  extcap_interface :: "string option"
  extcap_fifo :: "string option"

abbreviation upd_thread :: "(thread_data \<Rightarrow> thread_data) \<Rightarrow> config \<Rightarrow> config" where
  "upd_thread f c \<equiv> c\<lparr>cf_thread := f (cf_thread c)\<rparr>"

abbreviation upd_filter :: "(app_capture_filter \<Rightarrow> app_capture_filter) \<Rightarrow> config \<Rightarrow> config" where
  "upd_filter f \<equiv> upd_thread (app_filter_update f)"

definition no_filter :: app_capture_filter where
  "no_filter = \<lparr>enabled = False, has_vendor_id = False, has_product_id = False,
     has_endpoint = False, has_transfer_type = False, flt_vendor_id = 0, flt_product_id = 0,
     flt_endpoint = 0, flt_transfer_type = 0\<rparr>"

text \<open>The initial values; the members not set keep what was in their memory.\<close>

definition initial_config :: "thread_data \<Rightarrow> config" where
  "initial_config junk =
     \<lparr>cf_thread = junk\<lparr>capture_new := False, td_snaplen := 65535, bufferlen := 1024 * 1024,
        write_handle := INVALID_HANDLE_VALUE, store_mode := USBPCAP_STORE_MODE_IMMEDIATE,
        triggered := False, output_created := False, dropped_packets := 0,
        app_filter := no_filter, metadata := replicate 128 no_metadata\<rparr>,
      cf_device = None, cf_filename = None, cf_address_list = None, cf_capture_all = False,
      cf_inject = False, cf_duration = 0, json_output = False, list_interfaces_flag = False,
      list_devices_flag = False, no_interactive = False, auto_interface = False,
      has_vendor = False, has_product = False, cf_vendor = 0, cf_product = 0,
      run_as_extcap = False, do_extcap_version = False, extcap_interface = None, extcap_fifo = None\<rparr>"

section \<open>One option\<close>

text \<open>atol: an int; assigned to a UINT32 it wraps.\<close>

abbreviation (input) atol32 :: "string option \<Rightarrow> u32" where
  "atol32 arg \<equiv> word_of_int (c_atoi (case arg of Some s \<Rightarrow> s | None \<Rightarrow> []))"

text \<open>
  The switch: Inl is a return of the main function with its code. The help text and the search
  for root hubs are printed or done before the return and left out. Options with a required
  argument have one.
\<close>

definition process_option :: "int \<Rightarrow> string option \<Rightarrow> config \<Rightarrow> int + config" where
  "process_option c arg cf =
     (if c = 0 then Inr cf
      else if c = 104 then Inl 0
      else if c = 100 then Inr (cf\<lparr>cf_device := arg\<rparr>)
      else if c = 111 then Inr (cf\<lparr>cf_filename := arg\<rparr>)
      else if c = 115 then
        (if atol32 arg = 0 then Inl (-1) else Inr (upd_thread (td_snaplen_update (\<lambda>_. atol32 arg)) cf))
      else if c = 98 then
        (if atol32 arg < 4096 \<or> atol32 arg > 134217728 then Inl (-1)
         else Inr (upd_thread (bufferlen_update (\<lambda>_. atol32 arg)) cf))
      else if c = 73 then Inl 0
      else if c = ARG_DEVICES then Inr (cf\<lparr>cf_address_list := arg\<rparr>)
      else if c = ARG_JSON then Inr (cf\<lparr>json_output := True\<rparr>)
      else if c = ARG_LIST_INTERFACES then Inr (cf\<lparr>list_interfaces_flag := True\<rparr>)
      else if c = ARG_LIST_DEVICES then Inr (cf\<lparr>list_devices_flag := True\<rparr>)
      else if c = ARG_VENDOR_ID then
        (case parse_u16_value arg of
           None \<Rightarrow> Inl (-1) | Some v \<Rightarrow> Inr (cf\<lparr>cf_vendor := v, has_vendor := True\<rparr>))
      else if c = ARG_PRODUCT_ID then
        (case parse_u16_value arg of
           None \<Rightarrow> Inl (-1) | Some v \<Rightarrow> Inr (cf\<lparr>cf_product := v, has_product := True\<rparr>))
      else if c = ARG_AUTO_INTERFACE then Inr (cf\<lparr>auto_interface := True\<rparr>)
      else if c = ARG_DURATION then
        (case parse_u32_value arg of None \<Rightarrow> Inl (-1) | Some v \<Rightarrow> Inr (cf\<lparr>cf_duration := v\<rparr>))
      else if c = ARG_NO_INTERACTIVE then Inr (cf\<lparr>no_interactive := True\<rparr>)
      else if c = ARG_APP_FILTER then Inr (upd_filter (enabled_update (\<lambda>_. True)) cf)
      else if c = ARG_ENDPOINT then
        (case parse_u16_value arg of
           None \<Rightarrow> Inl (-1)
         | Some e \<Rightarrow>
             if e > 0xFF then Inl (-1)
             else Inr (upd_filter (\<lambda>f. f\<lparr>enabled := True, has_endpoint := True, flt_endpoint := ucast e\<rparr>) cf))
      else if c = ARG_TRANSFER_TYPE then
        (case parse_transfer_type arg of
           None \<Rightarrow> Inl (-1)
         | Some t \<Rightarrow>
             Inr (upd_filter (\<lambda>f. f\<lparr>enabled := True, has_transfer_type := True, flt_transfer_type := t\<rparr>) cf))
      else if c = ARG_STORE_MODE then
        (case arg of
           None \<Rightarrow> Inl (-1)
         | Some m \<Rightarrow>
             if stricmp_eq m ''immediate''
             then Inr (upd_thread (store_mode_update (\<lambda>_. USBPCAP_STORE_MODE_IMMEDIATE)) cf)
             else if stricmp_eq m ''on-match''
             then Inr (upd_thread (store_mode_update (\<lambda>_. USBPCAP_STORE_MODE_ON_MATCH)) cf)
             else Inl (-1))
      else if c = 65 then Inr (cf\<lparr>cf_capture_all := True\<rparr>)
      else if c = ARG_CAPTURE_FROM_NEW_DEVICES then Inr (upd_thread (capture_new_update (\<lambda>_. True)) cf)
      else if c = ARG_INJECT_DESCRIPTORS then Inr (cf\<lparr>cf_inject := True\<rparr>)
      else if c = ARG_EXTCAP_VERSION then Inr (cf\<lparr>do_extcap_version := True\<rparr>)
      else if c = ARG_EXTCAP_INTERFACE then Inr (cf\<lparr>extcap_interface := arg\<rparr>)
      else if c = ARG_EXTCAP_FIFO then Inr (cf\<lparr>run_as_extcap := True, extcap_fifo := arg\<rparr>)
      else Inl (-1))"

section \<open>All options\<close>

text \<open>
  The loop; fuel bounds the number of options. None is running out of fuel. After the loop the
  ids are copied to the application filter.
\<close>

fun option_loop ::
  "bool \<Rightarrow> nat \<Rightarrow> getopt_state \<Rightarrow> config \<Rightarrow> ((int + config) \<times> getopt_state) option" where
  "option_loop posixly 0 s cf = None"
| "option_loop posixly (Suc fuel) s cf =
     (case getopt_long posixly short_options long_options s of
        (c, s') \<Rightarrow>
          if c = -1 then Some (Inr cf, s')
          else (case process_option c (optarg s') cf of
                  Inl ret \<Rightarrow> Some (Inl ret, s')
                | Inr cf' \<Rightarrow> option_loop posixly fuel s' cf'))"

definition apply_ids :: "config \<Rightarrow> config" where
  "apply_ids cf =
     (let cf1 = (if has_vendor cf
                 then upd_filter (\<lambda>f. f\<lparr>has_vendor_id := True, flt_vendor_id := cf_vendor cf\<rparr>) cf else cf) in
      if has_product cf1
      then upd_filter (\<lambda>f. f\<lparr>has_product_id := True, flt_product_id := cf_product cf1\<rparr>) cf1 else cf1)"

text \<open>The options of an argument vector, with the flag variables the parser set.\<close>

definition parse_options ::
  "bool \<Rightarrow> nat \<Rightarrow> thread_data \<Rightarrow> string list \<Rightarrow> ((int + config) \<times> (string \<Rightarrow> int)) option" where
  "parse_options posixly fuel junk args =
     map_option (\<lambda>(r, s). (case r of Inl ret \<Rightarrow> Inl ret | Inr cf \<Rightarrow> Inr (apply_ids cf), flag_vars s))
       (option_loop posixly fuel (getopt_init args) (initial_config junk))"

section \<open>The loop ends\<close>

lemma short_options_plain [simp]:
  "take (Suc 0) short_options \<noteq> ''+''" "take (Suc 0) short_options \<noteq> ''-''" "CHR ''W'' \<notin> set short_options"
  by simp_all

lemma long_options_values: "\<forall>o'\<in>set long_options. lo_val o' \<noteq> -1"
  by (simp add: long_options_def)

lemma option_loop_returns:
  "getopt_wf s \<Longrightarrow> weight s < fuel \<Longrightarrow> \<exists>r. option_loop posixly fuel s cf = Some r"
proof (induction fuel arbitrary: s cf)
  case (Suc fuel)
  obtain c s' where call: "getopt_long posixly short_options long_options s = (c, s')"
    by (cases "getopt_long posixly short_options long_options s")
  show ?case
  proof (cases "c = -1")
    case False
    have "getopt_wf s' \<and> weight s' < weight s"
      by (rule getopt_long_progress [OF Suc.prems(1) call False long_options_values]) simp_all
    then have "\<exists>r. option_loop posixly fuel s' cf' = Some r" for cf'
      using Suc.prems(2) by (intro Suc.IH) simp_all
    then show ?thesis using call False by (simp split: sum.split)
  qed (simp add: call)
qed simp

text \<open>C9. The loop over the options ends for every argument vector: with as much fuel as there
  are characters the parser reports the end or an option ends the program. No vector, however
  options, operands, prefixes and missing arguments are mixed, makes it go on for ever.\<close>

theorem parse_options_returns:
  "\<exists>r. parse_options posixly (Suc (chars args)) junk args = Some r"
proof (cases args)
  case Nil
  have "fst (getopt_long posixly short_options long_options (getopt_init [])) = -1"
    by (rule getopt_long_end) (simp_all add: getopt_init_def)
  then have "\<exists>r. option_loop posixly (Suc 0) (getopt_init []) (initial_config junk) = Some r"
    by (cases "getopt_long posixly short_options long_options (getopt_init [])") simp
  then show ?thesis using Nil by (auto simp: parse_options_def chars_def)
next
  case (Cons a as)
  have "getopt_wf (getopt_init args)" by (simp add: getopt_wf_def getopt_init_def Cons)
  moreover have "weight (getopt_init args) < Suc (chars args)"
    by (simp add: weight_def getopt_init_def Cons chars_def)
  ultimately obtain r where "option_loop posixly (Suc (chars args)) (getopt_init args) (initial_config junk) = Some r"
    using option_loop_returns by blast
  then show ?thesis by (simp add: parse_options_def)
qed

section \<open>Reading rendered options\<close>

text \<open>What is left to parse when no argument is being scanned and no operand was skipped.\<close>

definition ready :: "getopt_state \<Rightarrow> string list \<Rightarrow> bool" where
  "ready s toks \<longleftrightarrow> at_argument s \<and> optind s \<le> length (argv s) \<and> drop (optind s) (argv s) = toks"

text \<open>The loop gets from some arguments to later ones while it changes the configuration.\<close>

definition leads :: "bool \<Rightarrow> string list \<Rightarrow> string list \<Rightarrow> config \<Rightarrow> config \<Rightarrow> bool" where
  "leads posixly toks rest cf cf' \<longleftrightarrow>
     (\<forall>s. ready s toks \<longrightarrow> (\<exists>s' n. n + length rest \<le> length toks \<and> ready s' rest \<and> flag_vars s' = flag_vars s \<and>
        (\<forall>fuel. option_loop posixly (n + fuel) s cf = option_loop posixly fuel s' cf')))"

lemma leads_refl: "leads p toks toks cf cf"
proof -
  have "\<exists>s' n. n + length toks \<le> length toks \<and> ready s' toks \<and> flag_vars s' = flag_vars s \<and>
      (\<forall>fuel. option_loop p (n + fuel) s cf = option_loop p fuel s' cf)" if "ready s toks" for s
    using that by (intro exI [of _ s] exI [of _ 0]) simp
  then show ?thesis by (simp add: leads_def)
qed

lemma leads_trans:
  assumes "leads p toks mid cf cf1" and "leads p mid rest cf1 cf2"
  shows "leads p toks rest cf cf2"
  unfolding leads_def
proof (intro allI impI)
  fix s
  assume "ready s toks"
  then obtain s1 n where 1: "n + length mid \<le> length toks" "ready s1 mid" "flag_vars s1 = flag_vars s"
    "\<And>fuel. option_loop p (n + fuel) s cf = option_loop p fuel s1 cf1"
    using assms(1) unfolding leads_def by blast
  obtain s2 m where 2: "m + length rest \<le> length mid" "ready s2 rest" "flag_vars s2 = flag_vars s1"
    "\<And>fuel. option_loop p (m + fuel) s1 cf1 = option_loop p fuel s2 cf2"
    using assms(2) 1(2) unfolding leads_def by blast
  have "option_loop p (n + m + fuel) s cf = option_loop p fuel s2 cf2" for fuel
    using 1(4) [of "m + fuel"] 2(4) by (simp add: add.assoc)
  then show "\<exists>s' n. n + length rest \<le> length toks \<and> ready s' rest \<and> flag_vars s' = flag_vars s \<and>
      (\<forall>fuel. option_loop p (n + fuel) s cf = option_loop p fuel s' cf2)"
    using 1(1,3) 2(1,2,3) by (intro exI [of _ s2] exI [of _ "n + m"]) simp
qed

lemma leads_call:
  assumes "\<And>s. ready s (pre @ rest) \<Longrightarrow> \<exists>s'. getopt_long p short_options long_options s = (c, s') \<and>
      optarg s' = arg \<and> ready s' rest \<and> flag_vars s' = flag_vars s"
    and "c \<noteq> -1" and "pre \<noteq> []" and "process_option c arg cf = Inr cf'"
  shows "leads p (pre @ rest) rest cf cf'"
  unfolding leads_def
proof (intro allI impI)
  fix s
  assume "ready s (pre @ rest)"
  then obtain s' where s': "getopt_long p short_options long_options s = (c, s')" "optarg s' = arg"
    "ready s' rest" "flag_vars s' = flag_vars s" using assms(1) by blast
  have "option_loop p (Suc 0 + fuel) s cf = option_loop p fuel s' cf'" for fuel
    using s' assms(2,4) by simp
  then show "\<exists>s' n. n + length rest \<le> length (pre @ rest) \<and> ready s' rest \<and> flag_vars s' = flag_vars s \<and>
      (\<forall>fuel. option_loop p (n + fuel) s cf = option_loop p fuel s' cf')"
    using s'(3,4) assms(3) by (intro exI [of _ s'] exI [of _ "Suc 0"]) (cases pre; simp)
qed

lemma ready_nth:
  assumes "ready s (x # xs)"
  shows "optind s < length (argv s)" "argv s ! optind s = x" "drop (Suc (optind s)) (argv s) = xs"
proof -
  have d: "drop (optind s) (argv s) = x # xs" using assms by (simp add: ready_def)
  show lt: "optind s < length (argv s)"
    using d by (metis drop_all leI list.distinct(1))
  show "argv s ! optind s = x" using d lt by (metis Cons_nth_drop_Suc list.inject)
  show "drop (Suc (optind s)) (argv s) = xs" using d lt by (metis Cons_nth_drop_Suc list.inject)
qed

lemma leads_flag:
  assumes "find_option long_options name = Some (i, \<lparr>lo_name = name', lo_arg = no_argument, lo_flag = None, lo_val = v\<rparr>)"
    and "name \<noteq> []" "CHR ''='' \<notin> set name" and "v \<noteq> -1" and "process_option v None cf = Inr cf'"
  shows "leads p ((''--'' @ name) # rest) rest cf cf'"
proof -
  have "leads p ([''--'' @ name] @ rest) rest cf cf'"
  proof (rule leads_call [OF _ assms(4) _ assms(5)])
    fix s
    assume r: "ready s ([''--'' @ name] @ rest)"
    then have r': "ready s ((''--'' @ name) # rest)" by simp
    note n = ready_nth [OF r']
    have at: "at_argument s" using r by (simp add: ready_def)
    have call: "getopt_long p short_options long_options s = (v,
        s\<lparr>optarg := None, place := [], at_start := False, optind := optind s + 1, option_index := i\<rparr>)"
      using getopt_long_flag [OF _ _ at n(1,2) assms(2,3,1), of short_options p] assms(4) by simp
    show "\<exists>s'. getopt_long p short_options long_options s = (v, s') \<and> optarg s' = None \<and> ready s' rest \<and>
        flag_vars s' = flag_vars s"
      unfolding call using at n by (simp add: ready_def)
  qed simp
  then show ?thesis by simp
qed

lemma leads_argument:
  assumes "find_option long_options name = Some (i, \<lparr>lo_name = name', lo_arg = required_argument, lo_flag = None, lo_val = v\<rparr>)"
    and "name \<noteq> []" "CHR ''='' \<notin> set name" and "v \<noteq> -1" and "process_option v (Some a) cf = Inr cf'"
  shows "leads p ((''--'' @ name) # a # rest) rest cf cf'"
proof -
  have "leads p ([''--'' @ name, a] @ rest) rest cf cf'"
  proof (rule leads_call [OF _ assms(4) _ assms(5)])
    fix s
    assume r: "ready s ([''--'' @ name, a] @ rest)"
    then have r': "ready s ((''--'' @ name) # a # rest)" by simp
    note n = ready_nth [OF r']
    have at: "at_argument s" using r by (simp add: ready_def)
    have lt: "optind s + 1 < length (argv s)"
      using n(3) by (metis Suc_eq_plus1 drop_all leI list.distinct(1))
    have a: "argv s ! (optind s + 1) = a" "drop (Suc (Suc (optind s))) (argv s) = rest"
      using n(3) lt by (metis Cons_nth_drop_Suc Suc_eq_plus1 list.inject)+
    have call: "getopt_long p short_options long_options s = (v,
        s\<lparr>optarg := Some a, place := [], at_start := False, optind := optind s + 2, option_index := i\<rparr>)"
      using getopt_long_argument [OF _ _ at lt n(2) assms(2,3,1), of short_options p] assms(4) a(1) by simp
    show "\<exists>s'. getopt_long p short_options long_options s = (v, s') \<and> optarg s' = Some a \<and> ready s' rest \<and>
        flag_vars s' = flag_vars s"
      unfolding call using at a(2) lt by (simp add: ready_def)
  qed simp
  then show ?thesis by simp
qed

lemma leads_short:
  assumes "c \<in> set ''dosb''" and "process_option (char_code c) (Some a) cf = Inr cf'"
  shows "leads p ([CHR ''-'', c] # a # rest) rest cf cf'"
proof -
  have ne: "char_code c \<noteq> -1" using assms(1) by (auto simp: char_code_def)
  have "leads p ([[CHR ''-'', c], a] @ rest) rest cf cf'"
  proof (rule leads_call [OF _ ne _ assms(2)])
    fix s
    assume r: "ready s ([[CHR ''-'', c], a] @ rest)"
    then have r': "ready s ([CHR ''-'', c] # a # rest)" by simp
    note n = ready_nth [OF r']
    have at: "at_argument s" using r by (simp add: ready_def)
    have lt: "optind s + 1 < length (argv s)"
      using n(3) by (metis Suc_eq_plus1 drop_all leI list.distinct(1))
    have a: "argv s ! (optind s + 1) = a" "drop (Suc (Suc (optind s))) (argv s) = rest"
      using n(3) lt by (metis Cons_nth_drop_Suc Suc_eq_plus1 list.inject)+
    have call: "getopt_long p short_options long_options s = (char_code c,
        s\<lparr>optarg := Some a, place := [], at_start := False, optind := optind s + 2\<rparr>)"
      using getopt_short_argument [OF _ _ at lt n(2), of short_options p] assms(1) a(1) by auto
    show "\<exists>s'. getopt_long p short_options long_options s = (char_code c, s') \<and> optarg s' = Some a \<and>
        ready s' rest \<and> flag_vars s' = flag_vars s"
      unfolding call using at a(2) lt by (simp add: ready_def)
  qed simp
  then show ?thesis by simp
qed

lemma leads_optional:
  "(b \<Longrightarrow> leads p (toks @ rest) rest cf cf') \<Longrightarrow>
     leads p ((if b then toks else []) @ rest) rest cf (if b then cf' else cf)"
  by (simp add: leads_refl)

text \<open>A vector of options only is parsed to its end.\<close>

lemma parse_options_leads:
  assumes "leads p toks [] (initial_config junk) cf" and "length toks < fuel"
  shows "parse_options p fuel junk (exe # toks) = Some (Inr (apply_ids cf), \<lambda>v. 0)"
proof -
  have "ready (getopt_init (exe # toks)) toks" by (simp add: ready_def getopt_init_def)
  then obtain s' n where s': "n \<le> length toks" "ready s' []" "flag_vars s' = flag_vars (getopt_init (exe # toks))"
    "\<And>fuel. option_loop p (n + fuel) (getopt_init (exe # toks)) (initial_config junk) = option_loop p fuel s' cf"
    using assms(1) unfolding leads_def by force
  obtain k where k: "fuel = n + Suc k"
    using s'(1) assms(2) by (metis add_Suc_right less_imp_Suc_add order_le_less_trans)
  have end': "fst (getopt_long p short_options long_options s') = -1"
    using s'(2) by (intro getopt_long_end) (simp_all add: ready_def)
  obtain s'' where call: "getopt_long p short_options long_options s' = (-1, s'')"
    using end' by (cases "getopt_long p short_options long_options s'") simp
  have "flag_vars s'' = flag_vars s'"
    using call s'(2) by (auto simp: getopt_long_call ready_def scan_start.simps)
  then have vars: "flag_vars s'' = (\<lambda>v. 0)" using s'(3) by (simp add: getopt_init_def)
  have "option_loop p fuel (getopt_init (exe # toks)) (initial_config junk) = Some (Inr cf, s'')"
    unfolding k s'(4) using call by simp
  then show ?thesis using vars by (simp add: parse_options_def)
qed

end
