(* ===== verification/WorkerCommand.thy ===== *)
theory WorkerCommand
  imports CommandOptions
begin

text \<open>
  The elevated worker (cmd.c): without administrator rights the tool starts itself again with
  a command line made from its configuration. The theorems are about the buffer the line is
  printed into and about the configuration the worker reads from it.

  Text is counted in characters; the conversion of the device and file names to 16-bit
  characters is taken to keep their number, as it does for single-byte code pages.
\<close>

section \<open>The command line\<close>

definition worker_pipe_name :: "string \<Rightarrow> string" where
  "worker_pipe_name device =
     (let name = [backslash, backslash, CHR ''.'', backslash] @ ''pipe'' @ [backslash] @ device in
      take 10 name @ map (\<lambda>c. if c = backslash then CHR ''_'' else c) (drop 10 name))"

text \<open>The three ways the calls of swprintf_s go on; the process ends when a text does not fit.\<close>

definition worker_pieces :: "config \<Rightarrow> string \<Rightarrow> string list" where
  "worker_pieces cf output =
     (let data = cf_thread cf; flt = app_filter data in
      [''-d '' @ the (cf_device cf) @ '' -b '' @ dec (unat (bufferlen data)) @ '' -o '' @ output] @
      (if td_snaplen data \<noteq> 65535 then ['' -s '' @ dec (unat (td_snaplen data))] else []) @
      (case cf_address_list cf of Some l \<Rightarrow> ['' --devices '' @ l] | None \<Rightarrow> []) @
      (if cf_capture_all cf then ['' --capture-from-all-devices''] else []) @
      (if capture_new data then ['' --capture-from-new-devices''] else []) @
      (if cf_inject cf then ['' --inject-descriptors''] else []) @
      (if cf_duration cf > 0 then ['' --duration '' @ dec (unat (cf_duration cf))] else []) @
      (if enabled flt then ['' --app-filter''] else []) @
      (if has_vendor_id flt then ['' --vendor-id '' @ dec (unat (flt_vendor_id flt))] else []) @
      (if has_product_id flt then ['' --product-id '' @ dec (unat (flt_product_id flt))] else []) @
      (if has_endpoint flt then ['' --endpoint '' @ dec (unat (flt_endpoint flt))] else []) @
      (if has_transfer_type flt
       then ['' --transfer-type '' @ transfer_type_to_text (flt_transfer_type flt)] else []) @
      (if store_mode data = USBPCAP_STORE_MODE_ON_MATCH then ['' --store-mode on-match''] else []) @
      ['' --no-interactive''])"

text \<open>The sum of the lengths of the formats, of the strings and of the reserves for numbers.\<close>

definition worker_line_length :: "config \<Rightarrow> string \<Rightarrow> nat" where
  "worker_line_length cf output =
     (length (the (cf_device cf)) + 1) + length output + length ''-d %S -b %u -o %S'' + 9 + 1 +
     length '' -s %u'' + 10 + length '' --devices %S'' + length '' --capture-from-all-devices'' +
     length '' --capture-from-new-devices'' + length '' --inject-descriptors'' +
     length '' --duration %u'' + length '' --app-filter'' + length '' --vendor-id %u'' +
     length '' --product-id %u'' + length '' --endpoint %u'' + length '' --transfer-type %S'' +
     length '' --store-mode on-match'' + length '' --no-interactive'' +
     (case cf_address_list cf of None \<Rightarrow> 0 | Some l \<Rightarrow> length l)"

fun print_pieces :: "nat \<Rightarrow> string \<Rightarrow> string list \<Rightarrow> string option" where
  "print_pieces room line [] = Some line"
| "print_pieces room line (p # ps) =
     (if length line + length p + 1 > room then None else print_pieces room (line @ p) ps)"

text \<open>
  The arguments say whether the module path, the pipe name and the line are allocated and the
  pipe is created. The inner option is the result FALSE, otherwise the line and whether a pipe
  is used.
\<close>

definition generate_worker_command_line ::
  "bool \<Rightarrow> bool \<Rightarrow> bool \<Rightarrow> bool \<Rightarrow> config \<Rightarrow> (string \<times> bool) option option" where
  "generate_worker_command_line path_ok name_ok pipe_ok line_ok cf =
     (let piped = (the (cf_filename cf) = ''-'');
          output = (if piped then worker_pipe_name (the (cf_device cf)) else the (cf_filename cf)) in
      if \<not> path_ok then Some None
      else if piped \<and> \<not> (name_ok \<and> pipe_ok) then Some None
      else if \<not> line_ok then Some None
      else map_option (\<lambda>line. Some (line, piped))
             (print_pieces (worker_line_length cf output) [] (worker_pieces cf output)))"

section \<open>The line fits its buffer\<close>

lemma print_pieces_some:
  "length line + length (concat ps) + 1 \<le> room \<Longrightarrow> print_pieces room line ps = Some (line @ concat ps)"
  by (induction ps arbitrary: line) simp_all

lemma print_pieces_none:
  "room < length line + length (concat ps) + 1 \<Longrightarrow> length line < room \<Longrightarrow> print_pieces room line ps = None"
  by (induction ps arbitrary: line) simp_all

lemma length_dec_bound: "n < 10 ^ Suc k \<Longrightarrow> m = Suc k \<Longrightarrow> length (dec n) \<le> m"
  using length_dec by blast

lemma length_dec_u8: "length (dec (unat (w :: u8))) \<le> 3"
  by (rule length_dec_bound [of _ 2]) (use unsigned_less [of w, where 'a = nat] in simp_all)

lemma length_dec_u16: "length (dec (unat (w :: u16))) \<le> 5"
  by (rule length_dec_bound [of _ 4]) (use unsigned_less [of w, where 'a = nat] in simp_all)

lemma length_dec_u32: "length (dec (unat (w :: u32))) \<le> 10"
  by (rule length_dec_bound [of _ 9]) (use unsigned_less [of w, where 'a = nat] in simp_all)

lemma length_dec_bufferlen: "w \<le> (134217728 :: u32) \<Longrightarrow> length (dec (unat w)) \<le> 9"
  by (rule length_dec_bound [of _ 8]) (simp_all add: word_le_nat_alt)

lemma length_transfer_text: "length (transfer_type_to_text t) \<le> 11"
  by (simp add: transfer_type_to_text_def)

text \<open>The lengths of the pieces, and what the buffer reserves for them.\<close>

lemma worker_line_fits:
  assumes "bufferlen (cf_thread cf) \<le> 134217728"
    and "\<not> (cf_capture_all cf \<and> capture_new (cf_thread cf) \<and> cf_inject cf \<and>
      enabled (app_filter (cf_thread cf)) \<and> store_mode (cf_thread cf) = USBPCAP_STORE_MODE_ON_MATCH)"
  shows "length (concat (worker_pieces cf output)) + 1 \<le> worker_line_length cf output"
proof -
  let ?d = "cf_thread cf" let ?f = "app_filter ?d"
  note bounds = length_dec_bufferlen [OF assms(1)] length_dec_u32 [of "td_snaplen ?d"]
    length_dec_u32 [of "cf_duration cf"] length_dec_u16 [of "flt_vendor_id ?f"]
    length_dec_u16 [of "flt_product_id ?f"] length_dec_u8 [of "flt_endpoint ?f"]
    length_transfer_text [of "flt_transfer_type ?f"]
  have sum: "length (concat (worker_pieces cf output)) =
      length (the (cf_device cf)) + length (dec (unat (bufferlen ?d))) + length output + 11 +
      (if td_snaplen ?d \<noteq> 65535 then 4 + length (dec (unat (td_snaplen ?d))) else 0) +
      (case cf_address_list cf of Some l \<Rightarrow> 11 + length l | None \<Rightarrow> 0) +
      (if cf_capture_all cf then 27 else 0) + (if capture_new ?d then 27 else 0) +
      (if cf_inject cf then 21 else 0) +
      (if cf_duration cf > 0 then 12 + length (dec (unat (cf_duration cf))) else 0) +
      (if enabled ?f then 13 else 0) +
      (if has_vendor_id ?f then 13 + length (dec (unat (flt_vendor_id ?f))) else 0) +
      (if has_product_id ?f then 14 + length (dec (unat (flt_product_id ?f))) else 0) +
      (if has_endpoint ?f then 12 + length (dec (unat (flt_endpoint ?f))) else 0) +
      (if has_transfer_type ?f then 17 + length (transfer_type_to_text (flt_transfer_type ?f)) else 0) +
      (if store_mode ?d = USBPCAP_STORE_MODE_ON_MATCH then 22 else 0) + 17"
    by (simp add: worker_pieces_def Let_def split: option.split)
  have flags: "(if cf_capture_all cf then 27 else 0) + (if capture_new ?d then 27 else 0) +
      (if cf_inject cf then 21 else 0) + (if enabled ?f then 13 else 0) +
      (if store_mode ?d = USBPCAP_STORE_MODE_ON_MATCH then 22 else 0) \<le> (97 :: nat)"
    using assms(2) by auto
  have parts: "(if td_snaplen ?d \<noteq> 65535 then 4 + length (dec (unat (td_snaplen ?d))) else 0) \<le> 14"
    "(if cf_duration cf > 0 then 12 + length (dec (unat (cf_duration cf))) else 0) \<le> 22"
    "(if has_vendor_id ?f then 13 + length (dec (unat (flt_vendor_id ?f))) else 0) \<le> 18"
    "(if has_product_id ?f then 14 + length (dec (unat (flt_product_id ?f))) else 0) \<le> 19"
    "(if has_endpoint ?f then 12 + length (dec (unat (flt_endpoint ?f))) else 0) \<le> 15"
    "(if has_transfer_type ?f then 17 + length (transfer_type_to_text (flt_transfer_type ?f)) else 0) \<le> 28"
    using bounds by simp_all
  have list: "(case cf_address_list cf of Some l \<Rightarrow> 11 + length l | None \<Rightarrow> 0) \<le>
      11 + (case cf_address_list cf of None \<Rightarrow> 0 | Some l \<Rightarrow> length l)"
    by (cases "cf_address_list cf") simp_all
  have room: "worker_line_length cf output = length (the (cf_device cf)) + length output + 262 +
      (case cf_address_list cf of None \<Rightarrow> 0 | Some l \<Rightarrow> length l)"
    by (simp add: worker_line_length_def)
  show ?thesis
    unfolding sum room using bounds(1) flags parts list by linarith
qed


definition sample_config :: config where
  "sample_config = (initial_config sample_thread)
     \<lparr>cf_device := Some ''USBPcap1'', cf_filename := Some ''out.pcap'', cf_inject := True, cf_capture_all := True\<rparr>"


text \<open>With all options the line does not fit and the process is ended.\<close>

definition crowded_config :: config where
  "crowded_config = (initial_config sample_thread)
     \<lparr>cf_thread := sample_thread\<lparr>capture_new := True, td_snaplen := 0x7FFFFFFF, bufferlen := 134217728,
        app_filter := \<lparr>enabled = True, has_vendor_id = True, has_product_id = True, has_endpoint = True,
          has_transfer_type = True, flt_vendor_id = 0xFFFF, flt_product_id = 0xFFFF, flt_endpoint = 0x81,
          flt_transfer_type = USBPCAP_TRANSFER_ISOCHRONOUS\<rparr>\<rparr>,
      cf_device := Some ''USBPcap1'', cf_filename := Some ''out.pcap'', cf_inject := True,
      cf_capture_all := True, cf_address_list := Some ''1,2'', cf_duration := 1000000\<rparr>"

theorem worker_command_line_overflows:
  "generate_worker_command_line True True True True crowded_config = None"
proof -
  have nums: "length (dec 134217728) = 9" "length (dec 0x7FFFFFFF) = 10" "length (dec 1000000) = 7"
    "length (dec 0xFFFF) = 5" "length (dec 0x81) = 3"
    by (simp_all add: dec.simps)
  have "worker_line_length crowded_config ''out.pcap'' < length (concat (worker_pieces crowded_config ''out.pcap'')) + 1"
    by (simp add: worker_line_length_def worker_pieces_def crowded_config_def initial_config_def sample_thread_def
        nums [simplified] transfer_type_to_text_def Let_def)
  moreover have "0 < worker_line_length crowded_config ''out.pcap''" by (simp add: worker_line_length_def)
  ultimately have "print_pieces (worker_line_length crowded_config ''out.pcap'') [] (worker_pieces crowded_config ''out.pcap'') = None"
    by (intro print_pieces_none) simp_all
  moreover have "cf_filename crowded_config = Some ''out.pcap''" by (simp add: crowded_config_def)
  ultimately show ?thesis by (simp add: generate_worker_command_line_def)
qed

section \<open>What the worker reads\<close>

text \<open>
  The arguments of a command line without quotes are its words (the rule of the Microsoft
  run-time library); a word has no blank and no quote.
\<close>

definition blank :: "char \<Rightarrow> bool" where
  "blank c \<longleftrightarrow> c = CHR '' '' \<or> c = CHR 0x09"

fun words :: "string \<Rightarrow> string \<Rightarrow> string list" where
  "words cur [] = (if cur = [] then [] else [cur])"
| "words cur (c # cs) =
     (if blank c then (if cur = [] then [] else [cur]) @ words [] cs else words (cur @ [c]) cs)"

definition is_word :: "string \<Rightarrow> bool" where
  "is_word t \<longleftrightarrow> t \<noteq> [] \<and> (\<forall>c\<in>set t. \<not> blank c \<and> c \<noteq> quote)"

definition blank_words :: "string list \<Rightarrow> string" where
  "blank_words toks = concat (map (\<lambda>t. CHR '' '' # t) toks)"

lemma words_append: "\<forall>c\<in>set t. \<not> blank c \<Longrightarrow> words cur (t @ rest) = words (cur @ t) rest"
  by (induction t arbitrary: cur) simp_all

lemma words_blank_words:
  "\<forall>t\<in>set toks. is_word t \<Longrightarrow> words cur (blank_words toks) = (if cur = [] then [] else [cur]) @ toks"
proof (induction toks arbitrary: cur)
  case (Cons t ts)
  have "words [] (t @ blank_words ts) = [t] @ ts"
    using Cons words_append [of t "[]" "blank_words ts"] by (simp add: is_word_def)
  then show ?case by (simp add: blank_words_def blank_def)
qed (simp add: blank_words_def)

definition worker_tokens :: "config \<Rightarrow> string \<Rightarrow> string list" where
  "worker_tokens cf output =
     (let data = cf_thread cf; flt = app_filter data in
      ''-d'' # the (cf_device cf) # ''-b'' # dec (unat (bufferlen data)) # ''-o'' # output #
      (if td_snaplen data \<noteq> 65535 then [''-s'', dec (unat (td_snaplen data))] else []) @
      (if cf_address_list cf \<noteq> None then [''--devices'', the (cf_address_list cf)] else []) @
      (if cf_capture_all cf then [''--capture-from-all-devices''] else []) @
      (if capture_new data then [''--capture-from-new-devices''] else []) @
      (if cf_inject cf then [''--inject-descriptors''] else []) @
      (if cf_duration cf > 0 then [''--duration'', dec (unat (cf_duration cf))] else []) @
      (if enabled flt then [''--app-filter''] else []) @
      (if has_vendor_id flt then [''--vendor-id'', dec (unat (flt_vendor_id flt))] else []) @
      (if has_product_id flt then [''--product-id'', dec (unat (flt_product_id flt))] else []) @
      (if has_endpoint flt then [''--endpoint'', dec (unat (flt_endpoint flt))] else []) @
      (if has_transfer_type flt
       then [''--transfer-type'', transfer_type_to_text (flt_transfer_type flt)] else []) @
      (if store_mode data = USBPCAP_STORE_MODE_ON_MATCH then [''--store-mode'', ''on-match''] else []) @
      [''--no-interactive''])"

lemma worker_line_words:
  "CHR '' '' # concat (worker_pieces cf output) = blank_words (worker_tokens cf output)"
  unfolding worker_pieces_def worker_tokens_def Let_def blank_words_def concat_append map_append list.map concat.simps
  by (cases "cf_address_list cf") (simp_all add: if_distrib [of "map _"] if_distrib [of concat] cong: if_cong)

lemma dec_is_word: "is_word (dec n)"
  using dec_digits [of n] by (auto simp: is_word_def blank_def isdigit_def)

lemma transfer_is_word: "is_word (transfer_type_to_text t)"
  by (simp add: transfer_type_to_text_def is_word_def blank_def)

lemma words_worker_line:
  assumes "is_word (the (cf_device cf))" "is_word output" "\<forall>l. cf_address_list cf = Some l \<longrightarrow> is_word l"
  shows "words [] (concat (worker_pieces cf output)) = worker_tokens cf output"
proof -
  have names: "\<forall>t\<in>set [''-d'', ''-b'', ''-o'', ''-s'', ''--devices'', ''--capture-from-all-devices'',
      ''--capture-from-new-devices'', ''--inject-descriptors'', ''--duration'', ''--app-filter'',
      ''--vendor-id'', ''--product-id'', ''--endpoint'', ''--transfer-type'', ''--store-mode'', ''on-match'',
      ''--no-interactive'']. is_word t"
    by (simp add: is_word_def blank_def)
  have "list_all is_word (worker_tokens cf output)"
    unfolding worker_tokens_def Let_def using names assms dec_is_word transfer_is_word
    by (cases "cf_address_list cf") (simp_all add: if_distrib [of "list_all is_word"])
  then have "\<forall>t\<in>set (worker_tokens cf output). is_word t" by (simp add: list_all_iff)
  then have "words [] (blank_words (worker_tokens cf output)) = worker_tokens cf output"
    by (simp add: words_blank_words)
  moreover have "words [] (CHR '' '' # s) = words [] s" for s by (simp add: blank_def)
  ultimately show ?thesis using worker_line_words by metis
qed

end
