(* ===== verification/CommandMain.thy ===== *)
theory CommandMain
  imports WorkerCommand CaptureSetup
begin

text \<open>
  What the command line tool does after its options are read (cmd.c): the extcap commands of
  Wireshark, the lists, the choice of interface and addresses, the interactive questions and
  the start of a capture with its checks, its exit code and its JSON answer.

  The outside is the record tool_env: what is connected, what Windows answers, the lines the
  user types and what became of the thread data when the capture has ended. The results have
  what is printed on the standard output; messages on the standard error and the questions on
  the interactive console are left out.
\<close>

section \<open>The environment\<close>

text \<open>
  The capture is what happens between the start of the thread or of the worker and its end;
  None when the job object cannot be created. For a worker it has the command line and whether
  a pipe is used, None when there is none. The four flags are the allocations and the pipe of
  generate_worker_command_line.
\<close>

record tool_env =
  te_collect :: collect_env
  te_link :: "string \<Rightarrow> (u16 list \<times> hub) option"
  te_filters :: "string list"
  te_calloc :: bool
  te_malloc :: bool
  te_upper_filter :: bool
  te_restarted :: "string list"
  te_console :: bool
  te_input :: "string option list"
  te_extcap_config :: "string \<Rightarrow> string"
  te_elevated :: bool
  te_stdout :: bool
  te_create :: "string \<Rightarrow> bool"
  te_capture :: "config \<Rightarrow> thread_data"
  te_worker_ok :: "bool \<times> bool \<times> bool \<times> bool"
  te_worker :: "(string \<times> bool) option \<Rightarrow> config \<Rightarrow> thread_data option"
  te_file_exists :: "string \<Rightarrow> bool"

definition interface_of :: "tool_env \<Rightarrow> string \<Rightarrow> hub_interface" where
  "interface_of env device = (device, te_link env device)"

section \<open>The interactive questions\<close>

text \<open>
  The input is the list of the results of fgets, None is NULL. A question is asked again after
  an answer it does not take; None as the result is a question that is never answered.
\<close>

fun ask_restart :: "string option list \<Rightarrow> (bool \<times> string option list) option" where
  "ask_restart [] = None"
| "ask_restart (None # rest) = ask_restart rest"
| "ask_restart (Some answer # rest) =
     (if take 1 answer = ''y'' then Some (True, rest)
      else if take 1 answer = ''n'' then Some (False, rest)
      else ask_restart rest)"

fun ask_filter :: "string list \<Rightarrow> string option list \<Rightarrow> (string option \<times> string option list) option" where
  "ask_filter filters [] = None"
| "ask_filter filters (None # rest) = ask_filter filters rest"
| "ask_filter filters (Some answer # rest) =
     (if take 1 answer = ''q'' then Some (None, rest)
      else if c_atoi answer \<le> 0 \<or> c_atoi answer > int (length filters) then ask_filter filters rest
      else Some (Some (filters ! nat (c_atoi answer - 1)), rest))"

fun ask_output :: "string option list \<Rightarrow> (string \<times> string option list) option" where
  "ask_output [] = None"
| "ask_output (None # rest) = ask_output rest"
| "ask_output (Some answer # rest) =
     (if answer = [] then ask_output rest
      else Some (takeWhile (\<lambda>c. c \<noteq> CHR 0x0A) answer, rest))"

definition select_and_name :: "string list \<Rightarrow> string option list \<Rightarrow> config \<Rightarrow> (int \<times> config) option" where
  "select_and_name filters lines cf =
     (case ask_filter filters lines of
        None \<Rightarrow> None
      | Some (None, rest) \<Rightarrow> Some (-1, cf)
      | Some (Some device, rest) \<Rightarrow>
          (case ask_output rest of
             None \<Rightarrow> None
           | Some (file, _) \<Rightarrow> Some (0, cf\<lparr>cf_device := Some device, cf_filename := Some file\<rparr>)))"

definition cmd_interactive :: "tool_env \<Rightarrow> config \<Rightarrow> (int \<times> config) option" where
  "cmd_interactive env cf0 =
     (if \<not> te_console env then Some (-1, cf0)
      else
        let cf = cf0\<lparr>cf_filename := None, cf_capture_all := True, cf_inject := True\<rparr> in
        if te_filters env = [] then
          (if \<not> te_upper_filter env then Some (-1, cf)
           else (case ask_restart (te_input env) of
                   None \<Rightarrow> None
                 | Some (False, rest) \<Rightarrow> Some (-1, cf)
                 | Some (True, rest) \<Rightarrow> select_and_name (te_restarted env) rest cf))
        else select_and_name (te_filters env) (te_input env) cf)"

section \<open>The start of a capture\<close>

text \<open>The output of a capture with administrator rights.\<close>

definition open_output :: "tool_env \<Rightarrow> string \<Rightarrow> thread_data \<Rightarrow> thread_data" where
  "open_output env file data =
     (if file = ''-'' then
        data\<lparr>write_handle := (if te_stdout env then STD_OUTPUT else INVALID_HANDLE_VALUE),
          output_created := te_stdout env\<rparr>
      else if store_mode data = USBPCAP_STORE_MODE_ON_MATCH then
        data\<lparr>write_handle := INVALID_HANDLE_VALUE\<rparr>
      else
        data\<lparr>write_handle := (if te_create env file then OUTPUT_FILE else INVALID_HANDLE_VALUE),
          output_created := te_create env file\<rparr>)"

text \<open>
  The checks and the start: the configuration the capture runs with, Inl is the return before.
\<close>

definition prepare_capture :: "config \<Rightarrow> int + config" where
  "prepare_capture cf =
     (if \<not> cf_capture_all cf \<and> \<not> capture_new (cf_thread cf) \<and> cf_address_list cf = None then Inl (-1)
      else (case USBPcapInitAddressFilter (Some (td_filter (cf_thread cf))) (cf_address_list cf)
                   (if cf_capture_all cf then 1 else 0) of
              (Some flt, True) \<Rightarrow> Inr (upd_thread (td_filter_update (\<lambda>_. flt)) cf)
            | _ \<Rightarrow> Inl (-1)))"

definition run_capture :: "tool_env \<Rightarrow> config \<Rightarrow> (config \<times> thread_data option) option" where
  "run_capture env cf =
     (if te_elevated env then
        (let cf' = upd_thread (open_output env (the (cf_filename cf))) cf in
         Some (cf', Some (te_capture env cf')))
      else (case te_worker_ok env of (path_ok, name_ok, pipe_ok, line_ok) \<Rightarrow>
        map_option (\<lambda>line. (cf, te_worker env line cf))
          (generate_worker_command_line path_ok name_ok pipe_ok line_ok cf)))"

definition capture_exit :: "tool_env \<Rightarrow> config \<Rightarrow> thread_data \<Rightarrow> thread_data \<times> int" where
  "capture_exit env cf data =
     (let data' = (if \<not> output_created data \<and> cf_filename cf \<noteq> None \<and> cf_filename cf \<noteq> Some ''-'' \<and>
            te_file_exists env (the (cf_filename cf))
          then data\<lparr>output_created := True\<rparr> else data) in
      (data', if output_created data' \<or> store_mode data' = USBPCAP_STORE_MODE_IMMEDIATE then 0 else 1))"

text \<open>The result: the configuration after the capture, the returned value and, when a capture
  was started, the configuration it was started with. None is the end of the process in
  swprintf_s.\<close>

definition start_capture :: "tool_env \<Rightarrow> config \<Rightarrow> (config \<times> int \<times> config option) option" where
  "start_capture env cf =
     (case prepare_capture cf of
        Inl ret \<Rightarrow> Some (cf, ret, None)
      | Inr cf1 \<Rightarrow>
          (case run_capture env cf1 of
             None \<Rightarrow> None
           | Some (cf2, None) \<Rightarrow> Some (cf2, -1, Some cf2)
           | Some (cf2, Some data) \<Rightarrow>
               (case capture_exit env cf2 data of
                  (data', ret) \<Rightarrow> Some (cf2\<lparr>cf_thread := data'\<rparr>, ret, Some cf2))))"

section \<open>The commands of Wireshark\<close>

definition print_extcap_version :: string where
  "print_extcap_version =
     ''extcap {version=1.5.4.0}{help=http://desowin.org/usbpcap/}'' @ newline"

definition print_extcap_interfaces :: "string list \<Rightarrow> string" where
  "print_extcap_interfaces filters =
     concat (map (\<lambda>device. ''interface {value='' @ device @ ''}{display='' @ display_name_of device @
       ''}'' @ newline) filters)"

definition print_extcap_dlts :: string where
  "print_extcap_dlts = ''dlt {number=249}{name=USBPCAP}{display=USBPcap}'' @ newline"

definition print_extcap_options :: "tool_env \<Rightarrow> string option \<Rightarrow> string \<times> int" where
  "print_extcap_options env device =
     (case device of
        None \<Rightarrow> ([], -1)
      | Some d \<Rightarrow>
          (''arg {number=0}{call=--snaplen}{display=Snapshot length}{tooltip=Snapshot length}'' @
           ''{type=unsigned}{default=65535}'' @ newline @
           ''arg {number=1}{call=--bufferlen}{display=Capture buffer length}'' @
           ''{tooltip=USBPcap kernel-mode capture buffer length in bytes}'' @
           ''{type=integer}{range=0,134217728}{default=1048576}'' @ newline @
           ''arg {number=2}{call=--capture-from-all-devices}'' @
           ''{display=Capture from all devices connected}'' @
           ''{tooltip=Capture from all devices connected despite other options}'' @
           ''{type=boolflag}{default=true}'' @ newline @
           ''arg {number=3}{call=--capture-from-new-devices}'' @
           ''{display=Capture from newly connected devices}'' @
           ''{tooltip=Automatically start capture on all newly connected devices}'' @
           ''{type=boolflag}{default=true}'' @ newline @
           ''arg {number=4}{call=--inject-descriptors}'' @
           ''{display=Inject already connected devices descriptors into capture data}'' @
           ''{type=boolflag}{default=true}'' @ newline @
           ''arg {number=99}{call=--devices}{display=Attached USB Devices}'' @
           ''{tooltip=Select individual devices to capture from}{type=multicheck}'' @ newline @
           te_extcap_config env d, 0))"

record main_result =
  mr_out :: string
  mr_ret :: int
  mr_captured :: "config option"

definition cmd_extcap :: "tool_env \<Rightarrow> (string \<Rightarrow> int) \<Rightarrow> config \<Rightarrow> main_result option" where
  "cmd_extcap env vars cf =
     (let out1 = (if do_extcap_version cf then print_extcap_version else []);
          ret1 = (if do_extcap_version cf then 0 else -1);
          out2 = out1 @ (if vars ''do_extcap_interfaces'' \<noteq> 0 then print_extcap_interfaces (te_filters env) else []);
          ret2 = (if vars ''do_extcap_interfaces'' \<noteq> 0 then 0 else ret1);
          out3 = out2 @ (if vars ''do_extcap_dlts'' \<noteq> 0 then print_extcap_dlts else []);
          ret3 = (if vars ''do_extcap_dlts'' \<noteq> 0 then 0 else ret2);
          options = print_extcap_options env (extcap_interface cf);
          out4 = out3 @ (if vars ''do_extcap_config'' \<noteq> 0 then fst options else []);
          ret4 = (if vars ''do_extcap_config'' \<noteq> 0 then snd options else ret3) in
      if vars ''do_extcap_capture'' \<noteq> 0 then
        (if extcap_fifo cf = None \<or> extcap_interface cf = None
         then Some \<lparr>mr_out = out4, mr_ret = -1, mr_captured = None\<rparr>
         else map_option
           (\<lambda>(cf', ret, started). \<lparr>mr_out = out4, mr_ret = (if ret = 1 then 0 else ret), mr_captured = started\<rparr>)
           (start_capture env (upd_thread (\<lambda>d. d\<lparr>process := True, write_handle := INVALID_HANDLE_VALUE\<rparr>)
             (cf\<lparr>cf_device := extcap_interface cf, cf_filename := extcap_fifo cf\<rparr>))))
      else Some \<lparr>mr_out = out4, mr_ret = ret4, mr_captured = None\<rparr>)"

section \<open>The main function\<close>

text \<open>
  Everything after the options (and after the ids are copied to the application filter). The
  first two steps choose the interface and the addresses; an error returns its JSON text.
\<close>

definition error_text :: "bool \<Rightarrow> string \<Rightarrow> string \<Rightarrow> string \<Rightarrow> string" where
  "error_text json code message hint = (if json then print_json_error code message (Some hint) else [])"

definition choose_interface ::
  "tool_env \<Rightarrow> config \<Rightarrow> (string + config \<times> match_list) option" where
  "choose_interface env cf =
     (if auto_interface cf \<and> cf_device cf = None then
        (if \<not> has_vendor cf \<and> \<not> has_product cf then
           Some (Inl (error_text (json_output cf) ''AUTO_INTERFACE_REQUIRES_FILTER''
             ''--auto-interface requires --vendor-id or --product-id.''
             ''Specify --vendor-id first, or pass --device explicitly.''))
         else (case auto_select_interface (te_calloc env) (te_malloc env) (te_collect env)
                    (map (interface_of env) (te_filters env)) (has_vendor cf) (cf_vendor cf)
                    (has_product cf) (cf_product cf) of
                 None \<Rightarrow> None
               | Some (st, False) \<Rightarrow>
                   Some (Inl (error_text (json_output cf) ''AUTO_INTERFACE_NOT_UNIQUE''
                     ''Unable to auto-select a unique USBPcap interface for the requested VID/PID.''
                     ''Run USBPcapCap.exe --list-interfaces --json and USBPcapCap.exe --list-devices --device <name> --json.''))
               | Some (st, True) \<Rightarrow> Some (Inr (cf\<lparr>cf_device := au_device st\<rparr>, au_matches st))))
      else Some (Inr (cf, no_matches)))"

definition choose_addresses ::
  "tool_env \<Rightarrow> config \<Rightarrow> match_list \<Rightarrow> (string + config \<times> match_list) option" where
  "choose_addresses env cf matches =
     (if cf_device cf \<noteq> None \<and> (has_vendor cf \<or> has_product cf) \<and> items matches = [] then
        (case resolve_filter_matches (te_calloc env) (te_malloc env) (te_collect env)
                (map_option (interface_of env) (cf_device cf)) (has_vendor cf) (cf_vendor cf)
                (has_product cf) (cf_product cf) of
           None \<Rightarrow> None
         | Some (m, False) \<Rightarrow>
             Some (Inl (error_text (json_output cf) ''ENUMERATION_FAILED''
               ''Failed to enumerate connected USB devices.''
               ''Verify that the USBPcap driver is installed and the selected interface exists.''))
         | Some (m, True) \<Rightarrow>
             if items m = [] then
               Some (Inl (error_text (json_output cf) ''NO_MATCHED_DEVICE''
                 ''No connected USB device matched the requested VID/PID.''
                 ''Run USBPcapCap.exe --list-devices --device <name> --json to inspect current devices.''))
             else Some (Inr (cf\<lparr>cf_address_list := address_list m\<rparr>, m)))
      else Some (Inr (cf, matches)))"

text \<open>The questions, or the error, when the device or the file name is missing.\<close>

definition complete_arguments :: "tool_env \<Rightarrow> config \<Rightarrow> (string \<times> int \<times> config) option" where
  "complete_arguments env cf =
     (if cf_filename cf = None \<or> cf_device cf = None then
        (if no_interactive cf then
           Some (error_text (json_output cf) ''MISSING_REQUIRED_ARGUMENT''
             ''Capture mode requires both --device and --output unless discovery mode is used.''
             ''Use --list-interfaces / --list-devices first, or omit --no-interactive to use interactive mode.'',
             -1, cf)
         else map_option (\<lambda>(ret, cf'). ([], ret, cf'))
                (cmd_interactive env (cf\<lparr>cf_filename := None, cf_device := None\<rparr>)))
      else Some ([], 0, cf))"

text \<open>The answer in JSON, printed from the thread data and the matches.\<close>

definition capture_answer :: "config \<Rightarrow> match_list \<Rightarrow> string" where
  "capture_answer cf matches =
     (let data = cf_thread cf in
      ''{'' @ key ''ok'' @ ''true,'' @ key ''storeMode'' @
      json_print_escaped (Some (if store_mode data = USBPCAP_STORE_MODE_ON_MATCH then ''on-match'' else ''immediate'')) @
      '','' @ key ''triggered'' @ true_false (triggered data) @ '','' @ key ''output'' @
      (if output_created data \<and> cf_filename cf \<noteq> None then json_print_escaped (cf_filename cf) else ''null'') @
      '','' @ key ''droppedPackets'' @ dec (unat (dropped_packets data)) @
      '','' @ key ''matchedDevices'' @ ''['' @
      separated (map (\<lambda>m.
        ''{'' @ key ''interface'' @ json_print_escaped (cf_device cf) @
        '','' @ key ''address'' @ dec (unat (mi_address m)) @
        '','' @ key ''vendorId'' @ quoted_id (mi_vendor m) @
        '','' @ key ''productId'' @ quoted_id (mi_product m) @ ''}'') (items matches)) @ '']'' @
      (if store_mode data = USBPCAP_STORE_MODE_ON_MATCH \<and> \<not> triggered data
       then '','' @ key ''reason'' @ json_print_escaped (Some ''No packet matched trigger conditions before capture ended.'')
       else []) @ ''}'' @ newline)"

text \<open>What the main function says about a capture that has ended.\<close>

definition settle_triggered :: "thread_data \<Rightarrow> thread_data" where
  "settle_triggered data =
     (let data1 = (if store_mode data = USBPCAP_STORE_MODE_IMMEDIATE then data\<lparr>triggered := True\<rparr> else data) in
      if store_mode data1 = USBPCAP_STORE_MODE_ON_MATCH \<and> \<not> triggered data1 \<and> output_created data1
      then data1\<lparr>triggered := True\<rparr> else data1)"

definition main_capture :: "tool_env \<Rightarrow> config \<Rightarrow> match_list \<Rightarrow> main_result option" where
  "main_capture env cf0 matches =
     (let (data, ok) = populate_device_metadata (te_collect env) (cf_thread cf0)
            (map_option (interface_of env) (cf_device cf0));
          data1 = (if ok then data else data\<lparr>metadata := replicate 128 no_metadata\<rparr>);
          cf = cf0\<lparr>cf_thread := data1\<lparr>process := True\<rparr>\<rparr> in
      map_option (\<lambda>(cf', capture_ret, started).
          let ended = upd_thread settle_triggered cf' in
          \<lparr>mr_out = (if json_output cf then capture_answer ended matches else []),
           mr_ret = (if capture_ret = 1 \<and> store_mode (cf_thread cf') = USBPCAP_STORE_MODE_ON_MATCH then 0
             else capture_ret),
           mr_captured = started\<rparr>)
        (start_capture env cf))"

definition capture_command :: "tool_env \<Rightarrow> config \<Rightarrow> main_result option" where
  "capture_command env cf =
     (case choose_interface env cf of
        None \<Rightarrow> None
      | Some (Inl err) \<Rightarrow> Some \<lparr>mr_out = err, mr_ret = -1, mr_captured = None\<rparr>
      | Some (Inr (cf1, matches1)) \<Rightarrow>
          (case choose_addresses env cf1 matches1 of
             None \<Rightarrow> None
           | Some (Inl err) \<Rightarrow> Some \<lparr>mr_out = err, mr_ret = -1, mr_captured = None\<rparr>
           | Some (Inr (cf2, matches)) \<Rightarrow>
               (case complete_arguments env cf2 of
                  None \<Rightarrow> None
                | Some (text, ret, cf3) \<Rightarrow>
                    if ret \<noteq> 0 then Some \<lparr>mr_out = text, mr_ret = ret, mr_captured = None\<rparr>
                    else main_capture env cf3 matches)))"

definition is_extcap :: "(string \<Rightarrow> int) \<Rightarrow> config \<Rightarrow> bool" where
  "is_extcap vars cf \<longleftrightarrow> run_as_extcap cf \<or> do_extcap_version cf \<or> vars ''do_extcap_interfaces'' \<noteq> 0 \<or>
     vars ''do_extcap_dlts'' \<noteq> 0 \<or> vars ''do_extcap_config'' \<noteq> 0 \<or> vars ''do_extcap_capture'' \<noteq> 0"

definition run_command :: "tool_env \<Rightarrow> (string \<Rightarrow> int) \<Rightarrow> config \<Rightarrow> main_result option" where
  "run_command env vars cf =
     (let printed = (\<lambda>(text, ret). Some \<lparr>mr_out = text, mr_ret = ret, mr_captured = None\<rparr>) in
      if is_extcap vars cf then cmd_extcap env vars cf
      else if list_interfaces_flag cf then
        printed (list_interfaces (map (interface_of env) (te_filters env)) (json_output cf))
      else if list_devices_flag cf then
        (if cf_device cf \<noteq> None
         then printed (list_devices (te_collect env) (map_option (interface_of env) (cf_device cf)) (json_output cf))
         else printed (list_all_devices (te_collect env) (map (interface_of env) (te_filters env)) (json_output cf)))
      else capture_command env cf)"

text \<open>The whole program: options, then the command. None is an option loop without fuel, a question
  that is never answered, or the end of the process in a bounded print.\<close>

definition usbpcapcmd_main :: "tool_env \<Rightarrow> bool \<Rightarrow> nat \<Rightarrow> thread_data \<Rightarrow> string list \<Rightarrow> main_result option" where
  "usbpcapcmd_main env posixly fuel junk args =
     (case parse_options posixly fuel junk args of
        None \<Rightarrow> None
      | Some (Inl ret, vars) \<Rightarrow> Some \<lparr>mr_out = [], mr_ret = ret, mr_captured = None\<rparr>
      | Some (Inr cf, vars) \<Rightarrow> run_command env vars cf)"

end
