(* ===== verification/WorkerOptions.thy ===== *)
theory WorkerOptions
  imports WorkerCommand
begin

text \<open>
  The configuration that the elevated worker reads from its command line: the round trip from
  a configuration to the line, its words, the option parser and the loop over the options.
\<close>

section \<open>Configurations that come from options\<close>

text \<open>
  The members of the filter that are not in use are zero, an endpoint or a transfer type turns
  the filter on, and the buffer length is in its range.
\<close>

definition filter_normal :: "app_capture_filter \<Rightarrow> bool" where
  "filter_normal f \<longleftrightarrow>
     (\<not> has_vendor_id f \<longrightarrow> flt_vendor_id f = 0) \<and> (\<not> has_product_id f \<longrightarrow> flt_product_id f = 0) \<and>
     (\<not> has_endpoint f \<longrightarrow> flt_endpoint f = 0) \<and> (\<not> has_transfer_type f \<longrightarrow> flt_transfer_type f = 0) \<and>
     (has_endpoint f \<or> has_transfer_type f \<longrightarrow> enabled f) \<and>
     (has_transfer_type f \<longrightarrow> flt_transfer_type f \<in> {USBPCAP_TRANSFER_CONTROL, USBPCAP_TRANSFER_BULK,
        USBPCAP_TRANSFER_INTERRUPT, USBPCAP_TRANSFER_ISOCHRONOUS, USBPCAP_TRANSFER_UNKNOWN})"

definition options_ok :: "thread_data \<Rightarrow> bool" where
  "options_ok d \<longleftrightarrow> filter_normal (app_filter d) \<and>
     4096 \<le> bufferlen d \<and> bufferlen d \<le> 134217728 \<and> td_snaplen d \<noteq> 0 \<and>
     store_mode d \<in> {USBPCAP_STORE_MODE_IMMEDIATE, USBPCAP_STORE_MODE_ON_MATCH}"

text \<open>Before the ids are copied the filter has none.\<close>

definition loop_ok :: "thread_data \<Rightarrow> bool" where
  "loop_ok d \<longleftrightarrow> options_ok d \<and> \<not> has_vendor_id (app_filter d) \<and> \<not> has_product_id (app_filter d)"

lemma parse_transfer_range:
  "parse_transfer_type arg = Some t \<Longrightarrow> t \<in> {USBPCAP_TRANSFER_CONTROL, USBPCAP_TRANSFER_BULK,
     USBPCAP_TRANSFER_INTERRUPT, USBPCAP_TRANSFER_ISOCHRONOUS, USBPCAP_TRANSFER_UNKNOWN}"
  by (auto simp: parse_transfer_type_def split: option.splits if_splits)

lemma initial_loop_ok: "loop_ok (cf_thread (initial_config junk))"
  by (simp add: loop_ok_def options_ok_def initial_config_def no_filter_def filter_normal_def)

lemma loop_ok_members:
  "loop_ok d \<Longrightarrow> v \<noteq> 0 \<Longrightarrow> loop_ok (d\<lparr>td_snaplen := v\<rparr>)"
  "loop_ok d \<Longrightarrow> \<not> v < 4096 \<Longrightarrow> \<not> 134217728 < v \<Longrightarrow> loop_ok (d\<lparr>bufferlen := v\<rparr>)"
  "loop_ok d \<Longrightarrow> loop_ok (d\<lparr>capture_new := b\<rparr>)"
  "loop_ok d \<Longrightarrow> m = 0 \<or> m = 1 \<Longrightarrow> loop_ok (d\<lparr>store_mode := m\<rparr>)"
  by (auto simp: loop_ok_def options_ok_def)

lemma loop_ok_filter:
  "loop_ok d \<Longrightarrow> loop_ok (app_filter_update (enabled_update (\<lambda>_. True)) d)"
  "loop_ok d \<Longrightarrow> loop_ok (app_filter_update (\<lambda>f. f\<lparr>enabled := True, has_endpoint := True, flt_endpoint := e\<rparr>) d)"
  "loop_ok d \<Longrightarrow> parse_transfer_type arg = Some t \<Longrightarrow>
     loop_ok (app_filter_update (\<lambda>f. f\<lparr>enabled := True, has_transfer_type := True, flt_transfer_type := t\<rparr>) d)"
  using parse_transfer_range [of arg t]
  by (auto simp: loop_ok_def options_ok_def filter_normal_def)

lemma process_option_ok:
  assumes "process_option c arg cf = Inr cf'" and "loop_ok (cf_thread cf)"
  shows "loop_ok (cf_thread cf')"
  using assms unfolding process_option_def
  by (auto split: if_split_asm option.split_asm intro!: loop_ok_members loop_ok_filter)

lemma option_loop_ok:
  "option_loop p fuel s cf = Some (Inr cf', s') \<Longrightarrow> loop_ok (cf_thread cf) \<Longrightarrow> loop_ok (cf_thread cf')"
proof (induction fuel arbitrary: s cf)
  case (Suc fuel)
  then show ?case
    by (auto split: prod.splits if_splits sum.splits dest: process_option_ok)
qed simp

lemma apply_ids_ok: "loop_ok (cf_thread cf) \<Longrightarrow> options_ok (cf_thread (apply_ids cf))"
  by (cases "has_vendor cf"; cases "has_product cf")
     (auto simp: loop_ok_def options_ok_def apply_ids_def filter_normal_def Let_def)

lemma parse_options_ok:
  assumes "parse_options p fuel junk args = Some (Inr cf, vars)"
  shows "options_ok (cf_thread cf)"
proof -
  obtain r s where r: "option_loop p fuel (getopt_init args) (initial_config junk) = Some (r, s)"
    "(case r of Inl ret \<Rightarrow> Inl ret | Inr cf \<Rightarrow> Inr (apply_ids cf)) = (Inr cf :: int + config)"
    using assms by (auto simp: parse_options_def)
  then obtain cf0 where "r = Inr cf0" "cf = apply_ids cf0" by (cases r) simp_all
  then show ?thesis using r(1) option_loop_ok [OF _ initial_loop_ok] apply_ids_ok by blast
qed

section \<open>The long options of the line\<close>

lemma found_options:
  "find_option long_options ''devices'' = Some (10, opt ''devices'' required_argument ARG_DEVICES)"
  "find_option long_options ''capture-from-all-devices'' = Some (22, opt ''capture-from-all-devices'' no_argument 65)"
  "find_option long_options ''capture-from-new-devices'' =
     Some (23, opt ''capture-from-new-devices'' no_argument ARG_CAPTURE_FROM_NEW_DEVICES)"
  "find_option long_options ''inject-descriptors'' = Some (24, opt ''inject-descriptors'' no_argument ARG_INJECT_DESCRIPTORS)"
  "find_option long_options ''duration'' = Some (16, opt ''duration'' required_argument ARG_DURATION)"
  "find_option long_options ''app-filter'' = Some (18, opt ''app-filter'' no_argument ARG_APP_FILTER)"
  "find_option long_options ''vendor-id'' = Some (11, opt ''vendor-id'' required_argument ARG_VENDOR_ID)"
  "find_option long_options ''product-id'' = Some (13, opt ''product-id'' required_argument ARG_PRODUCT_ID)"
  "find_option long_options ''endpoint'' = Some (19, opt ''endpoint'' required_argument ARG_ENDPOINT)"
  "find_option long_options ''transfer-type'' = Some (20, opt ''transfer-type'' required_argument ARG_TRANSFER_TYPE)"
  "find_option long_options ''store-mode'' = Some (21, opt ''store-mode'' required_argument ARG_STORE_MODE)"
  "find_option long_options ''no-interactive'' = Some (17, opt ''no-interactive'' no_argument ARG_NO_INTERACTIVE)"
  by (simp_all add: find_option_def long_options_def)

lemma leads_optional':
  "(b \<Longrightarrow> leads p (toks @ rest) rest cf cf') \<Longrightarrow> (\<not> b \<Longrightarrow> cf' = cf) \<Longrightarrow>
     leads p ((if b then toks else []) @ rest) rest cf cf'"
  by (simp add: leads_refl)

lemma atoi_dec: "n < 2 ^ 31 \<Longrightarrow> c_atoi (dec n) = int n"
proof -
  assume n: "n < 2 ^ 31"
  obtain c cs where c: "dec n = c # cs" "isdigit c" using dec_head by blast
  have "takeWhile isdigit cs = cs" using dec_digits [of n] c(1) by (auto simp: takeWhile_eq_all_conv)
  then have "c_atoi (dec n) = min INT_MAX (dec_val (dec n))" unfolding c(1) atoi_on_digit [OF c(2)] by (simp only:)
  then show ?thesis using n by simp
qed

lemma atol32_dec: "w < 2 ^ 31 \<Longrightarrow> atol32 (Some (dec (unat w))) = (w :: u32)"
proof -
  assume "w < 2 ^ 31"
  then have "unat w < 2 ^ 31" by (simp add: word_less_nat_alt)
  then show ?thesis by (simp add: atoi_dec)
qed

lemma unat_byte16: "unat (ucast w :: u16) = unat (w :: u8)"
proof -
  have "unat w < 65536" using unsigned_less [of w, where 'a = nat] by simp
  then show ?thesis by (simp add: unsigned_ucast_eq take_bit_nat_eq_self)
qed

lemma byte16_back: "ucast (ucast w :: u16) = (w :: u8)"
proof -
  have "unat (ucast v :: u8) = unat v mod 256" for v :: u16
    by (simp add: unsigned_ucast_eq unsigned_take_bit_eq take_bit_eq_mod)
  then have "unat (ucast (ucast w :: u16) :: u8) = unat (ucast w :: u16) mod 256" by blast
  also have "\<dots> = unat w"
    unfolding unat_byte16 using unsigned_less [of w, where 'a = nat] by simp
  finally have "unat (ucast (ucast w :: u16) :: u8) = unat w" .
  then show ?thesis by (simp only: word_unat_eq_iff)
qed

section \<open>The round trip\<close>

text \<open>The configuration after the options of the line, option by option.\<close>

lemma worker_tokens_lead:
  fixes cf :: config and junk :: thread_data and out_name :: string and p :: bool
  defines "d \<equiv> cf_thread cf" and "f \<equiv> app_filter (cf_thread cf)"
  assumes ok: "options_ok (cf_thread cf)" and snap: "td_snaplen (cf_thread cf) < 2 ^ 31"
  defines "c1 \<equiv> (initial_config junk)\<lparr>cf_device := Some (the (cf_device cf))\<rparr>"
  defines "c2 \<equiv> upd_thread (bufferlen_update (\<lambda>_. bufferlen d)) c1"
  defines "c3 \<equiv> c2\<lparr>cf_filename := Some out_name\<rparr>"
  defines "c4 \<equiv> upd_thread (td_snaplen_update (\<lambda>_. td_snaplen d)) c3"
  defines "c5 \<equiv> c4\<lparr>cf_address_list := cf_address_list cf\<rparr>"
  defines "c6 \<equiv> c5\<lparr>cf_capture_all := cf_capture_all cf\<rparr>"
  defines "c7 \<equiv> upd_thread (capture_new_update (\<lambda>_. capture_new d)) c6"
  defines "c8 \<equiv> c7\<lparr>cf_inject := cf_inject cf\<rparr>"
  defines "c9 \<equiv> c8\<lparr>cf_duration := cf_duration cf\<rparr>"
  defines "c10 \<equiv> upd_filter (enabled_update (\<lambda>_. enabled f)) c9"
  defines "c11 \<equiv> c10\<lparr>cf_vendor := flt_vendor_id f, has_vendor := has_vendor_id f\<rparr>"
  defines "c12 \<equiv> c11\<lparr>cf_product := flt_product_id f, has_product := has_product_id f\<rparr>"
  defines "c13 \<equiv> upd_filter (\<lambda>g. g\<lparr>has_endpoint := has_endpoint f, flt_endpoint := flt_endpoint f\<rparr>) c12"
  defines "c14 \<equiv> upd_filter (\<lambda>g. g\<lparr>has_transfer_type := has_transfer_type f,
    flt_transfer_type := flt_transfer_type f\<rparr>) c13"
  defines "c15 \<equiv> upd_thread (store_mode_update (\<lambda>_. store_mode d)) c14"
  defines "c16 \<equiv> c15\<lparr>no_interactive := True\<rparr>"
  shows "leads p (worker_tokens cf out_name) [] (initial_config junk) c16"
proof -
  note configs = c1_def c2_def c3_def c4_def c5_def c6_def c7_def c8_def c9_def c10_def c11_def c12_def
    c13_def c14_def c15_def c16_def initial_config_def no_filter_def
  have normal: "filter_normal f" "4096 \<le> bufferlen d" "bufferlen d \<le> 134217728" "td_snaplen d \<noteq> 0"
    "store_mode d = 0 \<or> store_mode d = 1"
    using ok by (auto simp: options_ok_def d_def f_def)
  have buf: "bufferlen d < 2 ^ 31" using normal(3) by (rule le_less_trans) simp
  have s1: "leads p (''-d'' # the (cf_device cf) # rest) rest (initial_config junk) c1" for rest
    by (rule leads_short [of "CHR ''d''", simplified]) (simp_all add: char_code_def process_option_def c1_def)
  have s2: "leads p (''-b'' # dec (unat (bufferlen d)) # rest) rest c1 c2" for rest
    using normal(2,3) atol32_dec [OF buf]
    by (intro leads_short [of "CHR ''b''", simplified]) (simp_all add: char_code_def process_option_def c2_def not_less)
  have s3: "leads p (''-o'' # out_name # rest) rest c2 c3" for rest
    by (rule leads_short [of "CHR ''o''", simplified]) (simp_all add: char_code_def process_option_def c3_def)
  have s4: "leads p ((if td_snaplen d \<noteq> 65535 then [''-s'', dec (unat (td_snaplen d))] else []) @ rest) rest c3 c4" for rest
  proof (rule leads_optional')
    show "leads p ([''-s'', dec (unat (td_snaplen d))] @ rest) rest c3 c4"
      using normal(4) atol32_dec [OF snap] leads_short [of "CHR ''s''" "dec (unat (td_snaplen d))" c3 c4 p rest]
      by (simp add: char_code_def process_option_def c4_def d_def)
  qed (simp add: configs)
  have s5: "leads p ((if cf_address_list cf \<noteq> None then [''--devices'', the (cf_address_list cf)] else []) @ rest) rest c4 c5" for rest
  proof (rule leads_optional')
    assume "cf_address_list cf \<noteq> None"
    then show "leads p ([''--devices'', the (cf_address_list cf)] @ rest) rest c4 c5"
      using leads_argument [OF found_options(1), of "the (cf_address_list cf)" c4 c5 p rest]
      by (simp add: process_option_def c5_def)
  qed (simp add: configs)
  have s6: "leads p ((if cf_capture_all cf then [''--capture-from-all-devices''] else []) @ rest) rest c5 c6" for rest
    by (rule leads_optional', use leads_flag [OF found_options(2), of c5 c6 p rest] in
      \<open>simp add: process_option_def c6_def\<close>, simp add: configs)
  have s7: "leads p ((if capture_new d then [''--capture-from-new-devices''] else []) @ rest) rest c6 c7" for rest
    by (rule leads_optional', use leads_flag [OF found_options(3), of c6 c7 p rest] in
      \<open>simp add: process_option_def c7_def\<close>, simp add: configs)
  have s8: "leads p ((if cf_inject cf then [''--inject-descriptors''] else []) @ rest) rest c7 c8" for rest
    by (rule leads_optional', use leads_flag [OF found_options(4), of c7 c8 p rest] in
      \<open>simp add: process_option_def c8_def\<close>, simp add: configs)
  have s9: "leads p ((if cf_duration cf > 0 then [''--duration'', dec (unat (cf_duration cf))] else []) @ rest) rest c8 c9" for rest
    by (rule leads_optional', use leads_argument [OF found_options(5), of "dec (unat (cf_duration cf))" c8 c9 p rest] in
      \<open>simp add: process_option_def c9_def parse_u32_dec\<close>, simp add: configs word_gt_0)
  have s10: "leads p ((if enabled f then [''--app-filter''] else []) @ rest) rest c9 c10" for rest
    by (rule leads_optional', use leads_flag [OF found_options(6), of c9 c10 p rest] in
      \<open>simp add: process_option_def c10_def\<close>, simp add: configs)
  have s11: "leads p ((if has_vendor_id f then [''--vendor-id'', dec (unat (flt_vendor_id f))] else []) @ rest) rest c10 c11" for rest
    by (rule leads_optional', use leads_argument [OF found_options(7), of "dec (unat (flt_vendor_id f))" c10 c11 p rest] in
      \<open>simp add: process_option_def c11_def parse_u16_numbers\<close>, use normal(1) in \<open>simp add: configs filter_normal_def\<close>)
  have s12: "leads p ((if has_product_id f then [''--product-id'', dec (unat (flt_product_id f))] else []) @ rest) rest c11 c12" for rest
    by (rule leads_optional', use leads_argument [OF found_options(8), of "dec (unat (flt_product_id f))" c11 c12 p rest] in
      \<open>simp add: process_option_def c12_def parse_u16_numbers\<close>, use normal(1) in \<open>simp add: configs filter_normal_def\<close>)
  have byte: "parse_u16_value (Some (dec (unat (flt_endpoint f)))) = Some (ucast (flt_endpoint f))"
    using parse_u16_numbers(2) [of "ucast (flt_endpoint f) :: u16"] unfolding unat_byte16 .
  have small: "\<not> (ucast (flt_endpoint f) :: u16) > 0xFF"
    using unsigned_less [of "flt_endpoint f", where 'a = nat] unfolding word_less_nat_alt unat_byte16 by simp
  have on: "has_endpoint f \<Longrightarrow> enabled f" "has_transfer_type f \<Longrightarrow> enabled f"
    and off: "\<not> has_endpoint f \<Longrightarrow> flt_endpoint f = 0" "\<not> has_transfer_type f \<Longrightarrow> flt_transfer_type f = 0"
    and type: "has_transfer_type f \<Longrightarrow> parse_transfer_type (Some (transfer_type_to_text (flt_transfer_type f))) =
      Some (flt_transfer_type f)"
    using normal(1) parse_transfer_text by (auto simp: filter_normal_def)
  have s13: "leads p ((if has_endpoint f then [''--endpoint'', dec (unat (flt_endpoint f))] else []) @ rest) rest c12 c13" for rest
  proof (rule leads_optional')
    assume e: "has_endpoint f"
    have "process_option ARG_ENDPOINT (Some (dec (unat (flt_endpoint f)))) c12 = Inr c13"
      using e on(1) [OF e] small byte by (simp add: process_option_def configs o_def byte16_back)
    then show "leads p ([''--endpoint'', dec (unat (flt_endpoint f))] @ rest) rest c12 c13"
      using leads_argument [OF found_options(9), of "dec (unat (flt_endpoint f))" c12 c13 p rest] by simp
  qed (use off(1) in \<open>simp add: configs o_def\<close>)
  have s14: "leads p ((if has_transfer_type f
       then [''--transfer-type'', transfer_type_to_text (flt_transfer_type f)] else []) @ rest) rest c13 c14" for rest
  proof (rule leads_optional')
    assume e: "has_transfer_type f"
    have "process_option ARG_TRANSFER_TYPE (Some (transfer_type_to_text (flt_transfer_type f))) c13 = Inr c14"
      using e on(2) [OF e] type by (simp add: process_option_def configs o_def)
    then show "leads p ([''--transfer-type'', transfer_type_to_text (flt_transfer_type f)] @ rest) rest c13 c14"
      using leads_argument [OF found_options(10), of "transfer_type_to_text (flt_transfer_type f)" c13 c14 p rest] by simp
  qed (use off(2) in \<open>simp add: configs o_def\<close>)
  have s15: "leads p ((if store_mode d = USBPCAP_STORE_MODE_ON_MATCH then [''--store-mode'', ''on-match''] else []) @ rest)
      rest c14 c15" for rest
  proof (rule leads_optional')
    assume m: "store_mode d = USBPCAP_STORE_MODE_ON_MATCH"
    have "process_option ARG_STORE_MODE (Some ''on-match'') c14 = Inr c15"
      using m by (simp add: process_option_def c15_def stricmp_eq_def tolower_def)
    then show "leads p ([''--store-mode'', ''on-match''] @ rest) rest c14 c15"
      using leads_argument [OF found_options(11), of "''on-match''" c14 c15 p rest] by simp
  qed (use normal(5) in \<open>simp add: configs\<close>)
  have s16: "leads p [''--no-interactive''] [] c15 c16"
    using leads_flag [OF found_options(12), of c15 c16 p "[]"] by (simp add: process_option_def c16_def)
  have filter: "app_filter d = f" by (simp add: d_def f_def)
  show ?thesis
    unfolding worker_tokens_def Let_def d_def [symmetric] filter
    by (rule leads_trans [OF s1 leads_trans [OF s2 leads_trans [OF s3 leads_trans [OF s4 leads_trans [OF s5
    leads_trans [OF s6 leads_trans [OF s7 leads_trans [OF s8 leads_trans [OF s9 leads_trans [OF s10
    leads_trans [OF s11 leads_trans [OF s12 leads_trans [OF s13 leads_trans [OF s14 leads_trans [OF s15 s16]]]]]]]]]]]]]]])
qed

text \<open>What a capture takes from the configuration.\<close>

definition capture_settings :: "config \<Rightarrow> string option \<times> u32 \<times> u32 \<times> string option \<times> bool \<times> bool \<times> bool \<times>
    u32 \<times> app_capture_filter \<times> u32" where
  "capture_settings cf =
     (cf_device cf, bufferlen (cf_thread cf), td_snaplen (cf_thread cf), cf_address_list cf, cf_capture_all cf,
      capture_new (cf_thread cf), cf_inject cf, cf_duration cf, app_filter (cf_thread cf), store_mode (cf_thread cf))"

lemma worker_parses:
  assumes "options_ok (cf_thread cf)" and "td_snaplen (cf_thread cf) < 2 ^ 31"
    and "cf_device cf = Some device" "is_word device" "is_word out_name"
    and "\<forall>l. cf_address_list cf = Some l \<longrightarrow> is_word l"
    and "length (worker_tokens cf out_name) < fuel"
  shows "\<exists>cf'. parse_options p fuel junk (exe # words [] (concat (worker_pieces cf out_name))) = Some (Inr cf', \<lambda>v. 0) \<and>
    capture_settings cf' = capture_settings cf \<and> cf_filename cf' = Some out_name \<and> no_interactive cf'"
proof -
  have toks: "words [] (concat (worker_pieces cf out_name)) = worker_tokens cf out_name"
    using assms(3-6) by (intro words_worker_line) simp_all
  have zero: "\<not> has_vendor_id (app_filter (cf_thread cf)) \<Longrightarrow> flt_vendor_id (app_filter (cf_thread cf)) = 0"
    "\<not> has_product_id (app_filter (cf_thread cf)) \<Longrightarrow> flt_product_id (app_filter (cf_thread cf)) = 0"
    using assms(1) by (auto simp: options_ok_def filter_normal_def)
  note parsed = parse_options_leads [OF worker_tokens_lead [OF assms(1,2), of p out_name junk] assms(7), of exe]
  show ?thesis
    unfolding toks parsed
    by (intro exI conjI, rule refl)
       (use zero assms(3) in \<open>auto simp: capture_settings_def apply_ids_def initial_config_def no_filter_def Let_def
          intro!: app_capture_filter.equality\<close>)
qed


lemma sample_parsed:
  "parse_options False 5 sample_thread [''USBPcapCMD'', ''--vendor-id'', ''0x1234'', ''--inject-descriptors''] =
     Some (Inr (apply_ids ((initial_config sample_thread)\<lparr>cf_vendor := 0x1234, has_vendor := True, cf_inject := True\<rparr>)),
       \<lambda>v. 0)"
proof (rule parse_options_leads)
  have "hex_id 0x1234 = ''0x1234''" by code_simp
  then have v: "parse_u16_value (Some ''0x1234'') = Some 0x1234" using parse_u16_numbers(1) [of "0x1234"] by simp
  have "leads False [''--vendor-id'', ''0x1234'', ''--inject-descriptors''] [''--inject-descriptors'']
      (initial_config sample_thread) ((initial_config sample_thread)\<lparr>cf_vendor := 0x1234, has_vendor := True\<rparr>)"
    by (rule leads_argument [OF found_options(7), simplified]) (simp add: process_option_def v)
  moreover have "leads False [''--inject-descriptors''] [] ((initial_config sample_thread)\<lparr>cf_vendor := 0x1234, has_vendor := True\<rparr>)
      ((initial_config sample_thread)\<lparr>cf_vendor := 0x1234, has_vendor := True, cf_inject := True\<rparr>)"
    by (rule leads_flag [OF found_options(4), simplified]) (simp add: process_option_def)
  ultimately show "leads False [''--vendor-id'', ''0x1234'', ''--inject-descriptors''] [] (initial_config sample_thread)
      ((initial_config sample_thread)\<lparr>cf_vendor := 0x1234, has_vendor := True, cf_inject := True\<rparr>)"
    by (rule leads_trans)
qed simp

definition chosen_config :: config where
  "chosen_config = (apply_ids ((initial_config sample_thread)\<lparr>cf_vendor := 0x1234, has_vendor := True, cf_inject := True\<rparr>))
     \<lparr>cf_device := Some ''USBPcap1'', cf_address_list := Some ''2,5''\<rparr>"


end
