(* ===== verification/CommandMainSpec.thy ===== *)
theory CommandMainSpec
  imports CommandMain WorkerOptions
begin

text \<open>
  From the command line to the driver: what is true of every capture the tool starts, what its
  JSON answer says, what the interactive questions end with, and the captures it refuses.
\<close>

section \<open>Every capture that is started\<close>

definition selected_addresses :: "config \<Rightarrow> int set" where
  "selected_addresses cf =
     (if cf_capture_all cf then {0..127}
      else (case cf_address_list cf of None \<Rightarrow> {} | Some l \<Rightarrow> set (listed_addresses l) \<inter> {0..127}))"

text \<open>A configuration whose filter is made from its own selection.\<close>

definition capture_ready :: "config \<Rightarrow> bool" where
  "capture_ready c \<longleftrightarrow> filter_wf (td_filter (cf_thread c)) \<and>
     {a \<in> {0..127}. cmd_USBPcapIsDeviceFiltered (td_filter (cf_thread c)) a} = selected_addresses c \<and>
     (cf_capture_all c \<or> capture_new (cf_thread c) \<or> cf_address_list c \<noteq> None)"

lemma init_filter_none: "USBPcapInitAddressFilter (Some f) None fa = USBPcapInitAddressFilter (Some f) (Some []) fa"
  by (simp add: USBPcapInitAddressFilter_def init_address_loop.simps Let_def)

lemma init_filter_selects:
  assumes "USBPcapInitAddressFilter (Some f) l (if all then 1 else 0) = (Some flt, True)"
  shows "filter_wf flt \<and> {a \<in> {0..127}. cmd_USBPcapIsDeviceFiltered flt a} =
    (if all then {0..127} else (case l of None \<Rightarrow> {} | Some s \<Rightarrow> set (listed_addresses s) \<inter> {0..127}))"
proof -
  obtain s where s: "USBPcapInitAddressFilter (Some f) (Some s) (if all then 1 else 0) = (Some flt, True)"
    "(case l of None \<Rightarrow> {} | Some s \<Rightarrow> set (listed_addresses s) \<inter> {0..127}) = set (listed_addresses s) \<inter> {0..127}"
  proof (cases l)
    case None
    then show ?thesis
      using assms that [of "[]"] unfolding None init_filter_none by (simp add: listed_addresses_def)
  next
    case (Some s)
    then show ?thesis using assms that [of s] by simp
  qed
  show ?thesis
    using InitAddressFilter_correct [of f s "if all then 1 else 0"] s by (auto split: if_splits)
qed

lemma prepare_capture_ready:
  assumes "prepare_capture cf = Inr c"
  shows "capture_ready c \<and> (options_ok (cf_thread c) \<longleftrightarrow> options_ok (cf_thread cf))"
proof -
  obtain flt where flt: "USBPcapInitAddressFilter (Some (td_filter (cf_thread cf))) (cf_address_list cf)
      (if cf_capture_all cf then 1 else 0) = (Some flt, True)" "c = upd_thread (td_filter_update (\<lambda>_. flt)) cf"
    and sel: "cf_capture_all cf \<or> capture_new (cf_thread cf) \<or> cf_address_list cf \<noteq> None"
    using assms by (auto simp: prepare_capture_def split: if_splits prod.splits option.splits bool.splits)
  show ?thesis
    using init_filter_selects [OF flt(1)] sel
    by (simp add: flt(2) capture_ready_def selected_addresses_def options_ok_def)
qed

lemma start_capture_ready:
  assumes "start_capture env cf = Some (cf', ret, Some c)" and "options_ok (cf_thread cf)"
  shows "capture_ready c \<and> options_ok (cf_thread c)"
proof -
  obtain cf1 where 1: "prepare_capture cf = Inr cf1"
    using assms(1) by (auto simp: start_capture_def split: sum.splits)
  then obtain d where 2: "run_capture env cf1 = Some (c, d)"
    using assms(1) by (auto simp: start_capture_def split: option.splits prod.splits)
  have "c = cf1 \<or> c = upd_thread (open_output env (the (cf_filename cf1))) cf1"
    using 2 by (auto simp: run_capture_def Let_def split: if_splits prod.splits)
  moreover have "capture_ready cf1" "options_ok (cf_thread cf1)"
    using prepare_capture_ready [OF 1] assms(2) by blast+
  moreover have "td_filter (open_output env out d) = td_filter d" "capture_new (open_output env out d) = capture_new d"
    "options_ok (open_output env out d) = options_ok d" for out d
    by (simp_all add: open_output_def options_ok_def)
  ultimately show ?thesis by (auto simp: capture_ready_def selected_addresses_def)
qed

text \<open>None of the steps before the start changes the numbers of the options.\<close>

lemma choose_interface_thread:
  "choose_interface env cf = Some (Inr (cf', m)) \<Longrightarrow> cf_thread cf' = cf_thread cf"
  by (auto simp: choose_interface_def split: if_splits option.splits prod.splits bool.splits)

lemma choose_addresses_thread:
  "choose_addresses env cf m = Some (Inr (cf', m')) \<Longrightarrow> cf_thread cf' = cf_thread cf"
  by (auto simp: choose_addresses_def split: if_splits option.splits prod.splits bool.splits)

lemma cmd_interactive_thread:
  "cmd_interactive env cf = Some (ret, cf') \<Longrightarrow> cf_thread cf' = cf_thread cf"
  by (auto simp: cmd_interactive_def select_and_name_def Let_def split: if_splits option.splits prod.splits bool.splits)

lemma complete_arguments_thread:
  "complete_arguments env cf = Some (text', ret, cf') \<Longrightarrow> cf_thread cf' = cf_thread cf"
  by (auto simp: complete_arguments_def split: if_splits dest: cmd_interactive_thread)

text \<open>The thread data the main function starts a capture with.\<close>

definition started_thread :: "tool_env \<Rightarrow> config \<Rightarrow> thread_data" where
  "started_thread env cf =
     (let (d, ok) = populate_device_metadata (te_collect env) (cf_thread cf) (map_option (interface_of env) (cf_device cf)) in
      (if ok then d else d\<lparr>metadata := replicate 128 no_metadata\<rparr>)\<lparr>process := True\<rparr>)"

lemma main_capture_start:
  "main_capture env cf m =
     map_option (\<lambda>(cf', capture_ret, started).
         \<lparr>mr_out = (if json_output cf then capture_answer (upd_thread settle_triggered cf') m else []),
          mr_ret = (if capture_ret = 1 \<and> store_mode (cf_thread cf') = USBPCAP_STORE_MODE_ON_MATCH then 0 else capture_ret),
          mr_captured = started\<rparr>)
       (start_capture env (cf\<lparr>cf_thread := started_thread env cf\<rparr>))"
  by (simp add: main_capture_def started_thread_def Let_def case_prod_beta)

lemma started_thread_members:
  "options_ok (started_thread env cf) = options_ok (cf_thread cf)"
  "capture_new (started_thread env cf) = capture_new (cf_thread cf)"
proof -
  have "options_ok (fst (populate_device_metadata env d i)) = options_ok d"
    "capture_new (fst (populate_device_metadata env d i)) = capture_new d" for env d i
    by (auto simp: populate_device_metadata_def options_ok_def split: option.split prod.split bool.split)
  then show "options_ok (started_thread env cf) = options_ok (cf_thread cf)"
    "capture_new (started_thread env cf) = capture_new (cf_thread cf)"
    by (simp_all add: started_thread_def case_prod_beta Let_def options_ok_def)
qed

lemma main_capture_ready:
  assumes "main_capture env cf m = Some r" and "mr_captured r = Some c" and "options_ok (cf_thread cf)"
  shows "capture_ready c \<and> options_ok (cf_thread c)"
proof -
  obtain cf' ret where "start_capture env (cf\<lparr>cf_thread := started_thread env cf\<rparr>) = Some (cf', ret, Some c)"
    using assms(1,2) by (auto simp: main_capture_start)
  then show ?thesis using start_capture_ready assms(3) by (fastforce simp: started_thread_members)
qed

lemma run_command_ready:
  assumes "run_command env vars cf = Some r" and "mr_captured r = Some c" and "options_ok (cf_thread cf)"
  shows "capture_ready c \<and> options_ok (cf_thread c)"
proof (cases "is_extcap vars cf")
  case True
  then obtain d cf0 cf' ret where "start_capture env (cf0\<lparr>cf_thread := d\<rparr>) = Some (cf', ret, Some c)" "options_ok d"
    using assms by (auto simp: run_command_def cmd_extcap_def Let_def options_ok_def split: if_splits)
  then show ?thesis using start_capture_ready by fastforce
next
  case False
  then have cc: "capture_command env cf = Some r"
    using assms(1,2) by (auto simp: run_command_def Let_def split: if_splits prod.splits)
  then obtain cf1 m1 where 1: "choose_interface env cf = Some (Inr (cf1, m1))"
    using assms(2) by (auto simp: capture_command_def split: option.splits sum.splits)
  then obtain cf2 m2 where 2: "choose_addresses env cf1 m1 = Some (Inr (cf2, m2))"
    using assms(2) cc by (auto simp: capture_command_def split: option.splits sum.splits)
  then obtain text' ret cf3 where 3: "complete_arguments env cf2 = Some (text', ret, cf3)"
    using assms(2) cc 1 by (auto simp: capture_command_def split: option.splits prod.splits)
  then have "main_capture env cf3 m2 = Some r"
    using assms(2) cc 1 2 by (auto simp: capture_command_def split: if_splits)
  moreover have "cf_thread cf3 = cf_thread cf"
    using 1 2 3 choose_interface_thread choose_addresses_thread complete_arguments_thread by metis
  ultimately show ?thesis using main_capture_ready assms(2,3) by metis
qed


text \<open>A capture from all devices, with administrator rights.\<close>

definition sample_tool :: tool_env where
  "sample_tool =
     \<lparr>te_collect = sample_env, te_link = (\<lambda>d. if d = ''USBPcap1'' then Some ([], sample_hub) else None),
      te_filters = [''USBPcap1''], te_calloc = True, te_malloc = True, te_upper_filter = True,
      te_restarted = [], te_console = True, te_input = [], te_extcap_config = (\<lambda>d. []),
      te_elevated = True, te_stdout = True, te_create = (\<lambda>f. True), te_capture = cf_thread,
      te_worker_ok = (True, True, True, True), te_worker = (\<lambda>line cf. Some (cf_thread cf)),
      te_file_exists = (\<lambda>f. False)\<rparr>"

abbreviation all_args :: "string list" where
  "all_args \<equiv> [''USBPcapCMD'', ''-d'', ''USBPcap1'', ''-o'', ''out.pcap'', ''--capture-from-all-devices'']"

lemma all_args_parsed:
  "parse_options False 9 sample_thread all_args = Some (Inr (apply_ids ((initial_config sample_thread)
     \<lparr>cf_device := Some ''USBPcap1'', cf_filename := Some ''out.pcap'', cf_capture_all := True\<rparr>)), \<lambda>v. 0)"
proof (rule parse_options_leads)
  let ?c1 = "(initial_config sample_thread)\<lparr>cf_device := Some ''USBPcap1''\<rparr>"
  let ?c2 = "?c1\<lparr>cf_filename := Some ''out.pcap''\<rparr>"
  have d: "leads False (''-d'' # ''USBPcap1'' # rest) rest (initial_config sample_thread) ?c1" for rest
    by (rule leads_short [of "CHR ''d''", simplified]) (simp_all add: char_code_def process_option_def)
  have out: "leads False (''-o'' # ''out.pcap'' # rest) rest ?c1 ?c2" for rest
    by (rule leads_short [of "CHR ''o''", simplified]) (simp_all add: char_code_def process_option_def)
  have all: "leads False [''--capture-from-all-devices''] [] ?c2 (?c2\<lparr>cf_capture_all := True\<rparr>)"
    by (rule leads_flag [OF found_options(2), simplified]) (simp add: process_option_def)
  show "leads False [''-d'', ''USBPcap1'', ''-o'', ''out.pcap'', ''--capture-from-all-devices''] [] (initial_config sample_thread) (?c2\<lparr>cf_capture_all := True\<rparr>)"
    using leads_trans [OF d leads_trans [OF out all]] by simp
qed simp

text \<open>With administrator rights a valid, non-empty selection is captured.\<close>

definition can_select :: "config \<Rightarrow> bool" where
  "can_select cf \<longleftrightarrow> (cf_capture_all cf \<or> capture_new (cf_thread cf) \<or> cf_address_list cf \<noteq> None) \<and>
     (\<forall>l. cf_address_list cf = Some l \<longrightarrow> valid_address_list l)"

lemma start_elevated:
  assumes "te_elevated env" and "can_select cf"
  shows "\<exists>cf' ret c. start_capture env cf = Some (cf', ret, Some c) \<and> cf_capture_all c = cf_capture_all cf \<and>
    capture_new (cf_thread c) = capture_new (cf_thread cf)"
proof -
  obtain s where s: "\<And>f fa. USBPcapInitAddressFilter (Some f) (cf_address_list cf) fa =
      USBPcapInitAddressFilter (Some f) (Some s) fa" "valid_address_list s"
  proof (cases "cf_address_list cf")
    case None
    then show ?thesis
      using that [of "[]"] init_filter_none by (simp add: valid_address_list_def)
  qed (use assms(2) that in \<open>simp add: can_select_def\<close>)
  obtain flt where "USBPcapInitAddressFilter (Some (td_filter (cf_thread cf))) (cf_address_list cf)
      (if cf_capture_all cf then 1 else 0) = (Some flt, True)"
    using InitAddressFilter_correct [of "td_filter (cf_thread cf)" s "if cf_capture_all cf then 1 else 0"] s by auto
  then have "prepare_capture cf = Inr (upd_thread (td_filter_update (\<lambda>_. flt)) cf)"
    using assms(2) by (auto simp: prepare_capture_def can_select_def)
  moreover have "capture_new (open_output env out d) = capture_new d" for out d by (simp add: open_output_def)
  ultimately show ?thesis
    using assms(1) by (simp add: start_capture_def run_capture_def Let_def split: prod.split)
qed

lemma main_elevated:
  assumes "te_elevated env" and "can_select cf"
  shows "\<exists>r c. main_capture env cf m = Some r \<and> mr_captured r = Some c \<and> cf_capture_all c = cf_capture_all cf \<and>
    capture_new (cf_thread c) = capture_new (cf_thread cf)"
proof -
  have "can_select (cf\<lparr>cf_thread := started_thread env cf\<rparr>)"
    using assms(2) by (simp add: can_select_def started_thread_members)
  then obtain cf' ret c where "start_capture env (cf\<lparr>cf_thread := started_thread env cf\<rparr>) = Some (cf', ret, Some c)"
    "cf_capture_all c = cf_capture_all cf" "capture_new (cf_thread c) = capture_new (started_thread env cf)"
    using start_elevated [OF assms(1)] by force
  then show ?thesis by (simp add: main_capture_start started_thread_members)
qed

lemma all_args_captured:
  "\<exists>r c. usbpcapcmd_main sample_tool False 9 sample_thread all_args = Some r \<and> mr_captured r = Some c \<and>
     cf_capture_all c \<and> \<not> capture_new (cf_thread c)"
proof -
  let ?cf = "apply_ids ((initial_config sample_thread)
     \<lparr>cf_device := Some ''USBPcap1'', cf_filename := Some ''out.pcap'', cf_capture_all := True\<rparr>)"
  have "usbpcapcmd_main sample_tool False 9 sample_thread all_args = main_capture sample_tool ?cf no_matches"
    unfolding usbpcapcmd_main_def all_args_parsed
    by (simp add: run_command_def is_extcap_def capture_command_def choose_interface_def choose_addresses_def
        complete_arguments_def apply_ids_def initial_config_def Let_def)
  moreover have "can_select ?cf" "cf_capture_all ?cf" "\<not> capture_new (cf_thread ?cf)"
    by (simp_all add: can_select_def apply_ids_def initial_config_def Let_def)
  moreover have "te_elevated sample_tool" by (simp add: sample_tool_def)
  ultimately show ?thesis using main_elevated by metis
qed


section \<open>The JSON answer\<close>

definition answer_json :: "config \<Rightarrow> match_list \<Rightarrow> json" where
  "answer_json cf matches =
     (let data = cf_thread cf; device = (case cf_device cf of None \<Rightarrow> [] | Some d \<Rightarrow> d) in
      JObject ([(''ok'', JBool True),
        (''storeMode'', JString (if store_mode data = USBPCAP_STORE_MODE_ON_MATCH then ''on-match'' else ''immediate'')),
        (''triggered'', JBool (triggered data)),
        (''output'', case cf_filename cf of Some out \<Rightarrow> if output_created data then JString out else JNull | None \<Rightarrow> JNull),
        (''droppedPackets'', JNumber (unat (dropped_packets data))),
        (''matchedDevices'', JArray (map (\<lambda>m. JObject [(''interface'', JString device),
           (''address'', JNumber (unat (mi_address m))), (''vendorId'', JString (hex_id (mi_vendor m))),
           (''productId'', JString (hex_id (mi_product m)))]) (items matches)))] @
        (if store_mode data = USBPCAP_STORE_MODE_ON_MATCH \<and> \<not> triggered data
         then [(''reason'', JString ''No packet matched trigger conditions before capture ended.'')] else [])))"

lemma answer_keys:
  "json_print_escaped (Some ''storeMode'') = quote # ''storeMode'' @ [quote]"
  "json_print_escaped (Some ''triggered'') = quote # ''triggered'' @ [quote]"
  "json_print_escaped (Some ''output'') = quote # ''output'' @ [quote]"
  "json_print_escaped (Some ''droppedPackets'') = quote # ''droppedPackets'' @ [quote]"
  "json_print_escaped (Some ''matchedDevices'') = quote # ''matchedDevices'' @ [quote]"
  "json_print_escaped (Some ''reason'') = quote # ''reason'' @ [quote]"
  by (rule plain_text, simp add: json_escape_def)+

lemma escaped_device:
  "json_print_escaped (Some (case d of None \<Rightarrow> [] | Some v \<Rightarrow> v)) = json_print_escaped d"
  by (cases d) (simp_all add: json_print_escaped_def)

lemma capture_answer_text: "capture_answer cf matches = json_text (answer_json cf matches) @ newline"
proof -
  let ?device = "case cf_device cf of None \<Rightarrow> [] | Some d \<Rightarrow> d"
  let ?json = "\<lambda>m. JObject [(''interface'', JString ?device), (''address'', JNumber (unat (mi_address m))),
    (''vendorId'', JString (hex_id (mi_vendor m))), (''productId'', JString (hex_id (mi_product m)))]"
  have matches: "separated (map (\<lambda>m. ''{'' @ key ''interface'' @ json_print_escaped (cf_device cf) @
        '','' @ key ''address'' @ dec (unat (mi_address m)) @
        '','' @ key ''vendorId'' @ quoted_id (mi_vendor m) @
        '','' @ key ''productId'' @ quoted_id (mi_product m) @ ''}'') (items matches)) = json_texts (map ?json (items matches))"
    by (rule separated_texts) (simp add: plain_keys hex_id_plain escaped_device)
  show ?thesis
    unfolding capture_answer_def Let_def matches answer_json_def
    by (cases "cf_filename cf"; cases "output_created (cf_thread cf)";
        cases "store_mode (cf_thread cf) = USBPCAP_STORE_MODE_ON_MATCH \<and> \<not> triggered (cf_thread cf)")
       (simp_all add: plain_keys answer_keys true_false_def)
qed

text \<open>The JSON answer of a capture, whatever characters the device and file names have, reads
  back to the store mode, whether the trigger was seen, the file that was made, the number of
  dropped packets and the matched devices, with a reason exactly when nothing matched.\<close>

theorem capture_answer_reads:
  "\<exists>t. capture_answer cf matches = t @ newline \<and> json_read t = Some (answer_json cf matches)"
  by (intro exI conjI, rule capture_answer_text, rule json_read_text)

section \<open>Captures by ids\<close>

lemma start_capture_selection:
  assumes "start_capture env cf = Some (cf', ret, Some c)"
  shows "selected_addresses c = selected_addresses cf"
proof -
  obtain cf1 where 1: "prepare_capture cf = Inr cf1"
    using assms by (auto simp: start_capture_def split: sum.splits)
  then obtain d where 2: "run_capture env cf1 = Some (c, d)"
    using assms by (auto simp: start_capture_def split: option.splits prod.splits)
  obtain flt where "cf1 = upd_thread (td_filter_update (\<lambda>_. flt)) cf"
    using 1 by (auto simp: prepare_capture_def split: if_splits prod.splits option.splits bool.splits)
  moreover have "c = cf1 \<or> c = upd_thread (open_output env (the (cf_filename cf1))) cf1"
    using 2 by (auto simp: run_capture_def Let_def split: if_splits prod.splits)
  ultimately show ?thesis by (auto simp: selected_addresses_def)
qed

lemma main_capture_selection:
  assumes "main_capture env cf m = Some r" and "mr_captured r = Some c"
  shows "selected_addresses c = selected_addresses cf"
proof -
  obtain cf' ret where "start_capture env (cf\<lparr>cf_thread := started_thread env cf\<rparr>) = Some (cf', ret, Some c)"
    using assms by (auto simp: main_capture_start)
  then show ?thesis using start_capture_selection by (fastforce simp: selected_addresses_def)
qed

text \<open>The capture command of a complete command line with ids and a device.\<close>

definition id_capture :: "(string \<Rightarrow> int) \<Rightarrow> config \<Rightarrow> bool" where
  "id_capture vars cf \<longleftrightarrow> \<not> is_extcap vars cf \<and> \<not> list_interfaces_flag cf \<and> \<not> list_devices_flag cf \<and>
     (has_vendor cf \<or> has_product cf) \<and> cf_filename cf \<noteq> None \<and> \<not> cf_capture_all cf"

lemma resolve_none:
  assumes "\<forall>n. ce_grow env n" and "selected hv v hp p h = {}"
  shows "resolve_filter_matches True True env (Some (device, Some (name, h))) hv v hp p = Some (no_matches, True)"
proof -
  have "matching env hv v hp p (Some (name, h)) = []"
    using matching_addresses [of env hv v hp p name h] assms(2) by simp
  then have none: "filter (id_match hv v hp p) (map (collected env) (enumerate_all_connected_devices (Some (name, h)))) = []"
    by (simp add: matching_def)
  show ?thesis
    unfolding resolve_filter_matches_def
    by (simp only: option.case prod.case connected_list [OF assms(1)] bool.case none Let_def) simp
qed


abbreviation id_config :: config where
  "id_config \<equiv> (initial_config sample_thread)
     \<lparr>cf_device := Some ''USBPcap1'', cf_filename := Some ''out.pcap'', cf_vendor := 0x46D, has_vendor := True\<rparr>"


section \<open>A capture that is never made\<close>

text \<open>
  The automatic choice of the interface leaves the matches with the interface, and the test for
  an empty list of matches then skips the step that would copy their addresses.
\<close>


abbreviation auto_config :: config where
  "auto_config \<equiv> id_config\<lparr>cf_device := None, auto_interface := True, json_output := True\<rparr>"


section \<open>The interactive questions\<close>

text \<open>The lines that answer the question for the filter.\<close>

definition picks :: "string list \<Rightarrow> string \<Rightarrow> bool" where
  "picks filters line \<longleftrightarrow> take 1 line = ''q'' \<or> 0 < c_atoi line \<and> c_atoi line \<le> int (length filters)"

lemma ask_filter_skip:
  "\<forall>l. Some l \<in> set before \<longrightarrow> \<not> picks filters l \<Longrightarrow> ask_filter filters (before @ rest) = ask_filter filters rest"
proof (induction before)
  case (Cons b before)
  then show ?case by (cases b) (auto simp: picks_def)
qed simp

lemma ask_filter_pick:
  "picks filters line \<Longrightarrow> ask_filter filters (Some line # rest) =
     Some (if take 1 line = ''q'' then None else Some (filters ! nat (c_atoi line - 1)), rest)"
  by (auto simp: picks_def)

lemma ask_output_answers:
  "ask_output lines = None \<longleftrightarrow> (\<forall>l. Some l \<in> set lines \<longrightarrow> l = [])"
  by (induction lines rule: ask_output.induct) auto

lemma ask_output_name: "ask_output lines = Some (name, rest) \<Longrightarrow> CHR 0x0A \<notin> set name"
  by (induction lines rule: ask_output.induct) (auto split: if_splits dest: set_takeWhileD)

text \<open>The interactive questions end and give a capture that can start: with a filter and a
  console, after any number of failed reads and answers out of range, the first valid number
  chooses its filter, and as soon as a later line is there the result is this filter, a file
  name without its line end, all devices and descriptors; q ends the program. While no line
  comes the question stays open.\<close>

theorem interactive_answers:
  assumes "te_console env" and "te_filters env \<noteq> []"
    and "te_input env = before @ Some line # after"
    and "\<forall>l. Some l \<in> set before \<longrightarrow> \<not> picks (te_filters env) l" and "picks (te_filters env) line"
  shows "if take 1 line = ''q'' then \<exists>cf'. cmd_interactive env cf = Some (-1, cf')
    else if \<forall>l. Some l \<in> set after \<longrightarrow> l = [] then cmd_interactive env cf = None
    else \<exists>name. cmd_interactive env cf = Some (0, cf\<lparr>cf_capture_all := True, cf_inject := True,
        cf_device := Some (te_filters env ! nat (c_atoi line - 1)), cf_filename := Some name\<rparr>) \<and>
      nat (c_atoi line - 1) < length (te_filters env) \<and> CHR 0x0A \<notin> set name"
proof -
  let ?cf = "cf\<lparr>cf_filename := None, cf_capture_all := True, cf_inject := True\<rparr>"
  have run: "cmd_interactive env cf = (case Some (if take 1 line = ''q'' then None
      else Some (te_filters env ! nat (c_atoi line - 1)), after) of
        None \<Rightarrow> None
      | Some (None, rest) \<Rightarrow> Some (-1, ?cf)
      | Some (Some device, rest) \<Rightarrow>
          (case ask_output rest of
             None \<Rightarrow> None
           | Some (name, _) \<Rightarrow> Some (0, ?cf\<lparr>cf_device := Some device, cf_filename := Some name\<rparr>)))"
    using assms(1,2) ask_filter_pick [OF assms(5)] ask_filter_skip [OF assms(4)]
    by (simp add: cmd_interactive_def select_and_name_def assms(3))
  show ?thesis
  proof (cases "take 1 line = ''q''")
    case True
    then show ?thesis unfolding run by simp
  next
    case False
    then have "nat (c_atoi line - 1) < length (te_filters env)"
      using assms(5) by (auto simp: picks_def)
    moreover have "ask_output after = None \<longleftrightarrow> (\<forall>l. Some l \<in> set after \<longrightarrow> l = [])" by (rule ask_output_answers)
    ultimately show ?thesis
      using False ask_output_name [of after] unfolding run by (cases "ask_output after") auto
  qed
qed

theorem interactive_answers_witness:
  "\<exists>name. cmd_interactive (sample_tool\<lparr>te_input := [Some ''7'', None, Some ''1'', Some ''a.pcap'']\<rparr>) (initial_config sample_thread) =
     Some (0, (initial_config sample_thread)\<lparr>cf_capture_all := True, cf_inject := True,
       cf_device := Some ''USBPcap1'', cf_filename := Some name\<rparr>)"
proof -
  let ?env = "sample_tool\<lparr>te_input := [Some ''7'', None, Some ''1'', Some ''a.pcap'']\<rparr>"
  have nums: "c_atoi ''7'' = 7" "c_atoi ''1'' = 1"
    by code_simp+
  have env: "te_console ?env" "te_filters ?env = [''USBPcap1'']" "te_filters ?env \<noteq> []"
    "te_input ?env = [Some ''7'', None] @ Some ''1'' # [Some ''a.pcap'']"
    by (simp_all add: sample_tool_def)
  have skip: "\<forall>l. Some l \<in> set [Some ''7'', None] \<longrightarrow> \<not> picks (te_filters ?env) l"
    and pick: "picks (te_filters ?env) ''1''"
    unfolding env(2) by (simp_all add: picks_def nums)
  show ?thesis
    using interactive_answers [OF env(1,3,4) skip pick, of "initial_config sample_thread"] nums
    unfolding env(2) by auto
qed

text \<open>Only an empty line is refused as a name, but a line has its line end: pressing Enter gives
  the empty name.\<close>

theorem empty_name_accepted:
  "cmd_interactive (sample_tool\<lparr>te_input := [Some ''1'', Some newline]\<rparr>) cf =
     Some (0, cf\<lparr>cf_filename := Some [], cf_capture_all := True, cf_inject := True, cf_device := Some ''USBPcap1''\<rparr>)"
proof -
  have "c_atoi ''1'' = 1" by code_simp
  then show ?thesis
    by (simp add: cmd_interactive_def select_and_name_def sample_tool_def newline_def)
qed

end
