(* ===== verification/RootHubs.thy ===== *)
theory RootHubs
  imports HubQueries
begin

text \<open>
  The hardware ids of unusual root hubs (roothubs.c): the tool looks at the children of the
  host controllers and writes the ids it does not know to the registry, where the driver
  looks them up. Strings are lists of 8-bit characters; what the configuration manager
  answers is an argument. The last theorem is about the tool and the driver together.
\<close>

section \<open>The array of strings\<close>

text \<open>
  sa_size is the member size, sa_room the slots that are really allocated. A store beyond them
  is a fault (None).
\<close>

record string_array =
  sa_items :: "string list"
  sa_size :: nat
  sa_room :: nat

definition init_string_array :: "nat \<Rightarrow> string_array" where
  "init_string_array initial_size = \<lparr>sa_items = [], sa_size = initial_size, sa_room = initial_size\<rparr>"

definition store_string :: "string \<Rightarrow> string_array \<Rightarrow> string_array option" where
  "store_string hwid a =
     (if length (sa_items a) < sa_room a then Some (a\<lparr>sa_items := sa_items a @ [hwid]\<rparr>) else None)"

text \<open>The first argument is the success of realloc.\<close>

definition insert_string_array :: "bool \<Rightarrow> string \<Rightarrow> string_array \<Rightarrow> string_array option" where
  "insert_string_array ok hwid a =
     (if length (sa_items a) = sa_size a then
        (let a1 = a\<lparr>sa_size := sa_size a * 2\<rparr> in
         if \<not> ok then Some a1 else store_string hwid (a1\<lparr>sa_room := sa_size a1\<rparr>))
      else store_string hwid a)"

section \<open>Multi-strings\<close>

abbreviation (input) NUL :: char where "NUL \<equiv> CHR 0x00"

text \<open>Copying a string with its NUL to a place of the buffer; strcpy_s ends the process (None)
  when it does not fit.\<close>

definition tcscpy_s :: "nat \<Rightarrow> string \<Rightarrow> string \<Rightarrow> string option" where
  "tcscpy_s ptr s buf =
     (if length s + 1 \<le> length buf - ptr
      then Some (take ptr buf @ s @ [NUL] @ drop (ptr + length s + 1) buf) else None)"

fun copy_strings :: "nat \<Rightarrow> string list \<Rightarrow> string \<Rightarrow> string option" where
  "copy_strings ptr [] buf = Some buf"
| "copy_strings ptr (s # ss) buf =
     (case tcscpy_s ptr s buf of
        None \<Rightarrow> None
      | Some buf' \<Rightarrow> copy_strings (ptr + length s + 1) ss buf')"

definition build_non_standard_reg_multi_sz :: "string_array \<Rightarrow> string option" where
  "build_non_standard_reg_multi_sz a =
     (let len = foldl (\<lambda>n s. n + (length s + 1)) 1 (sa_items a) in
      copy_strings 0 (sa_items a) (replicate len NUL))"

text \<open>The strings of a multi-string; reading beyond its end is a fault.\<close>

function GetMultiSzIndexArray :: "string \<Rightarrow> string list option" where
  "GetMultiSzIndexArray [] = None"
| "GetMultiSzIndexArray (c # cs) =
     (if c = NUL then Some []
      else case dropWhile (\<lambda>x. x \<noteq> NUL) (c # cs) of
        [] \<Rightarrow> None
      | _ # rest \<Rightarrow>
          map_option ((#) (takeWhile (\<lambda>x. x \<noteq> NUL) (c # cs))) (GetMultiSzIndexArray rest))"
  by pat_completeness auto
termination
proof (relation "measure length")
  fix c :: char and cs x rest
  assume "c \<noteq> NUL" and d: "dropWhile (\<lambda>x. x \<noteq> NUL) (c # cs) = x # rest"
  have "length (dropWhile (\<lambda>x. x \<noteq> NUL) (c # cs)) \<le> length (c # cs)" by (rule length_dropWhile_le)
  then show "(rest, c # cs) \<in> measure length" unfolding d by simp
qed simp

text \<open>
  The property of a device: None when the query fails, has another type or is empty, otherwise
  its characters. Two NULs are added before the strings are looked for.
\<close>

definition GetDevMultiSz :: "string option \<Rightarrow> string list option option" where
  "GetDevMultiSz property =
     (case property of
        None \<Rightarrow> Some None
      | Some dat \<Rightarrow>
          if dat = [] then Some None
          else map_option Some (GetMultiSzIndexArray (dat @ [NUL, NUL])))"

section \<open>The ids that are not standard\<close>

definition root_hub_id :: "string \<Rightarrow> string" where
  "root_hub_id n = ''USB'' @ [CHR 0x5C] @ ''ROOT_HUB'' @ n"

definition is_standard_hwid :: "string \<Rightarrow> bool" where
  "is_standard_hwid hwid \<longleftrightarrow>
     hwid = root_hub_id [] \<or> hwid = root_hub_id ''20'' \<or> hwid = root_hub_id ''30''"

definition is_non_standard_hwid_known :: "string \<Rightarrow> string_array \<Rightarrow> bool" where
  "is_non_standard_hwid_known hwid a \<longleftrightarrow> hwid \<in> set (sa_items a)"

text \<open>
  One child of a host controller, with its hardware id property. The first id is used without
  a check that there is one; that is a fault. The argument ok says whether realloc succeeds
  at a number of strings.
\<close>

definition check_root_hub :: "(nat \<Rightarrow> bool) \<Rightarrow> string option \<Rightarrow> string_array \<Rightarrow> string_array option" where
  "check_root_hub ok property a = do {
     hwIds \<leftarrow> GetDevMultiSz property;
     case hwIds of
       None \<Rightarrow> Some a
     | Some ids \<Rightarrow>
         if list_ex is_standard_hwid ids then Some a
         else if ids = [] then None
         else if is_non_standard_hwid_known (hd ids) a then Some a
         else insert_string_array (ok (length (sa_items a))) (hd ids) a }"

fun find_non_standard_hwids :: "(nat \<Rightarrow> bool) \<Rightarrow> string option list \<Rightarrow> string_array \<Rightarrow> string_array option" where
  "find_non_standard_hwids ok [] a = Some a"
| "find_non_standard_hwids ok (p # ps) a = do {
     a' \<leftarrow> check_root_hub ok p a;
     find_non_standard_hwids ok ps a' }"

fun foreach_host_controller :: "(nat \<Rightarrow> bool) \<Rightarrow> string option list list \<Rightarrow> string_array \<Rightarrow> string_array option" where
  "foreach_host_controller ok [] a = Some a"
| "foreach_host_controller ok (c # cs) a = do {
     a' \<leftarrow> find_non_standard_hwids ok c a;
     foreach_host_controller ok cs a' }"

text \<open>The registry value that is written, if one is.\<close>

definition init_non_standard_roothub_hwid ::
  "(nat \<Rightarrow> bool) \<Rightarrow> string option list list \<Rightarrow> string option option" where
  "init_non_standard_roothub_hwid ok controllers = do {
     a \<leftarrow> foreach_host_controller ok controllers (init_string_array 1);
     if sa_items a = [] then Some None
     else map_option Some (build_non_standard_reg_multi_sz a) }"

section \<open>Multi-strings are read back\<close>

definition narrow_multi_sz :: "string list \<Rightarrow> string" where
  "narrow_multi_sz ss = concat (map (\<lambda>s. s @ [NUL]) ss) @ [NUL]"

abbreviation good_ids :: "string list \<Rightarrow> bool" where
  "good_ids ss \<equiv> \<forall>s\<in>set ss. s \<noteq> [] \<and> NUL \<notin> set s"

lemma copy_strings_concat:
  "copy_strings (length pre) ss (pre @ replicate (length (concat (map (\<lambda>s. s @ [NUL]) ss)) + 1) NUL) =
     Some (pre @ concat (map (\<lambda>s. s @ [NUL]) ss) @ [NUL])"
proof (induction ss arbitrary: pre)
  case (Cons s ss)
  let ?n = "length (concat (map (\<lambda>s. s @ [NUL]) ss)) + 1"
  have "tcscpy_s (length pre) s (pre @ replicate (length s + 1 + ?n) NUL) = Some ((pre @ s @ [NUL]) @ replicate ?n NUL)"
  proof -
    have "drop (length s + 1) (replicate (length s + 1 + ?n) NUL) = replicate ?n NUL"
      by (simp only: drop_replicate add_diff_cancel_left')
    then have "drop (length pre + length s + 1) (pre @ replicate (length s + 1 + ?n) NUL) = replicate ?n NUL"
      by (simp only: drop_append) (simp del: replicate.simps)
    then show ?thesis by (simp add: tcscpy_s_def del: replicate.simps)
  qed
  then show ?case using Cons.IH [of "pre @ s @ [NUL]"] by (simp add: add_ac)
qed simp

lemma build_multi_sz: "build_non_standard_reg_multi_sz a = Some (narrow_multi_sz (sa_items a))"
proof -
  have "foldl (\<lambda>n s. n + (length s + 1)) k ss = k + length (concat (map (\<lambda>s. s @ [NUL]) ss))" for k and ss :: "string list"
    by (induction ss arbitrary: k) simp_all
  then show ?thesis
    using copy_strings_concat [of "[]" "sa_items a"]
    by (simp add: build_non_standard_reg_multi_sz_def narrow_multi_sz_def Let_def)
qed

lemma index_array_read:
  "good_ids ss \<Longrightarrow> GetMultiSzIndexArray (narrow_multi_sz ss @ rest) = Some ss"
proof (induction ss)
  case (Cons s ss)
  then obtain c cs where s: "s = c # cs" "c \<noteq> NUL" "NUL \<notin> set cs" by (cases s) auto
  have "takeWhile (\<lambda>x. x \<noteq> NUL) (cs @ NUL # r) = cs" "dropWhile (\<lambda>x. x \<noteq> NUL) (cs @ NUL # r) = NUL # r" for r
    using s(3) by (induction cs) auto
  then show ?case using Cons s by (simp add: narrow_multi_sz_def)
qed (simp add: narrow_multi_sz_def)

section \<open>What is found\<close>

text \<open>The hardware ids of the children: None when a child has no such property.\<close>

definition property_of :: "string list option \<Rightarrow> string option" where
  "property_of ids = map_option narrow_multi_sz ids"

text \<open>The ids that have to be known: the first of a child without a standard one.\<close>

definition non_standard :: "string list option list \<Rightarrow> string set" where
  "non_standard hubs = {hd ids | ids. Some ids \<in> set hubs \<and> \<not> list_ex is_standard_hwid ids}"

definition array_ok :: "string_array \<Rightarrow> bool" where
  "array_ok a \<longleftrightarrow> sa_size a = sa_room a \<and> 0 < sa_size a \<and> length (sa_items a) \<le> sa_size a \<and> distinct (sa_items a)"

lemma insert_ok:
  "array_ok a \<Longrightarrow> hwid \<notin> set (sa_items a) \<Longrightarrow>
     \<exists>a'. insert_string_array True hwid a = Some a' \<and> array_ok a' \<and> sa_items a' = sa_items a @ [hwid]"
  by (auto simp: insert_string_array_def store_string_def array_ok_def Let_def)

lemma check_root_hub_finds:
  assumes "array_ok a" and "\<forall>ids. hub = Some ids \<longrightarrow> ids \<noteq> [] \<and> good_ids ids"
  shows "\<exists>a'. check_root_hub (\<lambda>n. True) (property_of hub) a = Some a' \<and> array_ok a' \<and>
    set (sa_items a') = set (sa_items a) \<union> non_standard [hub]"
proof (cases hub)
  case None
  then show ?thesis using assms(1) by (simp add: check_root_hub_def GetDevMultiSz_def property_of_def non_standard_def)
next
  case (Some ids)
  have ids: "ids \<noteq> []" "good_ids ids" using assms(2) Some by simp_all
  have "narrow_multi_sz ids \<noteq> []" by (simp add: narrow_multi_sz_def)
  then have dev: "GetDevMultiSz (property_of hub) = Some (Some ids)"
    using index_array_read [OF ids(2)] Some by (simp add: GetDevMultiSz_def property_of_def)
  show ?thesis
  proof (cases "list_ex is_standard_hwid ids \<or> hd ids \<in> set (sa_items a)")
    case True
    then show ?thesis
      using assms(1) ids(1) Some dev
      by (auto simp: check_root_hub_def is_non_standard_hwid_known_def non_standard_def)
  next
    case False
    then obtain a' where "insert_string_array True (hd ids) a = Some a'" "array_ok a'"
      "sa_items a' = sa_items a @ [hd ids]" using insert_ok [OF assms(1)] by blast
    then show ?thesis
      using False ids(1) Some dev
      by (auto simp: check_root_hub_def is_non_standard_hwid_known_def non_standard_def)
  qed
qed

abbreviation good_hubs :: "string list option list \<Rightarrow> bool" where
  "good_hubs hubs \<equiv> \<forall>ids. Some ids \<in> set hubs \<longrightarrow> ids \<noteq> [] \<and> good_ids ids"

lemma find_non_standard:
  "array_ok a \<Longrightarrow> good_hubs hubs \<Longrightarrow>
   \<exists>a'. find_non_standard_hwids (\<lambda>n. True) (map property_of hubs) a = Some a' \<and> array_ok a' \<and>
     set (sa_items a') = set (sa_items a) \<union> non_standard hubs"
proof (induction hubs arbitrary: a)
  case Nil
  then show ?case by (simp add: non_standard_def)
next
  case (Cons hub hubs)
  obtain a1 where 1: "check_root_hub (\<lambda>n. True) (property_of hub) a = Some a1" "array_ok a1"
    "set (sa_items a1) = set (sa_items a) \<union> non_standard [hub]"
    using check_root_hub_finds [OF Cons.prems(1), of hub] Cons.prems(2) by auto
  obtain a2 where 2: "find_non_standard_hwids (\<lambda>n. True) (map property_of hubs) a1 = Some a2" "array_ok a2"
    "set (sa_items a2) = set (sa_items a1) \<union> non_standard hubs"
    using Cons.IH [OF 1(2)] Cons.prems(2) by auto
  have "non_standard (hub # hubs) = non_standard [hub] \<union> non_standard hubs" by (auto simp: non_standard_def)
  then show ?case using 1 2 by auto
qed

lemma controllers_non_standard:
  "array_ok a \<Longrightarrow> good_hubs (concat cs) \<Longrightarrow>
   \<exists>a'. foreach_host_controller (\<lambda>n. True) (map (map property_of) cs) a = Some a' \<and> array_ok a' \<and>
     set (sa_items a') = set (sa_items a) \<union> non_standard (concat cs)"
proof (induction cs arbitrary: a)
  case Nil
  then show ?case by (simp add: non_standard_def)
next
  case (Cons c cs)
  obtain a1 where 1: "find_non_standard_hwids (\<lambda>n. True) (map property_of c) a = Some a1" "array_ok a1"
    "set (sa_items a1) = set (sa_items a) \<union> non_standard c"
    using find_non_standard [OF Cons.prems(1), of c] Cons.prems(2) by auto
  obtain a2 where 2: "foreach_host_controller (\<lambda>n. True) (map (map property_of) cs) a1 = Some a2" "array_ok a2"
    "set (sa_items a2) = set (sa_items a1) \<union> non_standard (concat cs)"
    using Cons.IH [OF 1(2)] Cons.prems(2) by auto
  have "non_standard (concat (c # cs)) = non_standard c \<union> non_standard (concat cs)" by (auto simp: non_standard_def)
  then show ?case using 1 2 by auto
qed

section \<open>Tool and driver together\<close>

text \<open>What RtlQueryRegistryValues gives the driver for a multi-string value.\<close>

definition registry_of :: "string list \<Rightarrow> registry_value" where
  "registry_of ids =
     \<lparr>rv_strings = map (\<lambda>s. (REG_SZ, wide s @ [0], of_nat (2 * (length s + 1)))) ids, rv_status = 0\<rparr>"

lemma wide_simps:
  "0 \<in> set (wide s) \<longleftrightarrow> NUL \<in> set s" "wide s = [] \<longleftrightarrow> s = []" "wide s = wide t \<longleftrightarrow> s = t"
proof -
  have code: "(of_nat (of_char c) :: u16) = of_nat (of_char d) \<longleftrightarrow> c = d" for c d
  proof -
    have "(of_char c :: nat) < 2 ^ 16" "(of_char d :: nat) < 2 ^ 16"
      by (rule order_less_trans [OF nat_of_char_less_256], simp)+
    then have "(of_nat (of_char c) :: u16) = of_nat (of_char d) \<longleftrightarrow> (of_char c :: nat) = of_char d"
      by (simp add: word_unat_eq_iff unsigned_of_nat take_bit_nat_eq_self)
    then show ?thesis by simp
  qed
  have "(of_char NUL :: nat) = 0" by simp
  then show "0 \<in> set (wide s) \<longleftrightarrow> NUL \<in> set s"
    using code [of NUL] by (auto simp: wide_def image_iff)
  show "wide s = [] \<longleftrightarrow> s = []" by (simp add: wide_def)
  show "wide s = wide t \<longleftrightarrow> s = t"
    using inj_map_eq_map [of "\<lambda>c. (of_nat (of_char c) :: u16)" s t] code by (simp add: wide_def inj_def)
qed

lemma registry_of_ids:
  assumes "\<forall>s\<in>set ids. NUL \<notin> set s \<and> s \<noteq> [] \<and> length s \<le> 512"
  shows "registry_ok (registry_of ids) \<and> (\<forall>s\<in>set ids. lists_hwid (registry_of ids) (wide s))"
proof -
  have "wcs (wide s @ [0]) = Some (wide s)" if "s \<in> set ids" for s
    using assms that by (simp add: wide_simps)
  moreover have "(of_nat (2 * (length s + 1)) :: u32) \<noteq> 2" if "s \<in> set ids" for s
  proof -
    have "2 * (length s + 1) < 2 ^ 32" "2 * (length s + 1) \<noteq> 2" using assms that by auto
    moreover from this have "unat (of_nat (2 * (length s + 1)) :: u32) = 2 * (length s + 1)"
      by (simp only: unsigned_of_nat) (simp add: take_bit_nat_eq_self)
    moreover have "unat (2 :: u32) = 2" by simp
    ultimately show ?thesis by metis
  qed
  ultimately show ?thesis
    by (fastforce simp: registry_ok_def lists_hwid_def registry_of_def NT_SUCCESS_def)
qed

lemma standard_wide: "standard_root_hub (wide s) \<longleftrightarrow> is_standard_hwid s"
proof -
  have eq: "standard_root_hub t \<longleftrightarrow> t = wide (root_hub_id []) \<or> t = wide (root_hub_id ''20'') \<or> t = wide (root_hub_id ''30'')" for t
    by (simp add: standard_root_hub_def root_hub_id_def)
  show ?thesis unfolding eq is_standard_hwid_def wide_simps(3) ..
qed

text \<open>C17. The tool's --init-non-standard-hwids makes the driver recognise the root hubs: whatever
  children the host controllers have, the search runs without a fault, the value written to
  the registry reads back to the first hardware ids of exactly those children that have no
  standard id, each once, and with this value in the registry the driver takes every one of
  the children, standard or not, for a root hub.\<close>

theorem init_makes_root_hubs_known:
  assumes "good_hubs (concat cs)"
    and "\<forall>ids. Some ids \<in> set (concat cs) \<longrightarrow> length ids \<le> 64 \<and> length (multi_sz (map wide ids)) \<le> 512"
    and "pdo = Some (r, ())" and "NT_SUCCESS (call_status r)" and "NT_SUCCESS st"
  shows "\<exists>found. init_non_standard_roothub_hwid (\<lambda>n. True) (map (map property_of) cs) =
      Some (if found = [] then None else Some (narrow_multi_sz found)) \<and>
    GetMultiSzIndexArray (narrow_multi_sz found) = Some found \<and> distinct found \<and>
    set found = non_standard (concat cs) \<and>
    (\<forall>ids. Some ids \<in> set (concat cs) \<longrightarrow>
       USBPcapIsDeviceRootHub True pdo (st, multi_sz (map wide ids)) (registry_of found) = Some True)"
proof -
  have "array_ok (init_string_array 1)" by (simp add: array_ok_def init_string_array_def)
  then obtain a where a: "foreach_host_controller (\<lambda>n. True) (map (map property_of) cs) (init_string_array 1) = Some a"
    "array_ok a" "set (sa_items a) = non_standard (concat cs)"
    using controllers_non_standard [OF _ assms(1)] by (fastforce simp: init_string_array_def)
  have size: "length s \<le> 512" if "Some ids \<in> set (concat cs)" "s \<in> set ids" for ids s
  proof -
    have "length (wide s) \<le> length (multi_sz (map wide ids))"
      using that(2) by (induction ids) (auto simp: multi_sz_def)
    then show ?thesis using assms(2) that(1) by (fastforce simp: wide_def)
  qed
  have found: "\<forall>s\<in>set (sa_items a). NUL \<notin> set s \<and> s \<noteq> [] \<and> length s \<le> 512"
  proof
    fix s
    assume "s \<in> set (sa_items a)"
    then obtain ids where ids: "s = hd ids" "Some ids \<in> set (concat cs)" unfolding a(3) non_standard_def by blast
    then have "ids \<noteq> []" "good_ids ids" using assms(1) by blast+
    then show "NUL \<notin> set s \<and> s \<noteq> [] \<and> length s \<le> 512" using size [OF ids(2)] ids(1) by simp
  qed
  have "USBPcapIsDeviceRootHub True pdo (st, multi_sz (map wide ids)) (registry_of (sa_items a)) = Some True"
    if hub: "Some ids \<in> set (concat cs)" for ids
  proof -
    have ids: "ids \<noteq> []" "\<forall>s\<in>set (map wide ids). s \<noteq> [] \<and> 0 \<notin> set s" "length (map wide ids) \<le> 64"
      using assms(1,2) hub by (auto simp: wide_simps)
    have "\<exists>s\<in>set ids. is_standard_hwid s \<or> lists_hwid (registry_of (sa_items a)) (wide s)"
    proof (cases "list_ex is_standard_hwid ids")
      case True
      then show ?thesis by (auto simp: list_ex_iff)
    next
      case False
      then have "hd ids \<in> set (sa_items a)" using hub unfolding a(3) non_standard_def by blast
      then show ?thesis using registry_of_ids [OF found] ids(1) hd_in_set by blast
    qed
    then show ?thesis
      using root_hub_test [OF ids(2) _ _ assms(3-5)] assms(2) hub registry_of_ids [OF found] ids(3)
      by (simp add: standard_wide)
  qed
  moreover have "GetMultiSzIndexArray (narrow_multi_sz (sa_items a)) = Some (sa_items a)"
    using index_array_read [of "sa_items a" "[]"] found by simp
  ultimately show ?thesis
    using a by (intro exI [of _ "sa_items a"])
      (simp add: init_non_standard_roothub_hwid_def build_multi_sz array_ok_def)
qed

theorem init_makes_root_hubs_known_witness:
  "\<exists>found. init_non_standard_roothub_hwid (\<lambda>n. True)
      [[property_of (Some [''PCI'', root_hub_id ''30'']), property_of None], [property_of (Some [''NUSB3''])]] =
      Some (if found = [] then None else Some (narrow_multi_sz found)) \<and> set found = {''NUSB3''} \<and>
    USBPcapIsDeviceRootHub True (Some (Returned 0, ())) (0, multi_sz [wide ''NUSB3'']) (registry_of found) = Some True"
proof -
  let ?cs = "[[Some [''PCI'', root_hub_id ''30''], None], [Some [''NUSB3'']]]"
  have good: "good_hubs (concat ?cs)" by (simp add: root_hub_id_def)
  have small: "\<forall>ids. Some ids \<in> set (concat ?cs) \<longrightarrow> length ids \<le> 64 \<and> length (multi_sz (map wide ids)) \<le> 512"
    by (simp add: root_hub_id_def wide_def)
  have names: "non_standard (concat ?cs) = {''NUSB3''}"
  proof
    show "non_standard (concat ?cs) \<subseteq> {''NUSB3''}"
      by (auto simp: non_standard_def is_standard_hwid_def root_hub_id_def)
    have "Some [''NUSB3''] \<in> set (concat ?cs)" "\<not> list_ex is_standard_hwid [''NUSB3'']"
      by (simp_all add: is_standard_hwid_def root_hub_id_def)
    then have "hd [''NUSB3''] \<in> non_standard (concat ?cs)" unfolding non_standard_def by blast
    then show "{''NUSB3''} \<subseteq> non_standard (concat ?cs)" by simp
  qed
  have ok: "NT_SUCCESS (call_status (Returned 0))" "NT_SUCCESS 0" by (simp_all add: NT_SUCCESS_def)
  have hub: "Some [''NUSB3''] \<in> set (concat ?cs)" by simp
  obtain found where f: "init_non_standard_roothub_hwid (\<lambda>n. True) (map (map property_of) ?cs) =
      Some (if found = [] then None else Some (narrow_multi_sz found))" "set found = non_standard (concat ?cs)"
    "\<forall>ids. Some ids \<in> set (concat ?cs) \<longrightarrow> USBPcapIsDeviceRootHub True (Some (Returned 0, ()))
       (0, multi_sz (map wide ids)) (registry_of found) = Some True"
    using init_makes_root_hubs_known [OF good small refl ok] by blast
  have "USBPcapIsDeviceRootHub True (Some (Returned 0, ())) (0, multi_sz (map wide [''NUSB3''])) (registry_of found) = Some True"
    using f(3) hub by blast
  then show ?thesis using f(1,2) unfolding names by (simp only: list.map) blast
qed

text \<open>When realloc fails the size has already been doubled: the next store is beyond the slots.\<close>

theorem failed_realloc_overruns:
  "(case insert_string_array False ''b'' \<lparr>sa_items = [''a''], sa_size = 1, sa_room = 1\<rparr> of
      None \<Rightarrow> None | Some a \<Rightarrow> insert_string_array True ''c'' a) = None"
  by (simp add: insert_string_array_def store_string_def)

end
