(* ===== verification/Filters.thy ===== *)
theory Filters
  imports Prelude
begin

text \<open>
  The filter control devices (filters.c): the search of the object directory for USBPcap
  devices, the linked list they are collected in, the array the rest of the tool reads, and the
  search of the registry value UpperFilters for the driver.

  The list is modelled with its pointers: a store of entries, the pointers head and tail, and
  the counter. What the directory and the registry contain are arguments; names are 16-bit
  characters, and the cast to char keeps the low byte.
\<close>

section \<open>The linked list\<close>

record list_entry =
  le_device :: string
  le_next :: "nat option"

record dev_list =
  dl_store :: "nat \<rightharpoonup> list_entry"
  dl_head :: "nat option"
  dl_tail :: "nat option"
  dl_count :: nat
  dl_fresh :: nat

definition empty_list :: dev_list where
  "empty_list = \<lparr>dl_store = Map.empty, dl_head = None, dl_tail = None, dl_count = 0, dl_fresh = 0\<rparr>"

text \<open>malloc of an entry: a new address.\<close>

definition new_entry :: "string \<Rightarrow> dev_list \<Rightarrow> dev_list \<times> nat" where
  "new_entry device l =
     (l\<lparr>dl_store := (dl_store l)(dl_fresh l \<mapsto> \<lparr>le_device = device, le_next = None\<rparr>),
        dl_fresh := dl_fresh l + 1\<rparr>, dl_fresh l)"

text \<open>Following a tail that is NULL or freed is a fault.\<close>

definition list_insert :: "dev_list \<Rightarrow> nat \<Rightarrow> dev_list option" where
  "list_insert l entry =
     (if dl_head l = None
      then Some (l\<lparr>dl_head := Some entry, dl_tail := Some entry, dl_count := 1\<rparr>)
      else (case dl_tail l of
              None \<Rightarrow> None
            | Some t \<Rightarrow>
                (case dl_store l t of
                   None \<Rightarrow> None
                 | Some e \<Rightarrow> Some (l\<lparr>dl_store := (dl_store l)(t \<mapsto> e\<lparr>le_next := Some entry\<rparr>),
                     dl_tail := Some entry, dl_count := dl_count l + 1\<rparr>))))"

definition narrow :: "u16 list \<Rightarrow> string" where
  "narrow name = map (\<lambda>w. char_of (unat w mod 256)) name"

definition add_to_list :: "dev_list \<Rightarrow> u16 list \<Rightarrow> dev_list option" where
  "add_to_list l name =
     (case new_entry ([CHR 0x5C, CHR 0x5C, CHR ''.'', CHR 0x5C] @ narrow name) l of
        (l', entry) \<Rightarrow> list_insert l' entry)"

section \<open>The search\<close>

definition usbpcap_prefix :: "u16 list" where
  "usbpcap_prefix = map (\<lambda>c. of_nat (of_char c)) ''USBPcap''"

fun query_loop :: "u16 list list \<Rightarrow> dev_list \<Rightarrow> dev_list option" where
  "query_loop [] l = Some l"
| "query_loop (name # names) l =
     (if take 7 name = usbpcap_prefix
      then (case add_to_list l name of None \<Rightarrow> None | Some l' \<Rightarrow> query_loop names l')
      else query_loop names l)"

text \<open>
  The directory's entries; the two flags are the allocation and the opening of the directory.
  The first query, which restarts the scan, fails when there is no entry.
\<close>

definition find_usbpcap_filters :: "bool \<Rightarrow> bool \<Rightarrow> u16 list list \<Rightarrow> dev_list \<Rightarrow> (dev_list \<times> bool) option" where
  "find_usbpcap_filters alloc_ok open_ok names l =
     (if \<not> alloc_ok \<or> \<not> open_ok then Some (l, False)
      else case names of
        [] \<Rightarrow> Some (l, False)
      | _ # rest \<Rightarrow> map_option (\<lambda>l'. (l', True)) (query_loop rest l))"

text \<open>The loop that fills the array: at most count entries, as long as the pointer is not NULL.\<close>

fun collect_entries :: "nat \<Rightarrow> (nat \<rightharpoonup> list_entry) \<Rightarrow> nat option \<Rightarrow> string list option" where
  "collect_entries 0 store p = Some []"
| "collect_entries (Suc n) store None = Some []"
| "collect_entries (Suc n) store (Some p) =
     (case store p of
        None \<Rightarrow> None
      | Some e \<Rightarrow> map_option ((#) (le_device e)) (collect_entries n store (le_next e)))"

definition filters_initialize :: "bool \<Rightarrow> bool \<Rightarrow> u16 list list \<Rightarrow> string list option" where
  "filters_initialize alloc_ok open_ok names =
     (case find_usbpcap_filters alloc_ok open_ok names empty_list of
        None \<Rightarrow> None
      | Some (l, _) \<Rightarrow> collect_entries (dl_count l) (dl_store l) (dl_head l))"

section \<open>The upper filters\<close>

abbreviation (input) NUL :: char where "NUL \<equiv> CHR 0x00"

abbreviation lookup :: string where "lookup \<equiv> [NUL] @ ''USBPcap'' @ [NUL, NUL]"

fun upper_scan :: "nat \<Rightarrow> string \<Rightarrow> bool" where
  "upper_scan j [] = False"
| "upper_scan j (c # cs) =
     (if c = lookup ! j then (if j + 1 = 9 then True else upper_scan (j + 1) cs)
      else upper_scan 0 cs)"

text \<open>The registry: None when the key or the value cannot be read, otherwise whether the type is
  REG_MULTI_SZ and the characters.\<close>

definition is_usbpcap_upper_filter_installed :: "(bool \<times> string) option \<Rightarrow> bool" where
  "is_usbpcap_upper_filter_installed value =
     (case value of
        None \<Rightarrow> False
      | Some (multi, dat) \<Rightarrow> multi \<and> dat \<noteq> [] \<and> upper_scan 1 dat)"

section \<open>The list has the devices in order\<close>

text \<open>The entries reachable from a pointer, in order, up to the tail.\<close>

fun chain :: "(nat \<rightharpoonup> list_entry) \<Rightarrow> nat option \<Rightarrow> (nat \<times> string) list \<Rightarrow> bool" where
  "chain store p [] \<longleftrightarrow> p = None"
| "chain store p ((a, d) # xs) \<longleftrightarrow> p = Some a \<and>
     (\<exists>e. store a = Some e \<and> le_device e = d \<and> chain store (le_next e) xs)"

definition represents :: "dev_list \<Rightarrow> (nat \<times> string) list \<Rightarrow> bool" where
  "represents l xs \<longleftrightarrow> chain (dl_store l) (dl_head l) xs \<and> dl_count l = length xs \<and>
     distinct (map fst xs) \<and> (\<forall>a\<in>set (map fst xs). a < dl_fresh l) \<and>
     dl_tail l = (if xs = [] then None else Some (fst (last xs)))"

lemma chain_update_other:
  "a \<notin> set (map fst xs) \<Longrightarrow> chain (store(a \<mapsto> e)) p xs = chain store p xs"
  by (induction xs arbitrary: p) auto

lemma chain_append:
  "chain store p xs \<Longrightarrow> xs \<noteq> [] \<Longrightarrow> distinct (map fst xs) \<Longrightarrow> a \<notin> set (map fst xs) \<Longrightarrow>
   store a = Some \<lparr>le_device = d, le_next = None\<rparr> \<Longrightarrow> store (fst (last xs)) = Some e \<Longrightarrow>
   chain (store(fst (last xs) \<mapsto> e\<lparr>le_next := Some a\<rparr>)) p (xs @ [(a, d)])"
proof (induction xs arbitrary: p)
  case (Cons x xs)
  obtain b c where x: "x = (b, c)" by (cases x)
  show ?case
  proof (cases "xs = []")
    case True
    then show ?thesis using Cons.prems x by auto
  next
    case False
    obtain eb where eb: "p = Some b" "store b = Some eb" "le_device eb = c" "chain store (le_next eb) xs"
      using Cons.prems(1) x by auto
    have "fst (last xs) \<in> set (map fst xs)" using False by simp
    then have "b \<noteq> fst (last xs)" using Cons.prems(3) x by auto
    moreover have "chain (store(fst (last xs) \<mapsto> e\<lparr>le_next := Some a\<rparr>)) (le_next eb) (xs @ [(a, d)])"
      using Cons.prems False x eb(4) by (intro Cons.IH) simp_all
    ultimately show ?thesis using eb False x unfolding fun_upd_def by simp
  qed
qed simp

lemma chain_last: "chain store p xs \<Longrightarrow> xs \<noteq> [] \<Longrightarrow> \<exists>e. store (fst (last xs)) = Some e"
  by (induction xs arbitrary: p) (auto split: if_splits)

lemma add_to_list_appends:
  assumes "represents l xs"
  shows "\<exists>l' a. add_to_list l name = Some l' \<and>
    represents l' (xs @ [(a, [CHR 0x5C, CHR 0x5C, CHR ''.'', CHR 0x5C] @ narrow name)])"
proof -
  let ?a = "dl_fresh l" and ?d = "[CHR 0x5C, CHR 0x5C, CHR ''.'', CHR 0x5C] @ narrow name"
  let ?store = "(dl_store l)(?a \<mapsto> \<lparr>le_device = ?d, le_next = None\<rparr>)"
  have new: "?a \<notin> set (map fst xs)" using assms by (auto simp: represents_def)
  have ch: "chain ?store (dl_head l) xs"
    using assms chain_update_other [OF new] by (simp add: represents_def)
  show ?thesis
  proof (cases "xs = []")
    case True
    then show ?thesis
      using assms by (intro exI [of _ "l\<lparr>dl_store := ?store, dl_fresh := ?a + 1, dl_head := Some ?a,
          dl_tail := Some ?a, dl_count := 1\<rparr>"] exI [of _ ?a])
        (simp add: add_to_list_def new_entry_def list_insert_def represents_def)
  next
    case False
    let ?t = "fst (last xs)"
    obtain e where e: "?store ?t = Some e" using chain_last [OF ch False] by blast
    have tail: "dl_tail l = Some ?t" "dl_head l \<noteq> None"
      using assms False by (cases xs; auto simp: represents_def)+
    have "chain (?store(?t \<mapsto> e\<lparr>le_next := Some ?a\<rparr>)) (dl_head l) (xs @ [(?a, ?d)])"
      using ch False assms new e by (intro chain_append) (simp_all add: represents_def)
    then show ?thesis
      using assms False tail e new
      by (intro exI [of _ "l\<lparr>dl_store := ?store(?t \<mapsto> e\<lparr>le_next := Some ?a\<rparr>), dl_fresh := ?a + 1,
          dl_tail := Some ?a, dl_count := dl_count l + 1\<rparr>"] exI [of _ ?a])
        (auto simp: add_to_list_def new_entry_def list_insert_def represents_def)
  qed
qed

lemma query_loop_appends:
  "represents l xs \<Longrightarrow> \<exists>l' ys. query_loop names l = Some l' \<and> represents l' (xs @ ys) \<and>
     map snd ys = map (\<lambda>n. [CHR 0x5C, CHR 0x5C, CHR ''.'', CHR 0x5C] @ narrow n)
       (filter (\<lambda>n. take 7 n = usbpcap_prefix) names)"
proof (induction names arbitrary: l xs)
  case Nil
  then show ?case by (intro exI [of _ l] exI [of _ "[]"]) simp
next
  case (Cons n names)
  show ?case
  proof (cases "take 7 n = usbpcap_prefix")
    case True
    obtain l1 a where 1: "add_to_list l n = Some l1"
      "represents l1 (xs @ [(a, [CHR 0x5C, CHR 0x5C, CHR ''.'', CHR 0x5C] @ narrow n)])"
      using add_to_list_appends [OF Cons.prems] by blast
    obtain l' ys where "query_loop names l1 = Some l'"
      "represents l' ((xs @ [(a, [CHR 0x5C, CHR 0x5C, CHR ''.'', CHR 0x5C] @ narrow n)]) @ ys)"
      "map snd ys = map (\<lambda>n. [CHR 0x5C, CHR 0x5C, CHR ''.'', CHR 0x5C] @ narrow n)
       (filter (\<lambda>n. take 7 n = usbpcap_prefix) names)"
      using Cons.IH [OF 1(2)] by blast
    then show ?thesis
      using True 1(1) by (intro exI [of _ l'] exI [of _ "(a, [CHR 0x5C, CHR 0x5C, CHR ''.'', CHR 0x5C] @ narrow n) # ys"]) simp
  next
    case False
    then show ?thesis using Cons.IH [OF Cons.prems] by simp
  qed
qed

lemma collect_chain: "chain store p xs \<Longrightarrow> collect_entries (length xs) store p = Some (map snd xs)"
  by (induction xs arbitrary: p) auto

text \<open>C21. The array of filter devices has exactly the objects of the directory that begin with
  USBPcap, except the first object of the directory, in the order of the directory and with
  the device prefix: through the linked list none is lost, doubled or reordered, and no
  pointer is followed that is NULL or free. The first object is read by the query that
  restarts the scan and never looked at.\<close>

theorem filters_initialize_correct:
  "filters_initialize alloc_ok open_ok names =
     Some (if alloc_ok \<and> open_ok
           then map (\<lambda>n. [CHR 0x5C, CHR 0x5C, CHR ''.'', CHR 0x5C] @ narrow n)
             (filter (\<lambda>n. take 7 n = usbpcap_prefix) (tl names))
           else [])"
proof (cases "alloc_ok \<and> open_ok \<and> names \<noteq> []")
  case True
  then obtain n ns where names: "names = n # ns" by (cases names) auto
  have "represents empty_list []" by (simp add: represents_def empty_list_def)
  from query_loop_appends [OF this, of ns] obtain l ys where l: "query_loop ns empty_list = Some l"
    "represents l ys" "map snd ys = map (\<lambda>n. [CHR 0x5C, CHR 0x5C, CHR ''.'', CHR 0x5C] @ narrow n)
       (filter (\<lambda>n. take 7 n = usbpcap_prefix) ns)" by auto
  have "collect_entries (dl_count l) (dl_store l) (dl_head l) = Some (map snd ys)"
    using l(2) collect_chain by (simp add: represents_def)
  then show ?thesis using True l(1,3) names
    by (simp add: filters_initialize_def find_usbpcap_filters_def)
next
  case False
  then show ?thesis
    by (auto simp: filters_initialize_def find_usbpcap_filters_def empty_list_def)
qed

section \<open>The search for the upper filter\<close>

definition upper_filters :: "string list \<Rightarrow> string" where
  "upper_filters es = concat (map (\<lambda>e. e @ [NUL]) es) @ [NUL]"

text \<open>What the scan really does with the entries: after an entry that is a proper prefix of the
  driver's name it does not look at the next one.\<close>

definition proper_prefix :: "string \<Rightarrow> bool" where
  "proper_prefix e \<longleftrightarrow> e = take (length e) ''USBPcap'' \<and> length e < 7"

fun entries_scan :: "string list \<Rightarrow> bool" where
  "entries_scan [] = False"
| "entries_scan [e] = (e = ''USBPcap'')"
| "entries_scan (e # e' # es) =
     (if e = ''USBPcap'' then True
      else if proper_prefix e then entries_scan es
      else entries_scan (e' # es))"

abbreviation usb :: string where "usb \<equiv> ''USBPcap''"

lemma lookup_nth: "k < 7 \<Longrightarrow> lookup ! Suc k = usb ! k \<and> usb ! k \<noteq> NUL" "lookup ! 8 = NUL" "lookup ! 0 = NUL"
proof -
  have "\<forall>k\<in>set [0..<7]. lookup ! Suc k = usb ! k \<and> usb ! k \<noteq> NUL" by code_simp
  then show "k < 7 \<Longrightarrow> lookup ! Suc k = usb ! k \<and> usb ! k \<noteq> NUL" by simp
qed simp_all

lemma scan_from_zero: "NUL \<notin> set e \<Longrightarrow> upper_scan 0 (e @ NUL # rest) = upper_scan 1 rest"
  by (induction e) auto

lemma scan_entry:
  "NUL \<notin> set e \<Longrightarrow> k \<le> 7 \<Longrightarrow> upper_scan (Suc k) (e @ NUL # rest) =
     (if e = drop k usb then True
      else if e = take (length e) (drop k usb) \<and> length e < 7 - k then upper_scan 0 rest
      else upper_scan 1 rest)"
proof (induction e arbitrary: k)
  case Nil
  show ?case
  proof (cases "k = 7")
    case True
    have "upper_scan 8 (NUL # rest)" using lookup_nth(2) by simp
    then show ?thesis using True by (simp add: eval_nat_numeral)
  next
    case False
    then have k: "k < 7" using Nil by simp
    then have "upper_scan (Suc k) (NUL # rest) = upper_scan 0 rest"
      using lookup_nth(1) [OF k] unfolding upper_scan.simps by metis
    moreover have "drop k usb \<noteq> []" using k by simp
    ultimately show ?thesis using k by simp
  qed
next
  case (Cons c e)
  have c: "c \<noteq> NUL" "NUL \<notin> set e" using Cons.prems by auto
  show ?case
  proof (cases "k = 7")
    case True
    have "lookup ! Suc k \<noteq> c" using lookup_nth(2) c(1) True by (simp add: eval_nat_numeral)
    then have "upper_scan (Suc k) ((c # e) @ NUL # rest) = upper_scan 1 rest"
      using scan_from_zero [OF c(2)] unfolding append_Cons upper_scan.simps by metis
    then show ?thesis using True by simp
  next
    case False
    then have k: "k < 7" using Cons.prems by simp
    then have d: "drop k usb = usb ! k # drop (Suc k) usb" by (intro Cons_nth_drop_Suc [symmetric]) simp
    have step: "upper_scan (Suc k) ((c # e) @ NUL # rest) =
        (if c = usb ! k then upper_scan (Suc (Suc k)) (e @ NUL # rest) else upper_scan 0 (e @ NUL # rest))"
      using lookup_nth(1) [OF k] k unfolding append_Cons upper_scan.simps by (simp only:) simp
    show ?thesis
    proof (cases "c = usb ! k")
      case True
      have len: "length (c # e) < 7 - k \<longleftrightarrow> length e < 7 - Suc k" using k by simp linarith
      have "c # e = drop k usb \<longleftrightarrow> e = drop (Suc k) usb"
        "c # e = take (length (c # e)) (drop k usb) \<longleftrightarrow> e = take (length e) (drop (Suc k) usb)"
        unfolding d using True by simp_all
      then show ?thesis unfolding step len using True Cons.IH [OF c(2), of "Suc k"] k by simp
    next
      case False
      then have "c # e \<noteq> drop k usb" "c # e \<noteq> take (length (c # e)) (drop k usb)" unfolding d by simp_all
      then show ?thesis unfolding step using False scan_from_zero [OF c(2)] by simp
    qed
  qed
qed

lemma scan_entries:
  "\<forall>e\<in>set es. NUL \<notin> set e \<Longrightarrow> upper_scan 1 (upper_filters es) = entries_scan es"
proof (induction es rule: entries_scan.induct)
  case 1
  have "lookup ! 1 \<noteq> NUL" using lookup_nth(1) [of 0] by simp
  then show ?case by (simp add: upper_filters_def)
next
  case (2 e)
  then show ?case
    using scan_entry [of e 0 "[NUL]"] by (simp add: upper_filters_def)
next
  case (3 e e' es)
  have e: "upper_scan 1 (upper_filters (e # e' # es)) =
      (if e = usb then True else if proper_prefix e then upper_scan 0 (upper_filters (e' # es))
       else upper_scan 1 (upper_filters (e' # es)))"
    using scan_entry [of e 0 "upper_filters (e' # es)"] 3(3) by (simp add: upper_filters_def proper_prefix_def)
  have "upper_scan 0 (upper_filters (e' # es)) = upper_scan 1 (upper_filters es)"
    using scan_from_zero [of e' "upper_filters es"] 3(3) by (simp add: upper_filters_def)
  then show ?case unfolding e using 3 by simp
qed

lemma entries_scan_found:
  "\<forall>e\<in>set es. \<not> proper_prefix e \<Longrightarrow> entries_scan es = (usb \<in> set es)"
  by (induction es rule: entries_scan.induct) auto

text \<open>The driver is found among the upper filters exactly when it is one of them, whatever
  else the registry value lists, as long as no other filter's name is the beginning of the
  driver's name.\<close>

theorem upper_filter_found:
  assumes "\<forall>e\<in>set es. NUL \<notin> set e \<and> \<not> proper_prefix e"
  shows "is_usbpcap_upper_filter_installed (Some (True, upper_filters es)) = (''USBPcap'' \<in> set es)"
  using assms scan_entries [of es] entries_scan_found [of es]
  by (simp add: is_usbpcap_upper_filter_installed_def upper_filters_def)

theorem upper_filter_found_witness:
  "is_usbpcap_upper_filter_installed (Some (True, upper_filters [''usbfilter'', ''USBPcapX'', ''USBPcap''])) \<and>
   \<not> is_usbpcap_upper_filter_installed (Some (True, upper_filters [''usbfilter'', ''USBPcapX'']))"
  using upper_filter_found [of "[''usbfilter'', ''USBPcapX'', ''USBPcap'']"]
    upper_filter_found [of "[''usbfilter'', ''USBPcapX'']"] by (simp add: proper_prefix_def)

text \<open>After a filter called USB the driver is missed.\<close>

theorem upper_filter_missed:
  "\<not> is_usbpcap_upper_filter_installed (Some (True, upper_filters [''USB'', ''USBPcap'']))"
  using scan_entries [of "[''USB'', ''USBPcap'']"]
  by (simp add: is_usbpcap_upper_filter_installed_def proper_prefix_def)

end
